(* ===== verification/Prelude.thy ===== *)
theory Prelude
  imports Main "HOL-Library.AList"
begin

text \<open>
  Shared vocabulary of the development: Python strings and dictionaries, the exceptions of the
  application, results (\<open>exn + 'a\<close>) and state-passing actions that may raise, and the generic
  lemmas on lists and actions that every component theory uses. The collection \<open>act_simps\<close>
  holds the equations that run an action; \<open>res_simps\<close> those that run a result.
\<close>

named_theorems act_simps "equations that run an action step by step"
named_theorems res_simps "equations that run a result step by step"

subsection \<open>Strings, integers and dictionaries of Python\<close>

text \<open>
  A Python \<open>str\<close> is a sequence of code points; \<open>ord\<close> and comparisons work on integers.
  \<open>lit\<close> embeds a literal of the source.
\<close>

type_synonym pystr = "int list"

definition lit :: "string \<Rightarrow> pystr" where
  "lit s = map of_char s"

type_synonym 'v pydict = "(pystr \<times> 'v) list"

text \<open>\<open>str(n)\<close> for an integer: an optional minus sign and the decimal digits.\<close>

function dec_digits :: "int \<Rightarrow> pystr" where
  "dec_digits n = (if n < 10 then [48 + n] else dec_digits (n div 10) @ [48 + n mod 10])"
  by pat_completeness auto
termination
  by (relation "measure nat") auto

declare dec_digits.simps [simp del]

definition py_str_int :: "int \<Rightarrow> pystr" where
  "py_str_int n = (if n < 0 then 45 # dec_digits (- n) else dec_digits n)"

subsection \<open>Exceptions\<close>

text \<open>
  The application's own exceptions and those of the libraries that it tells apart; a \<open>ClientErr\<close>
  carries the error code of the storage's response.
\<close>

datatype exn =
    LockConnectionLost
  | ReportNotReadyForApply
  | RuntimeErr
  | ValueErr
  | KeyErr
  | IndexErr
  | DatabaseErr
  | OtherErr
  | FileTooLargeError
  | StorageUnavailableError
  | DependencyUnavailableError
  | ObjectNotFoundError
  | ReportNotFoundError
  | WarehouseNotFoundError
  | ProductNotFoundError
  | ReportPersistenceError
  | OriginalObjectMissingError
  | BotoCoreErr
  | ClientErr pystr

subsection \<open>Results: a value or an exception\<close>

definition res_bind :: "exn + 'a \<Rightarrow> ('a \<Rightarrow> exn + 'b) \<Rightarrow> exn + 'b" where
  "res_bind m f = (case m of Inl e \<Rightarrow> Inl e | Inr a \<Rightarrow> f a)"

lemma res_bind_simps [simp, res_simps]:
  "res_bind (Inl e) f = Inl e"
  "res_bind (Inr a) f = f a"
  by (simp_all add: res_bind_def)

lemma res_bind_Inr_iff:
  "res_bind m f = Inr b \<longleftrightarrow> (\<exists>a. m = Inr a \<and> f a = Inr b)"
  by (cases m) auto

fun res_map :: "('a \<Rightarrow> exn + 'b) \<Rightarrow> 'a list \<Rightarrow> exn + 'b list" where
  "res_map f [] = Inr []"
| "res_map f (x # xs) = res_bind (f x) (\<lambda>y. res_bind (res_map f xs) (\<lambda>ys. Inr (y # ys)))"

lemma res_map_Inr: "(\<And>x. x \<in> set xs \<Longrightarrow> f x = Inr (g x)) \<Longrightarrow> res_map f xs = Inr (map g xs)"
  by (induction xs) auto

text \<open>List indexing \<open>xs[i]\<close> (for \<open>i \<ge> 0\<close>) and \<open>d[k]\<close>, with the exceptions they raise.\<close>

definition py_nth :: "'a list \<Rightarrow> nat \<Rightarrow> exn + 'a" where
  "py_nth xs i = (if i < length xs then Inr (xs ! i) else Inl IndexErr)"

definition py_get :: "'v pydict \<Rightarrow> pystr \<Rightarrow> exn + 'v" where
  "py_get d k = (case map_of d k of None \<Rightarrow> Inl KeyErr | Some v \<Rightarrow> Inr v)"

text \<open>\<open>xs.index(x)\<close>: the first position of \<open>x\<close>, or a \<open>ValueError\<close>.\<close>

fun py_index :: "'a list \<Rightarrow> 'a \<Rightarrow> exn + nat" where
  "py_index [] a = Inl ValueErr"
| "py_index (x # xs) a = (if x = a then Inr 0 else res_bind (py_index xs a) (\<lambda>i. Inr (Suc i)))"

lemma py_index_in: "a \<in> set xs \<Longrightarrow> \<exists>i. py_index xs a = Inr i \<and> i < length xs \<and> xs ! i = a"
  by (induction xs) force+

subsection \<open>Actions: state passing with exceptions\<close>

text \<open>
  Code with effects is a function from the state to a result and the state after it; the state
  reached when an exception is raised is kept, as in Python.
\<close>

type_synonym ('s, 'a) action = "'s \<Rightarrow> (exn + 'a) \<times> 's"

definition ret :: "'a \<Rightarrow> ('s, 'a) action" where
  "ret a = (\<lambda>s. (Inr a, s))"

definition throw :: "exn \<Rightarrow> ('s, 'a) action" where
  "throw e = (\<lambda>s. (Inl e, s))"

definition bind_act :: "('s, 'a) action \<Rightarrow> ('a \<Rightarrow> ('s, 'b) action) \<Rightarrow> ('s, 'b) action" where
  "bind_act m f = (\<lambda>s. case m s of (Inl e, s') \<Rightarrow> (Inl e, s') | (Inr a, s') \<Rightarrow> f a s')"

definition then_act :: "('s, 'a) action \<Rightarrow> ('s, 'b) action \<Rightarrow> ('s, 'b) action" where
  "then_act m n = bind_act m (\<lambda>_. n)"

definition lift_res :: "exn + 'a \<Rightarrow> ('s, 'a) action" where
  "lift_res r = (\<lambda>s. (r, s))"

text \<open>\<open>try: m  except e: h e\<close>\<close>

definition catch_act :: "('s, 'a) action \<Rightarrow> (exn \<Rightarrow> ('s, 'a) action) \<Rightarrow> ('s, 'a) action" where
  "catch_act m h = (\<lambda>s. case m s of (Inl e, s') \<Rightarrow> h e s' | (Inr a, s') \<Rightarrow> (Inr a, s'))"

text \<open>\<open>try: m  finally: c\<close>: an exception of \<open>c\<close> replaces the outcome of \<open>m\<close>.\<close>

definition finally_act :: "('s, 'a) action \<Rightarrow> ('s, unit) action \<Rightarrow> ('s, 'a) action" where
  "finally_act m c = (\<lambda>s. case m s of (r, s') \<Rightarrow> (case c s' of (Inl e, s'') \<Rightarrow> (Inl e, s'') | (Inr _, s'') \<Rightarrow> (r, s'')))"

fun each_act :: "('a \<Rightarrow> ('s, unit) action) \<Rightarrow> 'a list \<Rightarrow> ('s, unit) action" where
  "each_act f [] = ret ()"
| "each_act f (x # xs) = then_act (f x) (each_act f xs)"

lemma act_run [act_simps]:
  "ret a s = (Inr a, s)"
  "throw e s = (Inl e, s)"
  "lift_res r s = (r, s)"
  "bind_act m f s = (case m s of (Inl e, s') \<Rightarrow> (Inl e, s') | (Inr a, s') \<Rightarrow> f a s')"
  "then_act m n s = (case m s of (Inl e, s') \<Rightarrow> (Inl e, s') | (Inr a, s') \<Rightarrow> n s')"
  "catch_act m h s = (case m s of (Inl e, s') \<Rightarrow> h e s' | (Inr a, s') \<Rightarrow> (Inr a, s'))"
  "finally_act m c s = (case m s of (r, s') \<Rightarrow>
     (case c s' of (Inl e, s'') \<Rightarrow> (Inl e, s'') | (Inr _, s'') \<Rightarrow> (r, s'')))"
  by (simp_all add: ret_def throw_def lift_res_def bind_act_def then_act_def catch_act_def
      finally_act_def)

lemma bind_act_Inr_iff:
  "bind_act m f s = (Inr b, s'') \<longleftrightarrow> (\<exists>a s'. m s = (Inr a, s') \<and> f a s' = (Inr b, s''))"
  by (auto simp: act_simps split: prod.splits sum.splits)

lemma then_act_Inr_iff:
  "then_act m n s = (Inr b, s'') \<longleftrightarrow> (\<exists>a s'. m s = (Inr a, s') \<and> n s' = (Inr b, s''))"
  by (auto simp: act_simps split: prod.splits sum.splits)

lemma bind_act_Inl_iff:
  "bind_act m f s = (Inl e, s'') \<longleftrightarrow>
     m s = (Inl e, s'') \<or> (\<exists>a s'. m s = (Inr a, s') \<and> f a s' = (Inl e, s''))"
  by (auto simp: act_simps split: prod.splits sum.splits)

lemma then_act_Inl_iff:
  "then_act m n s = (Inl e, s'') \<longleftrightarrow>
     m s = (Inl e, s'') \<or> (\<exists>a s'. m s = (Inr a, s') \<and> n s' = (Inl e, s''))"
  by (auto simp: act_simps split: prod.splits sum.splits)

lemmas act_iffs = bind_act_Inr_iff then_act_Inr_iff bind_act_Inl_iff then_act_Inl_iff

lemma bind_act_assoc: "bind_act (bind_act m f) g = bind_act m (\<lambda>x. bind_act (f x) g)"
  by (rule ext) (auto simp: act_simps split: prod.splits sum.splits)

lemma each_act_append: "each_act f (xs @ ys) = then_act (each_act f xs) (each_act f ys)"
  by (induction xs) (auto simp: fun_eq_iff act_simps split: prod.splits sum.splits)

text \<open>
  \<open>preserves P m\<close>: running \<open>m\<close> keeps \<open>P\<close>, whether it returns or raises. Built up from the
  parts of an action by the rules below.
\<close>

definition preserves :: "('s \<Rightarrow> bool) \<Rightarrow> ('s, 'a) action \<Rightarrow> bool" where
  "preserves P m \<longleftrightarrow> (\<forall>s. P s \<longrightarrow> P (snd (m s)))"

lemma preservesI: "(\<And>s. P s \<Longrightarrow> P (snd (m s))) \<Longrightarrow> preserves P m"
  by (simp add: preserves_def)

lemma preservesD: "preserves P m \<Longrightarrow> P s \<Longrightarrow> m s = (r, s') \<Longrightarrow> P s'"
  by (metis preserves_def snd_conv)

lemma preserves_ret [intro, simp]: "preserves P (ret a)"
  by (simp add: preserves_def act_simps)

lemma preserves_throw [intro, simp]: "preserves P (throw e)"
  by (simp add: preserves_def act_simps)

lemma preserves_lift_res [intro, simp]: "preserves P (lift_res r)"
  by (simp add: preserves_def act_simps)

lemma preserves_bind_act [intro]:
  "preserves P m \<Longrightarrow> (\<And>a. preserves P (f a)) \<Longrightarrow> preserves P (bind_act m f)"
  unfolding preserves_def
  by (auto simp: act_simps split: prod.splits sum.splits; metis snd_conv)

lemma preserves_then_act [intro]:
  "preserves P m \<Longrightarrow> preserves P n \<Longrightarrow> preserves P (then_act m n)"
  by (simp add: then_act_def preserves_bind_act)

lemma preserves_catch_act [intro]:
  "preserves P m \<Longrightarrow> (\<And>e. preserves P (h e)) \<Longrightarrow> preserves P (catch_act m h)"
  unfolding preserves_def
  by (auto simp: act_simps split: prod.splits sum.splits; metis snd_conv)

lemma preserves_finally_act [intro]:
  "preserves P m \<Longrightarrow> preserves P c \<Longrightarrow> preserves P (finally_act m c)"
  unfolding preserves_def
  by (auto simp: act_simps split: prod.splits sum.splits; metis snd_conv)

lemma preserves_each_act [intro]:
  "(\<And>x. x \<in> set xs \<Longrightarrow> preserves P (f x)) \<Longrightarrow> preserves P (each_act f xs)"
  by (induction xs) auto

end
