(* ===== verification/PyText.thy ===== *)
theory PyText
  imports Prelude
begin

text \<open>
  The operations of Python's standard library on text that the CSV validation uses:
  \<open>str.strip\<close>, \<open>re.fullmatch\<close> with \<open>INTEGER_PATTERN\<close>, and \<open>int\<close> on a decimal text with the
  interpreter's limit of 4300 digits.
\<close>

subsection \<open>\<open>str.strip\<close>\<close>

text \<open>The code points Python's \<open>str.isspace\<close> and \<open>str.strip\<close> treat as white space.\<close>

definition is_space :: "int \<Rightarrow> bool" where
  "is_space c \<longleftrightarrow> (9 \<le> c \<and> c \<le> 13) \<or> (28 \<le> c \<and> c \<le> 32) \<or> c = 133 \<or> c = 160 \<or> c = 5760
     \<or> (8192 \<le> c \<and> c \<le> 8202) \<or> c = 8232 \<or> c = 8233 \<or> c = 8239 \<or> c = 8287 \<or> c = 12288"

definition strip :: "pystr \<Rightarrow> pystr" where
  "strip s = rev (dropWhile is_space (rev (dropWhile is_space s)))"

lemma dropWhile_rev_hd:
  "xs \<noteq> [] \<Longrightarrow> \<not> P (hd xs) \<Longrightarrow> rev (dropWhile P (rev xs)) \<noteq> [] \<and> hd (rev (dropWhile P (rev xs))) = hd xs"
  by (cases xs) (auto simp: dropWhile_append)

lemma strip_Nil_iff: "strip s = [] \<longleftrightarrow> list_all is_space s"
proof -
  have "strip s = [] \<longleftrightarrow> dropWhile is_space s = []"
    unfolding strip_def rev_is_Nil_conv dropWhile_eq_Nil_conv set_rev
    by (metis dropWhile_eq_Nil_conv hd_dropWhile hd_in_set list.set(1) empty_iff)
  then show ?thesis
    by (simp add: dropWhile_eq_Nil_conv list.pred_set)
qed

lemma strip_hd: "strip s \<noteq> [] \<Longrightarrow> \<not> is_space (hd (strip s))"
proof -
  assume ne: "strip s \<noteq> []"
  then have d: "dropWhile is_space s \<noteq> []"
    unfolding strip_def by (metis dropWhile.simps(1) rev.simps(1))
  then have "\<not> is_space (hd (dropWhile is_space s))"
    by (rule hd_dropWhile)
  with d show ?thesis
    unfolding strip_def by (metis dropWhile_rev_hd)
qed

lemma strip_last: "strip s \<noteq> [] \<Longrightarrow> \<not> is_space (last (strip s))"
  unfolding strip_def by (metis hd_dropWhile last_rev rev_is_Nil_conv)

lemma dropWhile_id: "xs = [] \<or> \<not> P (hd xs) \<Longrightarrow> dropWhile P xs = xs"
  by (cases xs) auto

lemma strip_idem [simp]: "strip (strip s) = strip s"
proof (cases "strip s = []")
  case True
  then show ?thesis by (simp add: strip_def [of "[]"])
next
  case False
  have "dropWhile is_space (strip s) = strip s"
    using strip_hd [OF False] by (simp add: dropWhile_id)
  moreover have "dropWhile is_space (rev (strip s)) = rev (strip s)"
    using strip_last [OF False] by (simp add: dropWhile_id hd_rev)
  ultimately show ?thesis
    by (subst strip_def) simp
qed

lemma set_strip: "set (strip s) \<subseteq> set s"
  by (auto simp: strip_def dest!: set_dropWhileD)

subsection \<open>\<open>INTEGER_PATTERN.fullmatch\<close> and \<open>int\<close>\<close>

definition is_digit :: "int \<Rightarrow> bool" where
  "is_digit c \<longleftrightarrow> 48 \<le> c \<and> c \<le> 57"

text \<open>The pattern is an optional sign and at least one ASCII digit.\<close>

definition integer_fullmatch :: "pystr \<Rightarrow> bool" where
  "integer_fullmatch s =
     (case s of
        [] \<Rightarrow> False
      | c # cs \<Rightarrow>
          if c = 43 \<or> c = 45 then cs \<noteq> [] \<and> list_all is_digit cs else list_all is_digit (c # cs))"

definition digits_value :: "pystr \<Rightarrow> int" where
  "digits_value ds = foldl (\<lambda>acc d. 10 * acc + (d - 48)) 0 ds"

text \<open>
  \<open>int(s)\<close> on a text that the pattern matches. Since Python 3.11 a text with more than
  \<open>sys.int_info.default_max_str_digits\<close> digits raises \<open>ValueError\<close>; the sign is not counted.
\<close>

definition max_str_digits :: int where
  "max_str_digits = 4300"

definition py_int :: "pystr \<Rightarrow> exn + int" where
  "py_int s =
     (let neg = (s \<noteq> [] \<and> hd s = 45);
          ds = (if s \<noteq> [] \<and> (hd s = 43 \<or> hd s = 45) then tl s else s)
      in if ds = [] \<or> \<not> list_all is_digit ds \<or> max_str_digits < int (length ds) then Inl ValueErr
         else Inr (if neg then - digits_value ds else digits_value ds))"

lemma digits_value_Nil [simp]: "digits_value [] = 0"
  by (simp add: digits_value_def)

lemma digits_value_snoc [simp]: "digits_value (ds @ [d]) = 10 * digits_value ds + (d - 48)"
  by (simp add: digits_value_def)

lemma digits_value_nonneg: "list_all is_digit ds \<Longrightarrow> 0 \<le> digits_value ds"
proof (induction ds rule: rev_induct)
  case (snoc d ds)
  then show ?case by (simp add: is_digit_def)
qed simp

lemma py_int_match:
  "integer_fullmatch s \<Longrightarrow> (\<exists>n. py_int s = Inr n) \<or> py_int s = Inl ValueErr"
  by (auto simp: py_int_def Let_def)

lemma py_int_long:
  "max_str_digits + 1 < int (length s) \<Longrightarrow> py_int s = Inl ValueErr"
  by (cases s) (auto simp: py_int_def Let_def)

subsection \<open>Decimal texts are read back\<close>

lemma dec_digits_ne [simp]: "dec_digits n \<noteq> []"
  by (subst dec_digits.simps) simp

lemma dec_digits_digits: "0 \<le> n \<Longrightarrow> list_all is_digit (dec_digits n)"
proof (induction n rule: dec_digits.induct)
  case (1 n)
  have "is_digit (48 + n)" if "n < 10"
    using that 1 by (simp add: is_digit_def)
  moreover have "is_digit (48 + n mod 10)"
    by (simp add: is_digit_def)
  ultimately show ?case
    using 1 by (subst dec_digits.simps) auto
qed

lemma dec_digits_value: "0 \<le> n \<Longrightarrow> digits_value (dec_digits n) = n"
proof (induction n rule: dec_digits.induct)
  case (1 n)
  show ?case
  proof (cases "n < 10")
    case True
    then show ?thesis
      by (simp add: dec_digits.simps [of n] digits_value_def)
  next
    case False
    with 1 have "digits_value (dec_digits (n div 10)) = n div 10" by simp
    with False show ?thesis
      by (simp add: dec_digits.simps [of n])
  qed
qed

lemma length_dec_digits: "0 \<le> n \<Longrightarrow> n < 10 ^ k \<Longrightarrow> 0 < k \<Longrightarrow> length (dec_digits n) \<le> k"
proof (induction k arbitrary: n)
  case (Suc k)
  show ?case
  proof (cases "n < 10")
    case True
    then show ?thesis by (simp add: dec_digits.simps [of n])
  next
    case False
    then have "0 < k" using Suc.prems by (cases k) auto
    moreover have "n div 10 < 10 ^ k" using Suc.prems by auto
    ultimately have "length (dec_digits (n div 10)) \<le> k" using Suc by simp
    with False show ?thesis by (simp add: dec_digits.simps [of n])
  qed
qed simp

lemma dec_digits_fullmatch: "0 \<le> n \<Longrightarrow> integer_fullmatch (dec_digits n)"
  using dec_digits_digits [of n]
  by (cases "dec_digits n") (auto simp: integer_fullmatch_def is_digit_def)

lemma py_int_dec_digits:
  assumes "0 \<le> n" and "n < 10 ^ 4300"
  shows "py_int (dec_digits n) = Inr n"
proof -
  have d: "list_all is_digit (dec_digits n)" by (rule dec_digits_digits [OF assms(1)])
  then have h: "hd (dec_digits n) \<noteq> 43" "hd (dec_digits n) \<noteq> 45"
    by (cases "dec_digits n"; force simp: is_digit_def)+
  have "length (dec_digits n) \<le> 4300"
    by (rule length_dec_digits [OF assms]) simp
  then show ?thesis
    using d h by (simp add: py_int_def Let_def max_str_digits_def dec_digits_value [OF assms(1)])
qed

end
