(* ===== verification/CsvIssues.thy ===== *)
theory CsvIssues
  imports PyText
begin

text \<open>
  Validation issues and the bounded copies of input data they carry: the data classes
  \<open>ValidatedRow\<close>, \<open>ValidationIssue\<close> and \<open>LogicalCsvRecord\<close> of
  \<open>app/services/csv_validation.py\<close>, the constants, \<open>_bounded_raw_text\<close>, \<open>_bounded_raw_data\<close>
  and the issue constructors. The lemmas bound what an issue can store.
\<close>

subsection \<open>Data\<close>

text \<open>The values a \<open>raw_data\<close> dictionary holds.\<close>

datatype json = JStr pystr | JInt int | JBool bool | JList "json list"

record validated_row =
  v_line_number :: int
  v_warehouse_code :: pystr
  v_warehouse_name :: pystr
  v_sku :: pystr
  v_product_name :: pystr
  v_quantity :: int

record validation_issue =
  i_line_number :: "int option"
  i_field_name :: "pystr option"
  i_code :: pystr
  i_message :: pystr
  i_raw_data :: "json pydict option"

record logical_record =
  l_text :: pystr
  l_char_count :: int
  l_truncated :: bool

subsection \<open>Constants\<close>

definition WAREHOUSE_CODE :: pystr where "WAREHOUSE_CODE = lit ''warehouse_code''"
definition WAREHOUSE_NAME :: pystr where "WAREHOUSE_NAME = lit ''warehouse_name''"
definition SKU :: pystr where "SKU = lit ''sku''"
definition PRODUCT_NAME :: pystr where "PRODUCT_NAME = lit ''product_name''"
definition QUANTITY :: pystr where "QUANTITY = lit ''quantity''"

definition REQUIRED_COLUMNS :: "pystr list" where
  "REQUIRED_COLUMNS = [WAREHOUSE_CODE, WAREHOUSE_NAME, SKU, PRODUCT_NAME, QUANTITY]"

lemmas column_defs = WAREHOUSE_CODE_def WAREHOUSE_NAME_def SKU_def PRODUCT_NAME_def QUANTITY_def

lemma columns_distinct: "distinct REQUIRED_COLUMNS"
  by (simp add: REQUIRED_COLUMNS_def column_defs lit_def)

definition POSTGRES_BIGINT_MAX :: int where
  "POSTGRES_BIGINT_MAX = 9223372036854775807"

definition DEFAULT_MAX_FIELD_CHARS :: int where "DEFAULT_MAX_FIELD_CHARS = 1048576"
definition DEFAULT_MAX_RECORD_CHARS :: int where "DEFAULT_MAX_RECORD_CHARS = 4194304"
definition DEFAULT_ERROR_RAW_VALUE_CHARS :: int where "DEFAULT_ERROR_RAW_VALUE_CHARS = 1024"
definition DEFAULT_ERROR_RAW_TOTAL_CHARS :: int where "DEFAULT_ERROR_RAW_TOTAL_CHARS = 4096"

definition TRUNCATION_MARKER :: pystr where
  "TRUNCATION_MARKER = lit ''...[truncated]''"

definition TRUNCATED_KEY :: pystr where
  "TRUNCATED_KEY = lit ''_truncated''"

abbreviation len :: "'a list \<Rightarrow> int" where
  "len xs \<equiv> int (length xs)"

lemma len_TRUNCATION_MARKER: "len TRUNCATION_MARKER = 14"
  by (simp add: TRUNCATION_MARKER_def lit_def)

subsection \<open>Bounded copies of the input\<close>

definition bounded_raw_text :: "pystr \<Rightarrow> int \<Rightarrow> int \<Rightarrow> pystr \<times> int \<times> bool" where
  "bounded_raw_text value value_limit remaining =
     (let allowed = min value_limit remaining
      in if len value \<le> allowed then (value, len value, False)
         else if allowed \<le> 0 then ([], 0, value \<noteq> [])
         else let bounded =
                (if allowed > len TRUNCATION_MARKER
                 then take (nat (allowed - len TRUNCATION_MARKER)) value @ TRUNCATION_MARKER
                 else take (nat allowed) value)
              in (bounded, len bounded, True))"

text \<open>The loop over the items of a list value; it stops once nothing remains.\<close>

fun bounded_items ::
  "json list \<Rightarrow> int \<Rightarrow> int \<Rightarrow> bool \<Rightarrow> json list \<times> int \<times> bool" where
  "bounded_items [] value_limit remaining truncated = ([], remaining, truncated)"
| "bounded_items (JStr item # items) value_limit remaining truncated =
     (if remaining = 0 then ([], remaining, True)
      else let (bounded, used, was_truncated) = bounded_raw_text item value_limit remaining;
               (rest, remaining', truncated') =
                 bounded_items items value_limit (remaining - used) (truncated \<or> was_truncated)
           in (JStr bounded # rest, remaining', truncated'))"
| "bounded_items (item # items) value_limit remaining truncated =
     (let (rest, remaining', truncated') = bounded_items items value_limit remaining truncated
      in (item # rest, remaining', truncated'))"

text \<open>The loop over the entries of the dictionary (its keys are distinct).\<close>

fun bounded_entries ::
  "json pydict \<Rightarrow> int \<Rightarrow> int \<Rightarrow> bool \<Rightarrow> json pydict \<times> int \<times> bool" where
  "bounded_entries [] value_limit remaining truncated = ([], remaining, truncated)"
| "bounded_entries ((key, JStr value) # entries) value_limit remaining truncated =
     (let (bounded, used, was_truncated) = bounded_raw_text value value_limit remaining;
          (rest, remaining', truncated') =
            bounded_entries entries value_limit (remaining - used) (truncated \<or> was_truncated)
      in ((key, JStr bounded) # rest, remaining', truncated'))"
| "bounded_entries ((key, JList value) # entries) value_limit remaining truncated =
     (let (bounded, remaining1, truncated1) = bounded_items value value_limit remaining truncated;
          (rest, remaining', truncated') =
            bounded_entries entries value_limit remaining1
              (truncated1 \<or> length bounded \<noteq> length value)
      in ((key, JList bounded) # rest, remaining', truncated'))"
| "bounded_entries ((key, value) # entries) value_limit remaining truncated =
     (let (rest, remaining', truncated') =
            bounded_entries entries value_limit remaining truncated
      in ((key, value) # rest, remaining', truncated'))"

definition bounded_raw_data :: "json pydict \<Rightarrow> int \<Rightarrow> int \<Rightarrow> json pydict" where
  "bounded_raw_data raw_data value_limit total_limit =
     (let (result, _, truncated) = bounded_entries raw_data value_limit total_limit False
      in if truncated then AList.update TRUNCATED_KEY (JBool True) result else result)"

subsection \<open>Issue constructors\<close>

definition invalid_utf8_issue :: "int option \<Rightarrow> validation_issue" where
  "invalid_utf8_issue line_number =
     \<lparr>i_line_number = line_number, i_field_name = None, i_code = lit ''invalid_utf8'',
      i_message = lit ''CSV must be encoded as UTF-8'', i_raw_data = None\<rparr>"

definition malformed_csv_issue :: "int \<Rightarrow> validation_issue" where
  "malformed_csv_issue line_number =
     \<lparr>i_line_number = Some line_number, i_field_name = None, i_code = lit ''malformed_csv'',
      i_message = lit ''CSV syntax is malformed'', i_raw_data = None\<rparr>"

definition field_too_large_issue :: "int option \<Rightarrow> pystr \<Rightarrow> int \<Rightarrow> int \<Rightarrow> int \<Rightarrow> validation_issue" where
  "field_too_large_issue line_number text max_field_chars error_raw_value_chars error_raw_total_chars =
     (let raw_data = bounded_raw_data [(lit ''record_preview'', JStr text)]
                       error_raw_value_chars error_raw_total_chars;
          raw_data = AList.update (lit ''max_field_chars'') (JInt max_field_chars) raw_data;
          raw_data = AList.update TRUNCATED_KEY (JBool True) raw_data
      in \<lparr>i_line_number = line_number, i_field_name = None, i_code = lit ''csv_field_too_large'',
          i_message = lit ''CSV field exceeds '' @ py_str_int max_field_chars @ lit '' characters'',
          i_raw_data = Some raw_data\<rparr>)"

definition record_too_large_issue ::
  "int option \<Rightarrow> logical_record \<Rightarrow> int \<Rightarrow> int \<Rightarrow> int \<Rightarrow> validation_issue" where
  "record_too_large_issue line_number rec max_record_chars error_raw_value_chars error_raw_total_chars =
     (let raw_data = bounded_raw_data [(lit ''record_preview'', JStr (l_text rec))]
                       error_raw_value_chars error_raw_total_chars;
          raw_data = AList.update (lit ''record_chars'') (JInt (l_char_count rec)) raw_data;
          raw_data = AList.update (lit ''max_record_chars'') (JInt max_record_chars) raw_data;
          raw_data = AList.update TRUNCATED_KEY (JBool True) raw_data
      in \<lparr>i_line_number = line_number, i_field_name = None, i_code = lit ''csv_record_too_large'',
          i_message = lit ''CSV logical record exceeds '' @ py_str_int max_record_chars
                        @ lit '' characters'',
          i_raw_data = Some raw_data\<rparr>)"

subsection \<open>Bounds\<close>

lemma bounded_raw_text_used:
  "bounded_raw_text value value_limit remaining = (bounded, used, tr) \<Longrightarrow> used = len bounded"
  by (auto simp: bounded_raw_text_def Let_def split: if_splits)

lemma bounded_raw_text_le:
  "bounded_raw_text value value_limit remaining = (bounded, used, tr) \<Longrightarrow>
     len bounded \<le> max 0 (min value_limit remaining)"
  using len_TRUNCATION_MARKER
  by (auto simp: bounded_raw_text_def Let_def split: if_splits)

lemma bounded_raw_text_flag:
  assumes "bounded_raw_text value value_limit remaining = (bounded, used, tr)"
  shows "tr \<longleftrightarrow> bounded \<noteq> value"
proof -
  have "tr \<longrightarrow> len bounded < len value"
    using assms len_TRUNCATION_MARKER
    by (auto simp: bounded_raw_text_def Let_def split: if_splits)
  moreover have "\<not> tr \<longrightarrow> bounded = value"
    using assms by (auto simp: bounded_raw_text_def Let_def split: if_splits)
  ultimately show ?thesis by auto
qed

text \<open>The characters of text a value of a raw-data dictionary holds.\<close>

fun json_texts :: "json \<Rightarrow> pystr list" where
  "json_texts (JStr s) = [s]"
| "json_texts (JInt n) = []"
| "json_texts (JBool b) = []"
| "json_texts (JList js) = concat (map json_texts js)"

definition dict_texts :: "json pydict \<Rightarrow> pystr list" where
  "dict_texts d = concat (map (json_texts \<circ> snd) d)"

definition text_total :: "pystr list \<Rightarrow> int" where
  "text_total ts = sum_list (map len ts)"

text \<open>The raw data the validator passes: texts and lists of texts.\<close>

fun flat_json :: "json \<Rightarrow> bool" where
  "flat_json (JList js) = list_all (\<lambda>j. case j of JStr _ \<Rightarrow> True | _ \<Rightarrow> False) js"
| "flat_json j = True"

lemma dict_texts_simps [simp]:
  "dict_texts [] = []"
  "dict_texts ((k, v) # d) = json_texts v @ dict_texts d"
  by (simp_all add: dict_texts_def)

lemma text_total_simps [simp]:
  "text_total [] = 0"
  "text_total (t # ts) = len t + text_total ts"
  "text_total (ts @ us) = text_total ts + text_total us"
  by (simp_all add: text_total_def)

lemma text_total_nonneg: "0 \<le> text_total ts"
  by (induction ts) simp_all

lemma bounded_items_bounds:
  assumes "bounded_items items vl rem tr = (res, rem', tr')" and "0 \<le> rem"
    and "list_all (\<lambda>j. case j of JStr _ \<Rightarrow> True | _ \<Rightarrow> False) items"
  shows "0 \<le> rem' \<and> text_total (concat (map json_texts res)) = rem - rem'
    \<and> (\<forall>t \<in> set (concat (map json_texts res)). len t \<le> max 0 vl)"
  using assms
proof (induction items vl rem tr arbitrary: res rule: bounded_items.induct)
  case (2 item items vl rem tr)
  show ?case
  proof (cases "rem = 0")
    case True
    with "2.prems" show ?thesis by simp
  next
    case False
    obtain b u w where b: "bounded_raw_text item vl rem = (b, u, w)"
      by (metis prod_cases3)
    obtain rest where rest: "bounded_items items vl (rem - u) (tr \<or> w) = (rest, rem', tr')"
        "res = JStr b # rest"
      using "2.prems" False b by (auto split: prod.splits)
    have "len b \<le> max 0 (min vl rem)" "u = len b"
      using bounded_raw_text_le [OF b] bounded_raw_text_used [OF b] by auto
    moreover have "list_all (\<lambda>j. case j of JStr _ \<Rightarrow> True | _ \<Rightarrow> False) items"
      using "2.prems" by simp
    ultimately show ?thesis
      using "2.IH" [OF False b [symmetric] refl refl rest(1)] rest(2) "2.prems"(2)
      by (auto simp: max_def min_def split: if_splits)
  qed
qed auto

lemma bounded_entries_bounds:
  assumes "bounded_entries entries vl rem tr = (res, rem', tr')" and "0 \<le> rem"
    and "list_all (flat_json \<circ> snd) entries"
  shows "0 \<le> rem' \<and> text_total (dict_texts res) = rem - rem'
    \<and> (\<forall>t \<in> set (dict_texts res). len t \<le> max 0 vl)"
  using assms
proof (induction entries vl rem tr arbitrary: res rule: bounded_entries.induct)
  case (2 key "value" entries vl rem tr)
  obtain b u w where b: "bounded_raw_text value vl rem = (b, u, w)"
    by (metis prod_cases3)
  obtain rest where rest: "bounded_entries entries vl (rem - u) (tr \<or> w) = (rest, rem', tr')"
      "res = (key, JStr b) # rest"
    using "2.prems" b by (auto split: prod.splits)
  have "len b \<le> max 0 (min vl rem)" "u = len b"
    using bounded_raw_text_le [OF b] bounded_raw_text_used [OF b] by auto
  then show ?case
    using "2.IH" [OF b [symmetric] refl refl rest(1)] rest(2) "2.prems"(2,3)
    by (auto simp: max_def min_def split: if_splits)
next
  case (3 key "value" entries vl rem tr)
  obtain b r1 t1 where b: "bounded_items value vl rem tr = (b, r1, t1)"
    by (metis prod_cases3)
  obtain rest where rest:
      "bounded_entries entries vl r1 (t1 \<or> length b \<noteq> length value) = (rest, rem', tr')"
      "res = (key, JList b) # rest"
    using "3.prems" b by (auto split: prod.splits)
  have "0 \<le> r1 \<and> text_total (concat (map json_texts b)) = rem - r1
      \<and> (\<forall>t \<in> set (concat (map json_texts b)). len t \<le> max 0 vl)"
    using bounded_items_bounds [OF b] "3.prems"(2,3) by simp
  then show ?case
    using "3.IH" [OF b [symmetric] refl refl rest(1)] rest(2) "3.prems"(3)
    by auto
qed (auto split: prod.splits)

lemma dict_texts_update:
  "json_texts j = [] \<Longrightarrow> set (dict_texts (AList.update k j d)) \<subseteq> set (dict_texts d)
     \<and> text_total (dict_texts (AList.update k j d)) \<le> text_total (dict_texts d)"
proof (induction d)
  case (Cons kv d)
  moreover have "0 \<le> text_total (json_texts (snd kv))"
    by (rule text_total_nonneg)
  ultimately show ?case by (cases kv) auto
qed simp

lemma bounded_raw_data_bounds:
  assumes "list_all (flat_json \<circ> snd) d" and "0 \<le> tot"
  shows "(\<forall>t \<in> set (dict_texts (bounded_raw_data d vl tot)). len t \<le> max 0 vl)
    \<and> text_total (dict_texts (bounded_raw_data d vl tot)) \<le> tot"
proof -
  obtain res rem' tr' where e: "bounded_entries d vl tot False = (res, rem', tr')"
    by (metis prod_cases3)
  note b = bounded_entries_bounds [OF e assms(2,1)]
  have "set (dict_texts (AList.update TRUNCATED_KEY (JBool True) res)) \<subseteq> set (dict_texts res)
      \<and> text_total (dict_texts (AList.update TRUNCATED_KEY (JBool True) res)) \<le> text_total (dict_texts res)"
    by (rule dict_texts_update) simp
  with b show ?thesis
    by (auto simp: bounded_raw_data_def e)
qed

text \<open>What is not marked as truncated is complete.\<close>

lemma bounded_items_flag:
  "bounded_items items vl rem tr = (res, rem', tr') \<Longrightarrow>
     (tr \<longrightarrow> tr') \<and> (\<not> tr' \<longrightarrow> res = items)"
proof (induction items vl rem tr arbitrary: res rule: bounded_items.induct)
  case (2 item items vl rem tr)
  show ?case
  proof (cases "rem = 0")
    case True
    with "2.prems" show ?thesis by simp
  next
    case False
    obtain b u w where b: "bounded_raw_text item vl rem = (b, u, w)"
      by (metis prod_cases3)
    obtain rest where rest: "bounded_items items vl (rem - u) (tr \<or> w) = (rest, rem', tr')"
        "res = JStr b # rest"
      using "2.prems" False b by (auto split: prod.splits)
    show ?thesis
      using "2.IH" [OF False b [symmetric] refl refl rest(1)] rest(2) bounded_raw_text_flag [OF b]
      by auto
  qed
qed (fastforce split: prod.splits)+

lemma bounded_entries_flag:
  "bounded_entries entries vl rem tr = (res, rem', tr') \<Longrightarrow>
     (tr \<longrightarrow> tr') \<and> (\<not> tr' \<longrightarrow> res = entries)"
proof (induction entries vl rem tr arbitrary: res rule: bounded_entries.induct)
  case (2 key "value" entries vl rem tr)
  obtain b u w where b: "bounded_raw_text value vl rem = (b, u, w)"
    by (metis prod_cases3)
  obtain rest where rest: "bounded_entries entries vl (rem - u) (tr \<or> w) = (rest, rem', tr')"
      "res = (key, JStr b) # rest"
    using "2.prems" b by (auto split: prod.splits)
  show ?case
    using "2.IH" [OF b [symmetric] refl refl rest(1)] rest(2) bounded_raw_text_flag [OF b]
    by auto
next
  case (3 key "value" entries vl rem tr)
  obtain b r1 t1 where b: "bounded_items value vl rem tr = (b, r1, t1)"
    by (metis prod_cases3)
  obtain rest where rest:
      "bounded_entries entries vl r1 (t1 \<or> length b \<noteq> length value) = (rest, rem', tr')"
      "res = (key, JList b) # rest"
    using "3.prems" b by (auto split: prod.splits)
  show ?case
    using "3.IH" [OF b [symmetric] refl refl rest(1)] rest(2) bounded_items_flag [OF b]
    by auto
qed (fastforce split: prod.splits)+

lemma bounded_raw_data_complete:
  "bounded_raw_data d vl tot = d
     \<or> map_of (bounded_raw_data d vl tot) TRUNCATED_KEY = Some (JBool True)"
proof -
  obtain res rem' tr' where e: "bounded_entries d vl tot False = (res, rem', tr')"
    by (metis prod_cases3)
  from bounded_entries_flag [OF e] show ?thesis
    by (auto simp: bounded_raw_data_def e update_Some_unfold)
qed

end
