(* ===== verification/CsvRows.thy ===== *)
theory CsvRows
  imports CsvIssues
begin

text \<open>
  Header and row validation of \<open>app/services/csv_validation.py\<close>: \<open>_validate_header\<close>,
  \<open>_validate_row\<close>, \<open>_contains_surrogate\<close> and the column positions
  \<open>validate_csv_stream\<close> computes from the header. The lemmas say exactly which headers and rows
  are accepted and with which values.
\<close>

subsection \<open>Definitions\<close>

definition contains_surrogate :: "pystr list \<Rightarrow> bool" where
  "contains_surrogate values \<longleftrightarrow>
     list_ex (\<lambda>value. list_ex (\<lambda>character. 56448 \<le> character \<and> character \<le> 56575) value) values"

definition header_issue :: "pystr list \<Rightarrow> json pydict \<Rightarrow> pystr \<Rightarrow> validation_issue list" where
  "header_issue header raw_data column =
     (let occurrences = count_list header column in
      if occurrences = 0 then
        [\<lparr>i_line_number = None, i_field_name = Some column, i_code = lit ''missing_required_column'',
          i_message = lit ''Required column '' @ [39] @ column @ [39] @ lit '' is missing'',
          i_raw_data = Some raw_data\<rparr>]
      else if occurrences > 1 then
        [\<lparr>i_line_number = None, i_field_name = Some column, i_code = lit ''duplicate_required_column'',
          i_message = lit ''Required column '' @ [39] @ column @ [39] @ lit '' appears more than once'',
          i_raw_data = Some raw_data\<rparr>]
      else [])"

definition validate_header :: "pystr list \<Rightarrow> int \<Rightarrow> int \<Rightarrow> validation_issue list" where
  "validate_header header error_raw_value_chars error_raw_total_chars =
     (let raw_data = bounded_raw_data [(lit ''header'', JList (map JStr header))]
                       error_raw_value_chars error_raw_total_chars
      in concat (map (header_issue header raw_data) REQUIRED_COLUMNS))"

text \<open>\<open>{name: header.index(name) for name in REQUIRED_COLUMNS}\<close>\<close>

definition column_indexes :: "pystr list \<Rightarrow> exn + nat pydict" where
  "column_indexes header =
     res_map (\<lambda>name. res_bind (py_index header name) (\<lambda>i. Inr (name, i))) REQUIRED_COLUMNS"

definition row_issue ::
  "int \<Rightarrow> pystr \<Rightarrow> pystr \<Rightarrow> pystr \<Rightarrow> json pydict \<Rightarrow> validation_issue" where
  "row_issue line_number field code message raw_data =
     \<lparr>i_line_number = Some line_number, i_field_name = Some field, i_code = code,
      i_message = message, i_raw_data = Some raw_data\<rparr>"

definition required_issue ::
  "int \<Rightarrow> json pydict \<Rightarrow> pystr pydict \<Rightarrow> pystr \<Rightarrow> exn + validation_issue list" where
  "required_issue line_number raw_data values field =
     res_bind (py_get values field) (\<lambda>value.
       Inr (if value = []
            then [row_issue line_number field (lit ''required'')
                    (lit ''Field '' @ [39] @ field @ [39] @ lit '' must not be empty'') raw_data]
            else []))"

definition quantity_check ::
  "int \<Rightarrow> json pydict \<Rightarrow> pystr \<Rightarrow> exn + validation_issue list \<times> int option" where
  "quantity_check line_number raw_data quantity_text =
     (if \<not> integer_fullmatch quantity_text then
        Inr ([row_issue line_number QUANTITY (lit ''invalid_quantity'')
                (lit ''Quantity must be a decimal integer'') raw_data], None)
      else res_bind (py_int quantity_text) (\<lambda>quantity.
        if quantity < 0 then
          Inr ([row_issue line_number QUANTITY (lit ''quantity_negative'')
                  (lit ''Quantity must be greater than or equal to zero'') raw_data], Some quantity)
        else if quantity > POSTGRES_BIGINT_MAX then
          Inr ([row_issue line_number QUANTITY (lit ''quantity_too_large'')
                  (lit ''Quantity exceeds the PostgreSQL BIGINT range'') raw_data], Some quantity)
        else Inr ([], Some quantity)))"

definition validate_row ::
  "pystr list \<Rightarrow> pystr list \<Rightarrow> nat pydict \<Rightarrow> int \<Rightarrow> int \<Rightarrow> int
     \<Rightarrow> exn + validation_issue list \<times> validated_row option" where
  "validate_row row header indexes line_number error_raw_value_chars error_raw_total_chars =
     (if length row \<noteq> length header then
        Inr ([\<lparr>i_line_number = Some line_number, i_field_name = None,
               i_code = lit ''invalid_column_count'',
               i_message = lit ''CSV row has a different number of fields than the header'',
               i_raw_data = Some (bounded_raw_data [(lit ''values'', JList (map JStr row))]
                                    error_raw_value_chars error_raw_total_chars)\<rparr>], None)
      else
        res_bind (res_map (\<lambda>(name, index). res_bind (py_nth row index) (\<lambda>v. Inr (name, v))) indexes)
          (\<lambda>raw_values.
        let values = map (\<lambda>(name, value). (name, strip value)) raw_values;
            raw_data = bounded_raw_data (map (\<lambda>(name, value). (name, JStr value)) raw_values)
                         error_raw_value_chars error_raw_total_chars
        in
        res_bind (res_map (required_issue line_number raw_data values)
                    [WAREHOUSE_CODE, WAREHOUSE_NAME, SKU, PRODUCT_NAME]) (\<lambda>required.
        res_bind (py_get values QUANTITY) (\<lambda>quantity_text.
        res_bind (quantity_check line_number raw_data quantity_text) (\<lambda>(quantity_issues, quantity).
        let issues = concat required @ quantity_issues in
        (case quantity of
           None \<Rightarrow> Inr (issues, None)
         | Some q \<Rightarrow>
             if issues \<noteq> [] then Inr (issues, None)
             else
               res_bind (py_get values WAREHOUSE_CODE) (\<lambda>warehouse_code.
               res_bind (py_get values WAREHOUSE_NAME) (\<lambda>warehouse_name.
               res_bind (py_get values SKU) (\<lambda>sku.
               res_bind (py_get values PRODUCT_NAME) (\<lambda>product_name.
               Inr ([], Some \<lparr>v_line_number = line_number, v_warehouse_code = warehouse_code,
                              v_warehouse_name = warehouse_name, v_sku = sku,
                              v_product_name = product_name, v_quantity = q\<rparr>)))))))))))"

subsection \<open>Headers\<close>

lemma header_issue_Nil_iff: "header_issue header raw column = [] \<longleftrightarrow> count_list header column = 1"
  by (auto simp: header_issue_def Let_def)

lemma validate_header_Nil_iff:
  "validate_header header vl tot = [] \<longleftrightarrow> (\<forall>c \<in> set REQUIRED_COLUMNS. count_list header c = 1)"
  by (simp add: validate_header_def Let_def header_issue_Nil_iff)

definition header_ok :: "pystr list \<Rightarrow> bool" where
  "header_ok header \<longleftrightarrow> list_all (\<lambda>c. count_list header c = 1) REQUIRED_COLUMNS"

lemma validate_header_ok: "validate_header header vl tot = [] \<longleftrightarrow> header_ok header"
  by (simp add: validate_header_Nil_iff header_ok_def list.pred_set)

lemma header_ok_member: "header_ok header \<Longrightarrow> c \<in> set REQUIRED_COLUMNS \<Longrightarrow> c \<in> set header"
  using count_notin [of c header] by (fastforce simp: header_ok_def list.pred_set)

text \<open>The cell of a row under a column of the header.\<close>

definition cell :: "pystr list \<Rightarrow> pystr list \<Rightarrow> pystr \<Rightarrow> pystr" where
  "cell header row name = (case map_of (zip header row) name of None \<Rightarrow> [] | Some v \<Rightarrow> v)"

lemma py_index_cell:
  "py_index header name = Inr i \<Longrightarrow> length row = length header \<Longrightarrow>
     i < length row \<and> cell header row name = row ! i"
proof (induction header name arbitrary: row i rule: py_index.induct)
  case (2 x xs a)
  then obtain r rs where row: "row = r # rs" by (cases row) auto
  show ?case
  proof (cases "x = a")
    case True
    with 2 row show ?thesis by (auto simp: cell_def)
  next
    case False
    with "2.prems" obtain j where j: "py_index xs a = Inr j" "i = Suc j"
      by (auto simp: res_bind_Inr_iff)
    with "2.IH" [OF False j(1), of rs] "2.prems" row False show ?thesis
      by (auto simp: cell_def)
  qed
qed simp

lemma column_indexes_ok:
  assumes "header_ok header"
  obtains f where "column_indexes header = Inr (map (\<lambda>c. (c, f c)) REQUIRED_COLUMNS)"
    and "\<forall>c \<in> set REQUIRED_COLUMNS. py_index header c = Inr (f c)"
proof -
  have "\<forall>c \<in> set REQUIRED_COLUMNS. \<exists>i. py_index header c = Inr i"
    using header_ok_member [OF assms] py_index_in by metis
  then obtain f where f: "\<forall>c \<in> set REQUIRED_COLUMNS. py_index header c = Inr (f c)"
    by metis
  have "column_indexes header = Inr (map (\<lambda>c. (c, f c)) REQUIRED_COLUMNS)"
    unfolding column_indexes_def by (rule res_map_Inr) (simp add: f)
  with f show ?thesis by (intro that [of f]) auto
qed

subsection \<open>Rows\<close>

abbreviation text_columns :: "pystr list" where
  "text_columns \<equiv> [WAREHOUSE_CODE, WAREHOUSE_NAME, SKU, PRODUCT_NAME]"

definition row_raw_data :: "pystr list \<Rightarrow> pystr list \<Rightarrow> int \<Rightarrow> int \<Rightarrow> json pydict" where
  "row_raw_data header row vl tot =
     bounded_raw_data (map (\<lambda>c. (c, JStr (cell header row c))) REQUIRED_COLUMNS) vl tot"

definition missing_fields :: "pystr list \<Rightarrow> pystr list \<Rightarrow> pystr list" where
  "missing_fields header row = filter (\<lambda>c. strip (cell header row c) = []) text_columns"

definition required_issues :: "int \<Rightarrow> json pydict \<Rightarrow> pystr list \<Rightarrow> validation_issue list" where
  "required_issues line_number raw_data names =
     map (\<lambda>f. row_issue line_number f (lit ''required'')
            (lit ''Field '' @ [39] @ f @ [39] @ lit '' must not be empty'') raw_data) names"

definition row_of_cells :: "pystr list \<Rightarrow> pystr list \<Rightarrow> int \<Rightarrow> int \<Rightarrow> validated_row" where
  "row_of_cells header row line_number q =
     \<lparr>v_line_number = line_number,
      v_warehouse_code = strip (cell header row WAREHOUSE_CODE),
      v_warehouse_name = strip (cell header row WAREHOUSE_NAME),
      v_sku = strip (cell header row SKU),
      v_product_name = strip (cell header row PRODUCT_NAME),
      v_quantity = q\<rparr>"

lemma column_neqs [simp]:
  "WAREHOUSE_CODE \<noteq> WAREHOUSE_NAME" "WAREHOUSE_CODE \<noteq> SKU" "WAREHOUSE_CODE \<noteq> PRODUCT_NAME"
  "WAREHOUSE_CODE \<noteq> QUANTITY" "WAREHOUSE_NAME \<noteq> SKU" "WAREHOUSE_NAME \<noteq> PRODUCT_NAME"
  "WAREHOUSE_NAME \<noteq> QUANTITY" "SKU \<noteq> PRODUCT_NAME" "SKU \<noteq> QUANTITY" "PRODUCT_NAME \<noteq> QUANTITY"
  using columns_distinct by (auto simp: REQUIRED_COLUMNS_def)

lemmas column_neqs_sym [simp] = column_neqs [symmetric]

lemma py_get_columns:
  "c \<in> set REQUIRED_COLUMNS \<Longrightarrow> py_get (map (\<lambda>c. (c, g c)) REQUIRED_COLUMNS) c = Inr (g c)"
  by (auto simp: REQUIRED_COLUMNS_def py_get_def)

lemma required_issue_columns:
  "c \<in> set REQUIRED_COLUMNS \<Longrightarrow>
   required_issue ln raw (map (\<lambda>c. (c, strip (cell header row c))) REQUIRED_COLUMNS) c
     = Inr (required_issues ln raw (filter (\<lambda>c. strip (cell header row c) = []) [c]))"
  by (simp add: required_issue_def py_get_columns required_issues_def)

lemma validate_row_cells:
  assumes hdr: "header_ok header" and idx: "column_indexes header = Inr indexes"
    and len: "length row = length header"
  shows "validate_row row header indexes ln vl tot =
    (case quantity_check ln (row_raw_data header row vl tot) (strip (cell header row QUANTITY)) of
       Inl e \<Rightarrow> Inl e
     | Inr (qi, q) \<Rightarrow>
         if q = None \<or> missing_fields header row \<noteq> [] \<or> qi \<noteq> []
         then Inr (required_issues ln (row_raw_data header row vl tot) (missing_fields header row) @ qi,
                   None)
         else Inr ([], Some (row_of_cells header row ln (the q))))"
proof -
  obtain f where f: "column_indexes header = Inr (map (\<lambda>c. (c, f c)) REQUIRED_COLUMNS)"
    "\<forall>c \<in> set REQUIRED_COLUMNS. py_index header c = Inr (f c)"
    by (rule column_indexes_ok [OF hdr])
  have raw: "res_map (\<lambda>(name, index). res_bind (py_nth row index) (\<lambda>v. Inr (name, v))) indexes
    = Inr (map (\<lambda>c. (c, cell header row c)) REQUIRED_COLUMNS)"
  proof -
    have "\<And>c. c \<in> set REQUIRED_COLUMNS \<Longrightarrow> f c < length row \<and> cell header row c = row ! f c"
      using f(2) py_index_cell len by blast
    then have "res_map (\<lambda>(name, index). res_bind (py_nth row index) (\<lambda>v. Inr (name, v))) indexes
        = Inr (map (\<lambda>(c, i). (c, cell header row c)) indexes)"
      using f(1) idx by (intro res_map_Inr) (auto simp: py_nth_def)
    then show ?thesis using f(1) idx by simp
  qed
  have req: "res_map (required_issue ln r (map (\<lambda>c. (c, strip (cell header row c))) REQUIRED_COLUMNS))
      text_columns
    = Inr (map (\<lambda>c. required_issues ln r (filter (\<lambda>c. strip (cell header row c) = []) [c])) text_columns)"
    for r
    by (rule res_map_Inr, rule required_issue_columns) (auto simp: REQUIRED_COLUMNS_def)
  have cat: "concat (map (\<lambda>c. required_issues ln r (filter (\<lambda>c. strip (cell header row c) = []) [c]))
      text_columns) = required_issues ln r (missing_fields header row)" for r
    by (simp add: required_issues_def missing_fields_def)
  let ?vals = "map (\<lambda>c. (c, strip (cell header row c))) REQUIRED_COLUMNS"
  have get: "py_get ?vals WAREHOUSE_CODE = Inr (strip (cell header row WAREHOUSE_CODE))"
    "py_get ?vals WAREHOUSE_NAME = Inr (strip (cell header row WAREHOUSE_NAME))"
    "py_get ?vals SKU = Inr (strip (cell header row SKU))"
    "py_get ?vals PRODUCT_NAME = Inr (strip (cell header row PRODUCT_NAME))"
    "py_get ?vals QUANTITY = Inr (strip (cell header row QUANTITY))"
    by (rule py_get_columns; simp add: REQUIRED_COLUMNS_def)+
  have vals: "map (\<lambda>(name, v). (name, strip v)) (map (\<lambda>c. (c, cell header row c)) REQUIRED_COLUMNS) = ?vals"
    by simp
  have json: "map (\<lambda>(name, v). (name, JStr v)) (map (\<lambda>c. (c, cell header row c)) REQUIRED_COLUMNS)
      = map (\<lambda>c. (c, JStr (cell header row c))) REQUIRED_COLUMNS"
    by simp
  show ?thesis
    unfolding validate_row_def Let_def raw res_bind_simps vals json row_raw_data_def [symmetric]
      req cat get row_of_cells_def
    by (cases "quantity_check ln (row_raw_data header row vl tot) (strip (cell header row QUANTITY))")
      (auto simp: len required_issues_def split: option.splits)
qed

subsection \<open>What is accepted\<close>

lemma quantity_check_cases:
  "quantity_check ln raw s = Inr (qi, q) \<Longrightarrow>
     (q = None \<and> qi \<noteq> [] \<and> \<not> integer_fullmatch s) \<or>
     (\<exists>n. q = Some n \<and> integer_fullmatch s \<and> py_int s = Inr n
        \<and> (qi = [] \<longleftrightarrow> 0 \<le> n \<and> n \<le> POSTGRES_BIGINT_MAX))"
  by (auto simp: quantity_check_def res_bind_Inr_iff split: if_splits)

lemma quantity_check_raises_iff:
  "quantity_check ln raw s = Inl e \<longleftrightarrow> integer_fullmatch s \<and> py_int s = Inl e"
  by (cases "py_int s") (auto simp: quantity_check_def)

lemma quantity_check_ok_iff:
  "quantity_check ln raw s = Inr ([], Some n) \<longleftrightarrow>
     integer_fullmatch s \<and> py_int s = Inr n \<and> 0 \<le> n \<and> n \<le> POSTGRES_BIGINT_MAX"
  by (cases "py_int s") (auto simp: quantity_check_def)

lemma required_issues_Nil_iff [simp]: "required_issues ln raw names = [] \<longleftrightarrow> names = []"
  by (simp add: required_issues_def)

lemma validate_row_accepts_iff:
  assumes "header_ok header" and "column_indexes header = Inr indexes"
  shows "validate_row row header indexes ln vl tot = Inr ([], Some r) \<longleftrightarrow>
    length row = length header \<and> missing_fields header row = []
    \<and> (\<exists>q. integer_fullmatch (strip (cell header row QUANTITY))
          \<and> py_int (strip (cell header row QUANTITY)) = Inr q
          \<and> 0 \<le> q \<and> q \<le> POSTGRES_BIGINT_MAX \<and> r = row_of_cells header row ln q)"
proof (cases "length row = length header")
  case False
  then show ?thesis by (simp add: validate_row_def)
next
  case True
  show ?thesis
    unfolding validate_row_cells [OF assms True]
    by (auto simp: True quantity_check_ok_iff quantity_check_raises_iff dest: quantity_check_cases
        split: sum.splits if_splits)
qed

text \<open>A row is accepted or it gets an issue, never both and never neither.\<close>

lemma validate_row_verdict:
  assumes "header_ok header" and "column_indexes header = Inr indexes"
    and "validate_row row header indexes ln vl tot = Inr (issues, v)"
  shows "(issues = [] \<and> v \<noteq> None) \<or> (issues \<noteq> [] \<and> v = None)"
proof (cases "length row = length header")
  case False
  then show ?thesis using assms(3) by (auto simp: validate_row_def)
next
  case True
  show ?thesis
    using assms(3) unfolding validate_row_cells [OF assms(1,2) True]
    by (auto dest: quantity_check_cases split: sum.splits if_splits)
qed

text \<open>
  The one exception: a quantity the pattern accepts whose digits exceed the interpreter's limit.
\<close>

lemma validate_row_raises_iff:
  assumes "header_ok header" and "column_indexes header = Inr indexes"
  shows "validate_row row header indexes ln vl tot = Inl e \<longleftrightarrow>
    length row = length header \<and> integer_fullmatch (strip (cell header row QUANTITY))
    \<and> py_int (strip (cell header row QUANTITY)) = Inl e"
proof (cases "length row = length header")
  case False
  then show ?thesis by (simp add: validate_row_def)
next
  case True
  show ?thesis
    unfolding validate_row_cells [OF assms True]
    using quantity_check_raises_iff [of ln "row_raw_data header row vl tot"
        "strip (cell header row QUANTITY)" e]
    by (auto simp: True split: sum.splits if_splits)
qed

lemma quantity_check_lines:
  "quantity_check ln raw s = Inr (qi, q) \<Longrightarrow> \<forall>i \<in> set qi. i_line_number i = Some ln"
  by (auto simp: quantity_check_def row_issue_def res_bind_Inr_iff split: if_splits)

lemma required_issues_lines: "i \<in> set (required_issues ln raw names) \<Longrightarrow> i_line_number i = Some ln"
  by (auto simp: required_issues_def row_issue_def)

lemma validate_row_lines:
  assumes "header_ok header" and "column_indexes header = Inr indexes"
    and "validate_row row header indexes ln vl tot = Inr (issues, v)"
  shows "(\<forall>i \<in> set issues. i_line_number i = Some ln) \<and> (\<forall>r. v = Some r \<longrightarrow> v_line_number r = ln)"
proof (cases "length row = length header")
  case False
  then show ?thesis using assms(3) by (auto simp: validate_row_def)
next
  case True
  obtain qi q where q: "quantity_check ln (row_raw_data header row vl tot)
      (strip (cell header row QUANTITY)) = Inr (qi, q)"
    using assms(3) unfolding validate_row_cells [OF assms(1,2) True] by (auto split: sum.splits)
  have "\<forall>i \<in> set (required_issues ln (row_raw_data header row vl tot) (missing_fields header row) @ qi).
      i_line_number i = Some ln"
    using quantity_check_lines [OF q] required_issues_lines by auto
  then show ?thesis
    using assms(3) unfolding validate_row_cells [OF assms(1,2) True] q
    by (auto simp: row_of_cells_def split: if_splits)
qed

end
