(* ===== verification/CsvRecords.thy ===== *)
theory CsvRecords
  imports CsvIssues
begin

text \<open>
  The splitter \<open>_iter_logical_records\<close> of \<open>app/services/csv_validation.py\<close>: it reads the text in
  chunks, looks only at the characters a regular expression finds, and cuts the text into logical
  CSV records while storing at most \<open>max_record_chars\<close> characters of each. The first part is the
  code; the second a reference that reads the text character by character
  (\<open>split_text\<close>); the third proves that the two agree for every chunking.
\<close>

definition DQUOTE :: int where "DQUOTE = 34"
definition COMMA :: int where "COMMA = 44"
definition CR :: int where "CR = 13"
definition LF :: int where "LF = 10"

lemmas char_defs = DQUOTE_def COMMA_def CR_def LF_def

subsection \<open>The code\<close>

text \<open>The local variables of the generator that live across chunks.\<close>

record scan_state =
  sc_parts :: "pystr list"
  sc_stored_chars :: int
  sc_record_chars :: int
  sc_truncated :: bool
  sc_in_quotes :: bool
  sc_quote_pending :: bool
  sc_at_field_start :: bool
  sc_skip_lf_after_cr :: bool

definition scan_init :: scan_state where
  "scan_init = \<lparr>sc_parts = [], sc_stored_chars = 0, sc_record_chars = 0, sc_truncated = False,
     sc_in_quotes = False, sc_quote_pending = False, sc_at_field_start = True,
     sc_skip_lf_after_cr = False\<rparr>"

definition is_special :: "int \<Rightarrow> bool" where
  "is_special c \<longleftrightarrow> c = DQUOTE \<or> c = COMMA \<or> c = CR \<or> c = LF"

definition append_piece :: "int \<Rightarrow> int \<Rightarrow> pystr \<Rightarrow> scan_state \<Rightarrow> scan_state" where
  "append_piece max_record_chars preview_chars piece st =
     (if piece = [] \<or> sc_truncated st then st
      else let remaining = max_record_chars - sc_stored_chars st in
        if len piece \<le> remaining then
          st\<lparr>sc_parts := sc_parts st @ [piece], sc_stored_chars := sc_stored_chars st + len piece\<rparr>
        else
          let parts = (if remaining > 0 then sc_parts st @ [take (nat remaining) piece] else sc_parts st);
              preview = take (nat preview_chars) (concat parts)
          in st\<lparr>sc_parts := [preview], sc_stored_chars := len preview, sc_truncated := True\<rparr>)"

text \<open>The bookkeeping for a non-empty run of \<open>n\<close> ordinary characters.\<close>

definition count_normal :: "nat \<Rightarrow> scan_state \<Rightarrow> scan_state" where
  "count_normal n st =
     (if n = 0 then st
      else
        let st = st\<lparr>sc_record_chars := sc_record_chars st + int n\<rparr>;
            st = (if sc_in_quotes st \<and> sc_quote_pending st
                  then st\<lparr>sc_in_quotes := False, sc_quote_pending := False\<rparr> else st)
        in if \<not> sc_in_quotes st then st\<lparr>sc_at_field_start := False\<rparr> else st)"

text \<open>
  The \<open>while reprocess\<close> loop: \<open>classify_outside\<close> is its body outside quotes,
  \<open>classify_special\<close> the whole loop, which reprocesses the character at most once. The result
  says whether the character ends the record.
\<close>

definition classify_outside :: "int \<Rightarrow> scan_state \<Rightarrow> bool \<times> scan_state" where
  "classify_outside character st =
     (if character = CR \<or> character = LF then (True, st)
      else if character = COMMA then (False, st\<lparr>sc_at_field_start := True\<rparr>)
      else if character = DQUOTE \<and> sc_at_field_start st then
        (False, st\<lparr>sc_in_quotes := True, sc_at_field_start := False\<rparr>)
      else (False, st\<lparr>sc_at_field_start := False\<rparr>))"

definition classify_special :: "int \<Rightarrow> scan_state \<Rightarrow> bool \<times> scan_state" where
  "classify_special character st =
     (if sc_in_quotes st then
        if sc_quote_pending st then
          if character = DQUOTE then (False, st\<lparr>sc_quote_pending := False\<rparr>)
          else classify_outside character (st\<lparr>sc_in_quotes := False, sc_quote_pending := False\<rparr>)
        else if character = DQUOTE then (False, st\<lparr>sc_quote_pending := True\<rparr>)
        else (False, st)
      else classify_outside character st)"

text \<open>\<open>xs[a:b]\<close>\<close>

definition slice :: "nat \<Rightarrow> nat \<Rightarrow> 'a list \<Rightarrow> 'a list" where
  "slice a b xs = take (b - a) (drop a xs)"

definition record_of :: "scan_state \<Rightarrow> logical_record" where
  "record_of st = \<lparr>l_text = concat (sc_parts st), l_char_count = sc_record_chars st,
                   l_truncated = sc_truncated st\<rparr>"

text \<open>
  One turn of \<open>for match in _CSV_SPECIAL_CHARACTER.finditer(chunk)\<close>, on the state, the chunk's
  \<open>segment_start\<close> and \<open>counted_start\<close>, with the record it yields, if any.
\<close>

definition scan_match ::
  "int \<Rightarrow> int \<Rightarrow> pystr \<Rightarrow> nat \<Rightarrow> scan_state \<times> nat \<times> nat
     \<Rightarrow> (scan_state \<times> nat \<times> nat) \<times> logical_record list" where
  "scan_match max_record_chars preview_chars chunk index = (\<lambda>(st, segment_start, counted_start).
     let character = chunk ! index in
     if sc_skip_lf_after_cr st \<and> index = segment_start \<and> character = LF then
       ((st\<lparr>sc_skip_lf_after_cr := False\<rparr>, index + 1, index + 1), [])
     else
       let st = st\<lparr>sc_skip_lf_after_cr := False\<rparr>;
           st = count_normal (index - counted_start) st;
           st = st\<lparr>sc_record_chars := sc_record_chars st + 1\<rparr>;
           (is_boundary, st) = classify_special character st
       in if is_boundary then
            let st = append_piece max_record_chars preview_chars
                       (slice segment_start (index + 1) chunk) st
            in ((scan_init\<lparr>sc_skip_lf_after_cr := (character = CR)\<rparr>, index + 1, index + 1),
                [record_of st])
          else ((st, segment_start, index + 1), []))"

fun scan_matches ::
  "int \<Rightarrow> int \<Rightarrow> pystr \<Rightarrow> nat list \<Rightarrow> scan_state \<times> nat \<times> nat
     \<Rightarrow> (scan_state \<times> nat \<times> nat) \<times> logical_record list" where
  "scan_matches max_record_chars preview_chars chunk [] s = (s, [])"
| "scan_matches max_record_chars preview_chars chunk (index # rest) s =
     (let (s', recs) = scan_match max_record_chars preview_chars chunk index s;
          (s'', recs') = scan_matches max_record_chars preview_chars chunk rest s'
      in (s'', recs @ recs'))"

definition scan_chunk ::
  "int \<Rightarrow> int \<Rightarrow> pystr \<Rightarrow> scan_state \<Rightarrow> scan_state \<times> logical_record list" where
  "scan_chunk max_record_chars preview_chars chunk st =
     (let ((st, segment_start, counted_start), recs) =
            scan_matches max_record_chars preview_chars chunk
              (filter (\<lambda>i. is_special (chunk ! i)) [0..<length chunk]) (st, 0, 0);
          trailing_chars = length chunk - counted_start;
          st = (if trailing_chars \<noteq> 0
                then count_normal trailing_chars (st\<lparr>sc_skip_lf_after_cr := False\<rparr>) else st)
      in (append_piece max_record_chars preview_chars (drop segment_start chunk) st, recs))"

text \<open>
  The generator, unrolled into what it does in order: it reads a chunk (\<open>ReadChunk\<close>, which may
  raise), and yields records. The chunks are the results of \<open>text_stream.read\<close>; an empty result
  ends the loop, and the read after the last chunk is the one that returns nothing.
\<close>

datatype gen_event = ReadChunk | Yield logical_record

definition scan_finish :: "scan_state \<Rightarrow> gen_event list" where
  "scan_finish st = (if sc_record_chars st \<noteq> 0 then [Yield (record_of st)] else [])"

fun scan_events :: "int \<Rightarrow> int \<Rightarrow> scan_state \<Rightarrow> pystr list \<Rightarrow> gen_event list" where
  "scan_events max_record_chars preview_chars st [] = ReadChunk # scan_finish st"
| "scan_events max_record_chars preview_chars st (chunk # chunks) =
     ReadChunk #
       (if chunk = [] then scan_finish st
        else let (st', recs) = scan_chunk max_record_chars preview_chars chunk st
             in map Yield recs @ scan_events max_record_chars preview_chars st' chunks)"

definition iter_logical_records :: "int \<Rightarrow> int \<Rightarrow> pystr list \<Rightarrow> gen_event list" where
  "iter_logical_records max_record_chars preview_chars chunks =
     scan_events max_record_chars preview_chars scan_init chunks"

fun yielded :: "gen_event list \<Rightarrow> logical_record list" where
  "yielded [] = []"
| "yielded (ReadChunk # es) = yielded es"
| "yielded (Yield r # es) = r # yielded es"

lemma yielded_append [simp]: "yielded (es @ es') = yielded es @ yielded es'"
  by (induction es rule: yielded.induct) auto

lemma yielded_map_Yield [simp]: "yielded (map Yield rs) = rs"
  by (induction rs) auto

subsection \<open>The reference: one character at a time\<close>

text \<open>
  Where the next character falls: at the start of a field, in an unquoted field, in a quoted
  field, or just after a quote inside a quoted field. \<open>None\<close>: the character ends the record.
\<close>

datatype mode = FieldStart | Unquoted | Quoted | QuoteSeen

definition unquoted_mode :: "int \<Rightarrow> mode option" where
  "unquoted_mode c = (if c = CR \<or> c = LF then None else if c = COMMA then Some FieldStart else Some Unquoted)"

fun next_mode :: "mode \<Rightarrow> int \<Rightarrow> mode option" where
  "next_mode FieldStart c = (if c = DQUOTE then Some Quoted else unquoted_mode c)"
| "next_mode Unquoted c = unquoted_mode c"
| "next_mode Quoted c = (if c = DQUOTE then Some QuoteSeen else Some Quoted)"
| "next_mode QuoteSeen c = (if c = DQUOTE then Some Quoted else unquoted_mode c)"

text \<open>The mode, the text of the record so far, and whether a line feed is to be dropped.\<close>

type_synonym split_state = "mode \<times> pystr \<times> bool"

fun split_step :: "int \<Rightarrow> split_state \<Rightarrow> split_state \<times> pystr list" where
  "split_step c (m, raw, skip) =
     (if skip \<and> c = LF then ((m, raw, False), [])
      else (case next_mode m c of
              Some m' \<Rightarrow> ((m', raw @ [c], False), [])
            | None \<Rightarrow> ((FieldStart, [], c = CR), [raw @ [c]])))"

fun split_run :: "split_state \<Rightarrow> pystr \<Rightarrow> split_state \<times> pystr list" where
  "split_run s [] = (s, [])"
| "split_run s (c # cs) =
     (let (s', out) = split_step c s; (s'', out') = split_run s' cs in (s'', out @ out'))"

definition split_rest :: "split_state \<Rightarrow> pystr list" where
  "split_rest s = (if fst (snd s) = [] then [] else [fst (snd s)])"

definition split_text :: "pystr \<Rightarrow> pystr list" where
  "split_text text =
     (let (s, out) = split_run (FieldStart, [], False) text in out @ split_rest s)"

text \<open>What is stored of a record's text.\<close>

definition stored_text :: "int \<Rightarrow> int \<Rightarrow> pystr \<Rightarrow> pystr" where
  "stored_text max_record_chars preview_chars raw =
     (if len raw \<le> max_record_chars then raw
      else take (nat preview_chars) (take (nat max_record_chars) raw))"

definition make_record :: "int \<Rightarrow> int \<Rightarrow> pystr \<Rightarrow> logical_record" where
  "make_record max_record_chars preview_chars raw =
     \<lparr>l_text = stored_text max_record_chars preview_chars raw, l_char_count = len raw,
      l_truncated = (max_record_chars < len raw)\<rparr>"

lemma split_run_append:
  "split_run s (xs @ ys) =
     (let (s', out) = split_run s xs; (s'', out') = split_run s' ys in (s'', out @ out'))"
  by (induction xs arbitrary: s) (auto split: prod.splits simp: Let_def)

subsection \<open>The code agrees with the reference\<close>

definition mode_of :: "scan_state \<Rightarrow> mode" where
  "mode_of st =
     (if sc_in_quotes st then if sc_quote_pending st then QuoteSeen else Quoted
      else if sc_at_field_start st then FieldStart else Unquoted)"

text \<open>
  \<open>holds mx pv a st\<close>: the buffer holds what is stored of the text \<open>a\<close>;
  \<open>scan_rel\<close>: the scanner, with the segment \<open>seg\<close> seen but not yet appended, is at the same
  point as the reference.
\<close>

definition holds :: "int \<Rightarrow> int \<Rightarrow> pystr \<Rightarrow> scan_state \<Rightarrow> bool" where
  "holds mx pv a st \<longleftrightarrow>
     concat (sc_parts st) = stored_text mx pv a \<and> sc_truncated st = (mx < len a)
     \<and> sc_stored_chars st = len (stored_text mx pv a)"

definition scan_rel :: "int \<Rightarrow> int \<Rightarrow> scan_state \<Rightarrow> pystr \<Rightarrow> split_state \<Rightarrow> bool" where
  "scan_rel mx pv st seg s \<longleftrightarrow>
     (\<exists>a. holds mx pv a st \<and> s = (mode_of st, a @ seg, sc_skip_lf_after_cr st)
        \<and> sc_record_chars st = len (a @ seg)
        \<and> (sc_in_quotes st \<longrightarrow> \<not> sc_at_field_start st)
        \<and> (\<not> sc_in_quotes st \<longrightarrow> \<not> sc_quote_pending st)
        \<and> (sc_skip_lf_after_cr st \<longrightarrow> seg = []))"

lemma append_piece_holds:
  assumes "holds mx pv a st" and "0 \<le> mx"
  shows "holds mx pv (a @ piece) (append_piece mx pv piece st)"
proof (cases "piece = [] \<or> sc_truncated st")
  case True
  with assms show ?thesis
    by (auto simp: holds_def append_piece_def stored_text_def)
next
  case False
  with assms(1) have a: "len a \<le> mx" "concat (sc_parts st) = a" "sc_stored_chars st = len a"
    by (auto simp: holds_def stored_text_def)
  show ?thesis
  proof (cases "len piece \<le> mx - len a")
    case True
    with False a show ?thesis
      by (auto simp: holds_def append_piece_def stored_text_def)
  next
    case gt: False
    have "concat (if mx - len a > 0 then sc_parts st @ [take (nat (mx - len a)) piece] else sc_parts st)
        = take (nat mx) (a @ piece)"
      using a assms(2) by (auto simp: nat_diff_distrib)
    with gt False a show ?thesis
      by (auto simp: holds_def append_piece_def stored_text_def Let_def
          simp del: length_take take_append concat_append)
  qed
qed

text \<open>A run of ordinary characters.\<close>

lemma next_mode_normal:
  "\<not> is_special c \<Longrightarrow> next_mode m c = Some (if m = Quoted then Quoted else Unquoted)"
  by (cases m) (auto simp: is_special_def unquoted_mode_def)

lemma split_run_normal:
  "list_all (\<lambda>c. \<not> is_special c) ns \<Longrightarrow> ns \<noteq> [] \<Longrightarrow>
     split_run (m, raw, skip) ns = ((if m = Quoted then Quoted else Unquoted, raw @ ns, False), [])"
proof (induction ns arbitrary: m raw skip)
  case (Cons c ns)
  then show ?case
    by (cases "ns = []") (auto simp: next_mode_normal is_special_def)
qed simp

lemma count_normal_fields [simp]:
  "sc_parts (count_normal n st) = sc_parts st"
  "sc_stored_chars (count_normal n st) = sc_stored_chars st"
  "sc_truncated (count_normal n st) = sc_truncated st"
  "sc_skip_lf_after_cr (count_normal n st) = sc_skip_lf_after_cr st"
  "sc_record_chars (count_normal n st) = sc_record_chars st + int n"
  by (auto simp: count_normal_def Let_def)

lemma mode_of_count_normal:
  "n \<noteq> 0 \<Longrightarrow> mode_of (count_normal n st) = (if mode_of st = Quoted then Quoted else Unquoted)"
  by (auto simp: count_normal_def mode_of_def Let_def)

lemma scan_rel_normal:
  assumes "scan_rel mx pv st seg s" and "list_all (\<lambda>c. \<not> is_special c) ns" and "ns \<noteq> []"
  shows "\<exists>s'. split_run s ns = (s', []) \<and>
    scan_rel mx pv (count_normal (length ns) (st\<lparr>sc_skip_lf_after_cr := False\<rparr>)) (seg @ ns) s'"
proof -
  from assms(1) obtain a where a: "holds mx pv a st" "s = (mode_of st, a @ seg, sc_skip_lf_after_cr st)"
    "sc_record_chars st = len (a @ seg)" "sc_in_quotes st \<longrightarrow> \<not> sc_at_field_start st"
    "\<not> sc_in_quotes st \<longrightarrow> \<not> sc_quote_pending st"
    by (auto simp: scan_rel_def)
  let ?st = "count_normal (length ns) (st\<lparr>sc_skip_lf_after_cr := False\<rparr>)"
  have m: "mode_of ?st = (if mode_of st = Quoted then Quoted else Unquoted)"
    using assms(3) by (subst mode_of_count_normal) (auto simp: mode_of_def)
  have "holds mx pv a ?st" using a(1) by (simp add: holds_def)
  moreover have "sc_in_quotes ?st \<longrightarrow> \<not> sc_at_field_start ?st"
    and "\<not> sc_in_quotes ?st \<longrightarrow> \<not> sc_quote_pending ?st"
    using a(4,5) assms(3) by (auto simp: count_normal_def Let_def)
  ultimately have "scan_rel mx pv ?st (seg @ ns) (mode_of ?st, a @ seg @ ns, False)"
    using a(3) unfolding scan_rel_def by (intro exI [of _ a]) auto
  then show ?thesis
    using split_run_normal [OF assms(2,3)] a(2) m by simp
qed

text \<open>A special character that is neither dropped nor preceded by ordinary ones.\<close>

lemma classify_special_fields:
  assumes "classify_special c st = (b, st')"
  shows "sc_parts st' = sc_parts st" "sc_stored_chars st' = sc_stored_chars st"
    "sc_truncated st' = sc_truncated st" "sc_record_chars st' = sc_record_chars st"
    "sc_skip_lf_after_cr st' = sc_skip_lf_after_cr st"
  using assms by (auto simp: classify_special_def classify_outside_def split: if_splits)

lemma classify_special_mode:
  assumes "classify_special c st = (b, st')" and "is_special c"
    and "sc_in_quotes st \<longrightarrow> \<not> sc_at_field_start st" and "\<not> sc_in_quotes st \<longrightarrow> \<not> sc_quote_pending st"
  shows "next_mode (mode_of st) c = (if b then None else Some (mode_of st'))"
    and "sc_in_quotes st' \<longrightarrow> \<not> sc_at_field_start st'"
    and "\<not> sc_in_quotes st' \<longrightarrow> \<not> sc_quote_pending st'"
  using assms
  by (auto simp: classify_special_def classify_outside_def mode_of_def is_special_def
      unquoted_mode_def char_defs split: if_splits)

lemma scan_rel_reset: "scan_rel mx pv (scan_init\<lparr>sc_skip_lf_after_cr := b\<rparr>) [] (FieldStart, [], b)"
  if "0 \<le> mx"
  using that unfolding scan_rel_def
  by (intro exI [of _ "[]"]) (auto simp: holds_def stored_text_def scan_init_def mode_of_def)

lemma scan_rel_special:
  assumes rel: "scan_rel mx pv st seg s" and c: "is_special c" and mx: "0 \<le> mx"
    and skip: "\<not> sc_skip_lf_after_cr st"
    and cl: "classify_special c (st\<lparr>sc_record_chars := sc_record_chars st + 1\<rparr>) = (b, st')"
  shows "if b
    then split_step c s = ((FieldStart, [], c = CR), [fst (snd s) @ [c]])
         \<and> record_of (append_piece mx pv (seg @ [c]) st') = make_record mx pv (fst (snd s) @ [c])
    else \<exists>s'. split_step c s = (s', []) \<and> scan_rel mx pv st' (seg @ [c]) s'"
proof -
  from rel skip obtain a where a: "holds mx pv a st" "s = (mode_of st, a @ seg, False)"
    "sc_record_chars st = len (a @ seg)" "sc_in_quotes st \<longrightarrow> \<not> sc_at_field_start st"
    "\<not> sc_in_quotes st \<longrightarrow> \<not> sc_quote_pending st"
    by (auto simp: scan_rel_def)
  have m: "mode_of (st\<lparr>sc_record_chars := sc_record_chars st + 1\<rparr>) = mode_of st"
    by (simp add: mode_of_def)
  note f = classify_special_fields [OF cl, simplified]
  have nm: "next_mode (mode_of st) c = (if b then None else Some (mode_of st'))"
    and i: "sc_in_quotes st' \<longrightarrow> \<not> sc_at_field_start st'"
    "\<not> sc_in_quotes st' \<longrightarrow> \<not> sc_quote_pending st'"
    using classify_special_mode [OF cl c] a(4,5) m by auto
  have h: "holds mx pv a st'" using a(1) f by (simp add: holds_def)
  show ?thesis
  proof (cases b)
    case True
    have "holds mx pv (a @ seg @ [c]) (append_piece mx pv (seg @ [c]) st')"
      using append_piece_holds [OF h mx, of "seg @ [c]"] by simp
    moreover have "sc_record_chars (append_piece mx pv (seg @ [c]) st') = len (a @ seg @ [c])"
      using f a(3) by (auto simp: append_piece_def Let_def)
    ultimately have "record_of (append_piece mx pv (seg @ [c]) st') = make_record mx pv (a @ seg @ [c])"
      by (auto simp: record_of_def make_record_def holds_def)
    with True nm a(2) show ?thesis by simp
  next
    case False
    have "scan_rel mx pv st' (seg @ [c]) (mode_of st', a @ seg @ [c], False)"
      using h i f a(3) skip unfolding scan_rel_def by (intro exI [of _ a]) auto
    with False nm a(2) show ?thesis by simp
  qed
qed

text \<open>One match, and then all the matches of a chunk.\<close>

lemma slice_simps [simp]:
  "slice a a xs = []"
  "length (slice a b xs) = min (b - a) (length xs - a)"
  by (auto simp: slice_def)

lemma slice_append: "a \<le> b \<Longrightarrow> b \<le> c \<Longrightarrow> slice a b xs @ slice b c xs = slice a c xs"
proof -
  assume "a \<le> b" "b \<le> c"
  then have "take (c - a) (drop a xs) = take (b - a) (drop a xs) @ take (c - b) (drop (b - a) (drop a xs))"
    by (metis add_diff_inverse_nat diff_add_assoc2 le_add_diff_inverse2 not_less take_add)
  then show ?thesis using \<open>a \<le> b\<close> by (simp add: slice_def)
qed

lemma slice_Suc: "i < length xs \<Longrightarrow> slice i (Suc i) xs = [xs ! i]"
  by (simp add: slice_def Cons_nth_drop_Suc [symmetric])

lemma slice_to_end: "slice a (length xs) xs = drop a xs"
  by (simp add: slice_def)

lemma slice_map: "slice a b xs = map (\<lambda>i. xs ! i) [a..<min b (length xs)]"
  by (rule nth_equalityI) (auto simp: slice_def nth_upt less_diff_conv add.commute min_def split: if_splits)

lemma split_step_no_lf: "c \<noteq> LF \<Longrightarrow> split_step c (m, raw, skip) = split_step c (m, raw, False)"
  by simp

lemma scan_match_rel:
  assumes rel: "scan_rel mx pv st (slice seg cnt chunk) s" and mx: "0 \<le> mx"
    and pos: "seg \<le> cnt" "cnt \<le> i" "i < length chunk"
    and normal: "list_all (\<lambda>c. \<not> is_special c) (slice cnt i chunk)" and special: "is_special (chunk ! i)"
    and run: "scan_match mx pv chunk i (st, seg, cnt) = ((st', seg', cnt'), recs)"
  shows "\<exists>s' out. split_run s (slice cnt (Suc i) chunk) = (s', out) \<and> recs = map (make_record mx pv) out
    \<and> scan_rel mx pv st' (slice seg' cnt' chunk) s' \<and> cnt' = Suc i \<and> seg' \<le> cnt'"
proof -
  let ?c = "chunk ! i" and ?seg = "slice seg cnt chunk" and ?ns = "slice cnt i chunk"
  have split: "slice cnt (Suc i) chunk = ?ns @ [?c]"
    using slice_append [of cnt i "Suc i" chunk] pos by (simp add: slice_Suc)
  have segs: "?seg @ ?ns = slice seg i chunk" "slice seg i chunk @ [?c] = slice seg (Suc i) chunk"
    using slice_append [of seg cnt i chunk] slice_append [of seg i "Suc i" chunk] pos
    by (auto simp: slice_Suc)
  from rel obtain a where s: "s = (mode_of st, a @ ?seg, sc_skip_lf_after_cr st)"
    and skip: "sc_skip_lf_after_cr st \<longrightarrow> seg = cnt"
    using pos unfolding scan_rel_def by (auto simp: slice_def)
  show ?thesis
  proof (cases "sc_skip_lf_after_cr st \<and> i = seg \<and> ?c = LF")
    case True
    then have "cnt = i" using skip by simp
    with True run split have r: "st' = st\<lparr>sc_skip_lf_after_cr := False\<rparr>" "seg' = Suc i" "cnt' = Suc i"
      "recs = []" "slice cnt (Suc i) chunk = [?c]"
      by (auto simp: scan_match_def Let_def)
    moreover have "scan_rel mx pv (st\<lparr>sc_skip_lf_after_cr := False\<rparr>) [] (mode_of st, a @ ?seg, False)"
      using rel True \<open>cnt = i\<close> s unfolding scan_rel_def by (auto simp: holds_def mode_of_def)
    moreover have "split_step ?c s = ((mode_of st, a @ ?seg, False), [])"
      using s True by auto
    ultimately show ?thesis by simp
  next
    case noskip: False
    let ?st1 = "count_normal (i - cnt) (st\<lparr>sc_skip_lf_after_cr := False\<rparr>)"
    obtain b st2 where cl: "classify_special ?c (?st1\<lparr>sc_record_chars := sc_record_chars ?st1 + 1\<rparr>) = (b, st2)"
      by fastforce
    obtain s1 s0 where s1: "split_run s ?ns = (s1, [])" "split_step ?c s1 = split_step ?c s0"
      "fst (snd s1) = fst (snd s0)" and rel0: "scan_rel mx pv ?st1 (slice seg i chunk) s0"
    proof (cases "cnt = i")
      case False
      then have ns: "?ns \<noteq> []" "length ?ns = i - cnt" using pos by (auto simp: slice_def)
      obtain s0 where s0: "split_run s ?ns = (s0, [])" "scan_rel mx pv ?st1 (slice seg i chunk) s0"
        using scan_rel_normal [OF rel normal ns(1)] unfolding segs(1) ns(2) by blast
      show ?thesis using that [OF s0(1) refl refl s0(2)] .
    next
      case True
      then have "sc_skip_lf_after_cr st \<longrightarrow> ?c \<noteq> LF" using noskip skip by blast
      then have "split_step ?c s = split_step ?c (mode_of st, a @ ?seg, False)"
        using s by auto
      moreover have "scan_rel mx pv ?st1 (slice seg i chunk) (mode_of st, a @ ?seg, False)"
        using rel True s unfolding scan_rel_def by (auto simp: count_normal_def holds_def mode_of_def)
      moreover have "split_run s ?ns = (s, [])" "fst (snd s) = fst (snd (mode_of st, a @ ?seg, False))"
        using True s by simp_all
      ultimately show ?thesis by (rule_tac that) assumption+
    qed
    have sp: "if b
      then split_step ?c s0 = ((FieldStart, [], ?c = CR), [fst (snd s0) @ [?c]])
           \<and> record_of (append_piece mx pv (slice seg (Suc i) chunk) st2) = make_record mx pv (fst (snd s0) @ [?c])
      else \<exists>s'. split_step ?c s0 = (s', []) \<and> scan_rel mx pv st2 (slice seg (Suc i) chunk) s'"
      using scan_rel_special [OF rel0 special mx _ cl] unfolding segs(2) by simp
    have run2: "split_run s (slice cnt (Suc i) chunk) = split_step ?c s0"
      using s1 by (simp add: split split_run_append split: prod.splits)
    show ?thesis
    proof (cases b)
      case True
      have "scan_rel mx pv (scan_init\<lparr>sc_skip_lf_after_cr := (?c = CR)\<rparr>) [] (FieldStart, [], ?c = CR)"
        by (rule scan_rel_reset [OF mx])
      with True run noskip cl sp run2 show ?thesis
        by (auto simp: scan_match_def Let_def)
    next
      case False
      with run noskip cl sp run2 pos show ?thesis
        by (auto simp: scan_match_def Let_def)
    qed
  qed
qed

lemma special_positions_step:
  assumes "filter (\<lambda>i. is_special (chunk ! i)) [cnt..<length chunk] = i # rest"
  shows "cnt \<le> i" "i < length chunk" "is_special (chunk ! i)"
    "list_all (\<lambda>c. \<not> is_special c) (slice cnt i chunk)"
    "rest = filter (\<lambda>i. is_special (chunk ! i)) [Suc i..<length chunk]"
proof -
  let ?P = "\<lambda>i. is_special (chunk ! i)"
  obtain us vs where sp: "[cnt..<length chunk] = us @ i # vs" "\<forall>u \<in> set us. \<not> ?P u" "?P i"
    "rest = filter ?P vs"
    using assms by (auto simp: filter_eq_Cons_iff)
  then have "i \<in> set [cnt..<length chunk]" by simp
  then show i: "cnt \<le> i" "i < length chunk" by auto
  show "?P i" by (rule sp(3))
  have "[cnt..<length chunk] = [cnt..<i] @ i # [Suc i..<length chunk]"
    using i by (metis upt_add_eq_append le_add_diff_inverse less_imp_le_nat upt_conv_Cons)
  then have "us = [cnt..<i]" "vs = [Suc i..<length chunk]"
    using sp(1) by (metis append_Cons_eq_iff distinct_upt not_distinct_conv_prefix
        atLeastLessThan_iff less_irrefl not_less_eq_eq order_refl set_upt Suc_n_not_le_n)+
  with sp show "rest = filter ?P [Suc i..<length chunk]" by simp
  show "list_all (\<lambda>c. \<not> is_special c) (slice cnt i chunk)"
    using sp(2) \<open>us = [cnt..<i]\<close> i by (auto simp: slice_map list.pred_set min_def)
qed

lemma scan_matches_rel:
  assumes "scan_rel mx pv st (slice seg cnt chunk) s" and "0 \<le> mx"
    and "seg \<le> cnt" "cnt \<le> length chunk"
    and "scan_matches mx pv chunk (filter (\<lambda>i. is_special (chunk ! i)) [cnt..<length chunk]) (st, seg, cnt)
         = ((st', seg', cnt'), recs)"
  shows "\<exists>s' out. split_run s (slice cnt cnt' chunk) = (s', out) \<and> recs = map (make_record mx pv) out
    \<and> scan_rel mx pv st' (slice seg' cnt' chunk) s' \<and> seg' \<le> cnt' \<and> cnt \<le> cnt' \<and> cnt' \<le> length chunk
    \<and> list_all (\<lambda>c. \<not> is_special c) (drop cnt' chunk)"
  using assms
proof (induction "filter (\<lambda>i. is_special (chunk ! i)) [cnt..<length chunk]" arbitrary: st seg cnt s recs)
  case Nil
  then have eqs: "st' = st" "seg' = seg" "cnt' = cnt" "recs = []"
    by auto
  have none: "\<forall>i \<in> set [cnt..<length chunk]. \<not> is_special (chunk ! i)"
    using Nil.hyps [symmetric] unfolding filter_empty_conv .
  have "list_all (\<lambda>c. \<not> is_special c) (slice cnt (length chunk) chunk)"
    using none by (auto simp: slice_map list.pred_set)
  with eqs Nil show ?case by (auto simp: slice_to_end)
next
  case (Cons i rest)
  note step = special_positions_step [OF Cons.hyps(2) [symmetric]]
  obtain st1 seg1 cnt1 recs1 where one: "scan_match mx pv chunk i (st, seg, cnt) = ((st1, seg1, cnt1), recs1)"
    by (metis prod_cases3 surj_pair)
  obtain s1 out1 where s1: "split_run s (slice cnt (Suc i) chunk) = (s1, out1)"
    "recs1 = map (make_record mx pv) out1" "scan_rel mx pv st1 (slice seg1 cnt1 chunk) s1"
    "cnt1 = Suc i" "seg1 \<le> cnt1"
    using scan_match_rel [OF Cons.prems(1-3) step(1,2,4,3) one] by blast
  obtain recs2 where two: "scan_matches mx pv chunk
      (filter (\<lambda>i. is_special (chunk ! i)) [cnt1..<length chunk]) (st1, seg1, cnt1) = ((st', seg', cnt'), recs2)"
    "recs = recs1 @ recs2"
    using Cons.prems(5) Cons.hyps(2) [symmetric] one step(5) s1(4) by (auto split: prod.splits)
  obtain s' out2 where s2: "split_run s1 (slice cnt1 cnt' chunk) = (s', out2)"
    "recs2 = map (make_record mx pv) out2" "scan_rel mx pv st' (slice seg' cnt' chunk) s'"
    "seg' \<le> cnt'" "cnt1 \<le> cnt'" "cnt' \<le> length chunk" "list_all (\<lambda>c. \<not> is_special c) (drop cnt' chunk)"
    using Cons.hyps(1) [of cnt1 st1 seg1 s1 recs2] step(2,5) s1 Cons.prems(2) two(1) by auto
  have "slice cnt cnt' chunk = slice cnt (Suc i) chunk @ slice cnt1 cnt' chunk"
    using slice_append [of cnt "Suc i" cnt' chunk] step s1(4) s2(5) by simp
  with s1 s2 two(2) step show ?case
    by (auto simp: split_run_append)
qed

lemma scan_chunk_rel:
  assumes rel: "scan_rel mx pv st [] s" and mx: "0 \<le> mx"
    and run: "scan_chunk mx pv chunk st = (st', recs)"
  shows "\<exists>s' out. split_run s chunk = (s', out) \<and> recs = map (make_record mx pv) out
    \<and> scan_rel mx pv st' [] s'"
proof -
  obtain st1 seg cnt where m: "scan_matches mx pv chunk
      (filter (\<lambda>i. is_special (chunk ! i)) [0..<length chunk]) (st, 0, 0) = ((st1, seg, cnt), recs)"
    using run by (auto simp: scan_chunk_def Let_def split: prod.splits)
  obtain s1 out where s1: "split_run s (slice 0 cnt chunk) = (s1, out)" "recs = map (make_record mx pv) out"
    "scan_rel mx pv st1 (slice seg cnt chunk) s1" "seg \<le> cnt" "cnt \<le> length chunk"
    "list_all (\<lambda>c. \<not> is_special c) (drop cnt chunk)"
    using scan_matches_rel [OF _ mx _ _ m, of s] rel by force
  let ?n = "length chunk - cnt"
  let ?st2 = "if ?n \<noteq> 0 then count_normal ?n (st1\<lparr>sc_skip_lf_after_cr := False\<rparr>) else st1"
  have st': "st' = append_piece mx pv (drop seg chunk) ?st2"
    using run m by (auto simp: scan_chunk_def Let_def split: if_splits)
  have seg: "slice seg cnt chunk @ drop cnt chunk = drop seg chunk"
    using slice_append [of seg cnt "length chunk" chunk] s1(4,5) by (simp add: slice_to_end)
  have chunk: "chunk = slice 0 cnt chunk @ drop cnt chunk"
    by (simp add: slice_def)
  have "\<exists>s2. split_run s1 (drop cnt chunk) = (s2, []) \<and> scan_rel mx pv ?st2 (drop seg chunk) s2"
  proof (cases "?n = 0")
    case True
    with s1 seg show ?thesis by simp
  next
    case False
    with scan_rel_normal [OF s1(3,6)] seg show ?thesis by auto
  qed
  then obtain s2 where s2: "split_run s1 (drop cnt chunk) = (s2, [])" "scan_rel mx pv ?st2 (drop seg chunk) s2"
    by blast
  have "scan_rel mx pv st' [] s2"
  proof -
    from s2(2) obtain a where a: "holds mx pv a ?st2"
      "s2 = (mode_of ?st2, a @ drop seg chunk, sc_skip_lf_after_cr ?st2)"
      "sc_record_chars ?st2 = len (a @ drop seg chunk)"
      "sc_in_quotes ?st2 \<longrightarrow> \<not> sc_at_field_start ?st2" "\<not> sc_in_quotes ?st2 \<longrightarrow> \<not> sc_quote_pending ?st2"
      unfolding scan_rel_def by blast
    have same: "mode_of st' = mode_of ?st2" "sc_skip_lf_after_cr st' = sc_skip_lf_after_cr ?st2"
      "sc_record_chars st' = sc_record_chars ?st2" "sc_in_quotes st' = sc_in_quotes ?st2"
      "sc_quote_pending st' = sc_quote_pending ?st2" "sc_at_field_start st' = sc_at_field_start ?st2"
      unfolding st' by (auto simp: append_piece_def Let_def mode_of_def)
    show ?thesis
      unfolding scan_rel_def
      using append_piece_holds [OF a(1) mx, of "drop seg chunk"] a same
      by (intro exI [of _ "a @ drop seg chunk"]) (simp add: st')
  qed
  moreover have "split_run s chunk = (s2, out)"
    by (subst chunk) (simp add: split_run_append s1(1) s2(1))
  ultimately show ?thesis using s1(2) by blast
qed

lemma scan_finish_rel:
  assumes "scan_rel mx pv st [] s"
  shows "yielded (scan_finish st) = map (make_record mx pv) (split_rest s)"
  using assms
  by (auto simp: scan_rel_def scan_finish_def split_rest_def record_of_def make_record_def holds_def)

lemma scan_events_rel:
  assumes "scan_rel mx pv st [] s" and "0 \<le> mx" and "[] \<notin> set chunks"
    and "split_run s (concat chunks) = (s', out)"
  shows "yielded (scan_events mx pv st chunks) = map (make_record mx pv) (out @ split_rest s')"
  using assms
proof (induction chunks arbitrary: st s out)
  case Nil
  then show ?case by (simp add: scan_finish_rel)
next
  case (Cons chunk chunks)
  obtain st1 recs where c: "scan_chunk mx pv chunk st = (st1, recs)" by fastforce
  obtain s1 out1 where s1: "split_run s chunk = (s1, out1)" "recs = map (make_record mx pv) out1"
    "scan_rel mx pv st1 [] s1"
    using scan_chunk_rel [OF Cons.prems(1,2) c] by blast
  obtain out2 where s2: "split_run s1 (concat chunks) = (s', out2)" "out = out1 @ out2"
    using Cons.prems(4) s1(1) by (auto simp: split_run_append split: prod.splits)
  show ?case
    using Cons.IH [OF s1(3) Cons.prems(2) _ s2(1)] Cons.prems(3) c s1(2) s2(2)
    by (auto simp del: map_map)
qed

lemma iter_logical_records_split:
  assumes "0 \<le> mx" and "[] \<notin> set chunks"
  shows "yielded (iter_logical_records mx pv chunks) = map (make_record mx pv) (split_text (concat chunks))"
proof -
  obtain s' out where s: "split_run (FieldStart, [], False) (concat chunks) = (s', out)" by fastforce
  have "scan_rel mx pv scan_init [] (FieldStart, [], False)"
    using scan_rel_reset [OF assms(1), of pv False] by (simp add: scan_init_def)
  from scan_events_rel [OF this assms s] s show ?thesis
    by (simp add: iter_logical_records_def split_text_def)
qed

subsection \<open>What the records are\<close>

text \<open>
  A record's text is a body that never leaves the record, followed by the character that ends it,
  unless the text ends first.
\<close>

fun mode_run :: "mode \<Rightarrow> pystr \<Rightarrow> mode option" where
  "mode_run m [] = Some m"
| "mode_run m (c # cs) = (case next_mode m c of None \<Rightarrow> None | Some m' \<Rightarrow> mode_run m' cs)"

lemma mode_run_snoc:
  "mode_run m (cs @ [c]) = (case mode_run m cs of None \<Rightarrow> None | Some m' \<Rightarrow> next_mode m' c)"
  by (induction cs arbitrary: m) (auto split: option.splits)

definition complete_record :: "pystr \<Rightarrow> bool" where
  "complete_record t \<longleftrightarrow>
     (\<exists>body c m. t = body @ [c] \<and> mode_run FieldStart body = Some m \<and> next_mode m c = None)"

definition open_record :: "pystr \<Rightarrow> bool" where
  "open_record t \<longleftrightarrow> t \<noteq> [] \<and> mode_run FieldStart t \<noteq> None"

definition split_inv :: "split_state \<Rightarrow> bool" where
  "split_inv s \<longleftrightarrow> mode_run FieldStart (fst (snd s)) = Some (fst s)"

lemma split_step_inv:
  assumes "split_inv s" and "split_step c s = (s', out)"
  shows "split_inv s' \<and> list_all complete_record out"
proof -
  obtain m raw skip where s: "s = (m, raw, skip)" by (metis prod_cases3)
  with assms show ?thesis
    by (fastforce simp: split_inv_def complete_record_def mode_run_snoc split: if_splits option.splits)
qed

lemma split_run_inv:
  "split_inv s \<Longrightarrow> split_run s cs = (s', out) \<Longrightarrow> split_inv s' \<and> list_all complete_record out"
proof (induction cs arbitrary: s out)
  case (Cons c cs)
  obtain s1 out1 where s1: "split_step c s = (s1, out1)" by fastforce
  obtain out2 where s2: "split_run s1 cs = (s', out2)" "out = out1 @ out2"
    using Cons.prems(2) s1 by (auto split: prod.splits)
  show ?case
    using split_step_inv [OF Cons.prems(1) s1] Cons.IH [OF _ s2(1)] s2(2) by simp
qed simp

lemma split_text_records:
  "t \<in> set (split_text text) \<Longrightarrow> complete_record t \<or> open_record t"
proof -
  assume t: "t \<in> set (split_text text)"
  obtain s out where s: "split_run (FieldStart, [], False) text = (s, out)" by fastforce
  have "split_inv s \<and> list_all complete_record out"
    by (rule split_run_inv [OF _ s]) (simp add: split_inv_def)
  with t s show ?thesis
    by (auto simp: split_text_def split_rest_def open_record_def split_inv_def list.pred_set split: if_splits)
qed

text \<open>
  Put together, the records are the text: \<open>cuts records text\<close> says that the records follow one another in
  the text with nothing between them, but for one line feed directly after a record that ends in a carriage
  return, which belongs to no record.
\<close>

fun cuts :: "pystr list \<Rightarrow> pystr \<Rightarrow> bool" where
  "cuts [] text \<longleftrightarrow> text = []"
| "cuts (raw # raws) text \<longleftrightarrow> raw \<noteq> [] \<and> take (length raw) text = raw
     \<and> (let rest = drop (length raw) text
         in cuts raws (if last raw = CR \<and> take 1 rest = [LF] then tl rest else rest))"

lemma split_run_cuts:
  "split_run (m, raw, skip) cs = (s', out) \<Longrightarrow> (skip \<longrightarrow> raw = []) \<Longrightarrow>
     cuts (out @ split_rest s') (raw @ (if skip \<and> take 1 cs = [LF] then tl cs else cs))"
proof (induction cs arbitrary: m raw skip out)
  case Nil
  then show ?case by (auto simp: split_rest_def)
next
  case (Cons c cs)
  show ?case
  proof (cases "skip \<and> c = LF")
    case True
    then have "split_run (m, raw, False) cs = (s', out)" using Cons.prems(1) by (auto split: prod.splits)
    from Cons.IH [OF this] True show ?thesis by simp
  next
    case False
    show ?thesis
    proof (cases "next_mode m c")
      case None
      then obtain out2 where run: "split_run (FieldStart, [], c = CR) cs = (s', out2)" "out = (raw @ [c]) # out2"
        using Cons.prems(1) False by (auto split: prod.splits)
      from Cons.IH [OF run(1)] False run(2) show ?thesis by (auto simp: Let_def)
    next
      case (Some m')
      then have "split_run (m', raw @ [c], False) cs = (s', out)"
        using Cons.prems(1) False by (auto split: prod.splits)
      from Cons.IH [OF this] False show ?thesis by auto
    qed
  qed
qed

lemma split_text_cuts: "cuts (split_text text) text"
proof -
  obtain s out where s: "split_run (FieldStart, [], False) text = (s, out)" by fastforce
  from split_run_cuts [OF s] show ?thesis by (simp add: split_text_def s)
qed

text \<open>What a record stores is bounded by the record limit and, once truncated, by the preview.\<close>

lemma stored_text_length:
  "0 \<le> mx \<Longrightarrow> len (stored_text mx pv raw) \<le> mx"
  "mx < len raw \<Longrightarrow> 0 \<le> pv \<Longrightarrow> len (stored_text mx pv raw) \<le> pv"
  by (auto simp: stored_text_def)

end
