(* ===== verification/CsvReader.thy ===== *)
theory CsvReader
  imports CsvRecords
begin

text \<open>
  Python's \<open>csv.reader\<close> with \<open>delimiter=","\<close> and \<open>strict=True\<close> over an \<open>io.StringIO(text,
  newline="")\<close>, and \<open>_parse_record\<close> of \<open>app/services/csv_validation.py\<close>, which runs it on the
  text of one logical record. The main result is that the reader and the splitter of
  \<open>CsvRecords\<close> agree on where a record ends, and that quoted rows are read back.
\<close>

subsection \<open>The reader of the standard library\<close>

datatype csv_state = START_RECORD | START_FIELD | IN_FIELD | IN_QUOTED_FIELD | QUOTE_IN_QUOTED_FIELD
  | EAT_CRNL

datatype csv_error = FieldLimit | DelimiterExpected | NewlineInUnquoted | UnexpectedEnd

record csv_reader =
  r_state :: csv_state
  r_field :: pystr
  r_fields :: "pystr list"

definition reader_reset :: csv_reader where
  "reader_reset = \<lparr>r_state = START_RECORD, r_field = [], r_fields = []\<rparr>"

definition save_field :: "csv_state \<Rightarrow> csv_reader \<Rightarrow> csv_reader" where
  "save_field state r = r\<lparr>r_state := state, r_field := [], r_fields := r_fields r @ [r_field r]\<rparr>"

definition add_char :: "int \<Rightarrow> csv_state \<Rightarrow> int \<Rightarrow> csv_reader \<Rightarrow> csv_error + csv_reader" where
  "add_char limit state c r =
     (if len (r_field r) \<ge> limit then Inl FieldLimit
      else Inr (r\<lparr>r_state := state, r_field := r_field r @ [c]\<rparr>))"

text \<open>\<open>None\<close> stands for the end-of-line mark the reader feeds after each line.\<close>

definition is_newline :: "int option \<Rightarrow> bool" where
  "is_newline c \<longleftrightarrow> c = Some LF \<or> c = Some CR"

definition after_line :: "int option \<Rightarrow> csv_state" where
  "after_line c = (if c = None then START_RECORD else EAT_CRNL)"

definition start_field_char :: "int \<Rightarrow> int option \<Rightarrow> csv_reader \<Rightarrow> csv_error + csv_reader" where
  "start_field_char limit c r =
     (if is_newline c \<or> c = None then Inr (save_field (after_line c) r)
      else if c = Some DQUOTE then Inr (r\<lparr>r_state := IN_QUOTED_FIELD\<rparr>)
      else if c = Some COMMA then Inr (save_field START_FIELD r)
      else add_char limit IN_FIELD (the c) r)"

definition process_char :: "int \<Rightarrow> int option \<Rightarrow> csv_reader \<Rightarrow> csv_error + csv_reader" where
  "process_char limit c r =
     (case r_state r of
        START_RECORD \<Rightarrow>
          if c = None then Inr r
          else if is_newline c then Inr (r\<lparr>r_state := EAT_CRNL\<rparr>)
          else start_field_char limit c (r\<lparr>r_state := START_FIELD\<rparr>)
      | START_FIELD \<Rightarrow> start_field_char limit c r
      | IN_FIELD \<Rightarrow>
          if is_newline c \<or> c = None then Inr (save_field (after_line c) r)
          else if c = Some COMMA then Inr (save_field START_FIELD r)
          else add_char limit IN_FIELD (the c) r
      | IN_QUOTED_FIELD \<Rightarrow>
          if c = None then Inr r
          else if c = Some DQUOTE then Inr (r\<lparr>r_state := QUOTE_IN_QUOTED_FIELD\<rparr>)
          else add_char limit IN_QUOTED_FIELD (the c) r
      | QUOTE_IN_QUOTED_FIELD \<Rightarrow>
          if c = Some DQUOTE then add_char limit IN_QUOTED_FIELD DQUOTE r
          else if c = Some COMMA then Inr (save_field START_FIELD r)
          else if is_newline c \<or> c = None then Inr (save_field (after_line c) r)
          else Inl DelimiterExpected
      | EAT_CRNL \<Rightarrow>
          if is_newline c then Inr r
          else if c = None then Inr (r\<lparr>r_state := START_RECORD\<rparr>)
          else Inl NewlineInUnquoted)"

fun process_chars :: "int \<Rightarrow> int option list \<Rightarrow> csv_reader \<Rightarrow> csv_error + csv_reader" where
  "process_chars limit [] r = Inr r"
| "process_chars limit (c # cs) r =
     (case process_char limit c r of Inl e \<Rightarrow> Inl e | Inr r' \<Rightarrow> process_chars limit cs r')"

text \<open>The lines of \<open>io.StringIO(text, newline="")\<close>: every newline convention ends a line and is kept.\<close>

fun text_lines :: "pystr \<Rightarrow> pystr \<Rightarrow> pystr list" where
  "text_lines cur [] = (if cur = [] then [] else [cur])"
| "text_lines cur [c] = [cur @ [c]]"
| "text_lines cur (c # d # cs) =
     (if c = LF then (cur @ [c]) # text_lines [] (d # cs)
      else if c = CR \<and> d = LF then (cur @ [c, d]) # text_lines [] cs
      else if c = CR then (cur @ [c]) # text_lines [] (d # cs)
      else text_lines (cur @ [c]) (d # cs))"

text \<open>\<open>next(reader)\<close>: the row or the end or an error, with the lines left.\<close>

datatype csv_next = Row "pystr list" | StopIteration | CsvError csv_error

fun reader_lines :: "int \<Rightarrow> csv_reader \<Rightarrow> pystr list \<Rightarrow> csv_next \<times> pystr list" where
  "reader_lines limit r [] =
     (if r_field r \<noteq> [] \<or> r_state r = IN_QUOTED_FIELD then CsvError UnexpectedEnd else StopIteration, [])"
| "reader_lines limit r (line # lines) =
     (case process_chars limit (map Some line @ [None]) r of
        Inl e \<Rightarrow> (CsvError e, lines)
      | Inr r' \<Rightarrow> if r_state r' = START_RECORD then (Row (r_fields r'), lines)
                 else reader_lines limit r' lines)"

definition reader_next :: "int \<Rightarrow> pystr list \<Rightarrow> csv_next \<times> pystr list" where
  "reader_next limit lines = reader_lines limit reader_reset lines"

subsection \<open>\<open>_parse_record\<close>\<close>

definition parse_record ::
  "logical_record \<Rightarrow> int option \<Rightarrow> int \<Rightarrow> int \<Rightarrow> int \<Rightarrow> pystr list option \<times> validation_issue option" where
  "parse_record rec line_number max_field_chars error_raw_value_chars error_raw_total_chars =
     (let malformed = malformed_csv_issue (case line_number of Some n \<Rightarrow> n | None \<Rightarrow> 1) in
      case reader_next max_field_chars (text_lines [] (l_text rec)) of
        (CsvError e, _) \<Rightarrow>
          if e = FieldLimit then
            (None, Some (field_too_large_issue line_number (l_text rec) max_field_chars
                           error_raw_value_chars error_raw_total_chars))
          else (None, Some malformed)
      | (first, rest) \<Rightarrow>
          let row = (case first of Row fs \<Rightarrow> fs | _ \<Rightarrow> []) in
          (case reader_next max_field_chars rest of
             (StopIteration, _) \<Rightarrow> (Some row, None)
           | _ \<Rightarrow> (None, Some malformed)))"

lemma parse_record_some:
  "parse_record rec ln mf vl tot = (Some row, i) \<Longrightarrow> i = None"
  by (auto simp: parse_record_def Let_def split: prod.splits csv_next.splits if_splits)

lemma parse_record_none:
  "parse_record rec ln mf vl tot = (None, i) \<Longrightarrow> i \<noteq> None"
  by (auto simp: parse_record_def Let_def split: prod.splits csv_next.splits if_splits)

subsection \<open>The reader follows the splitter\<close>

text \<open>The reader's state in a mode of the splitter.\<close>

fun in_mode :: "mode \<Rightarrow> csv_reader \<Rightarrow> bool" where
  "in_mode FieldStart r \<longleftrightarrow> (r_state r = START_RECORD \<and> r_fields r = [] \<or> r_state r = START_FIELD) \<and> r_field r = []"
| "in_mode Unquoted r \<longleftrightarrow> r_state r = IN_FIELD"
| "in_mode Quoted r \<longleftrightarrow> r_state r = IN_QUOTED_FIELD"
| "in_mode QuoteSeen r \<longleftrightarrow> r_state r = QUOTE_IN_QUOTED_FIELD"

lemma process_char_mode:
  assumes "in_mode m r" and "next_mode m c = Some m'" and "process_char limit (Some c) r = Inr r'"
  shows "in_mode m' r'"
  using assms
  by (cases m) (auto simp: process_char_def start_field_char_def unquoted_mode_def is_newline_def
      add_char_def save_field_def after_line_def char_defs split: if_splits)

text \<open>At the end of a record the reader only waits for the end of the line.\<close>

lemma process_char_boundary:
  assumes "in_mode m r" and "next_mode m c = None"
  shows "\<exists>r'. process_char limit (Some c) r = Inr r' \<and> r_state r' = EAT_CRNL \<and> r_field r' = []"
  using assms
  by (cases m) (auto simp: process_char_def start_field_char_def unquoted_mode_def is_newline_def
      save_field_def after_line_def char_defs split: if_splits)

lemma process_eol_eat: "r_state r = EAT_CRNL \<Longrightarrow> process_char limit None r = Inr (r\<lparr>r_state := START_RECORD\<rparr>)"
  by (simp add: process_char_def is_newline_def)

lemma process_eol_quoted: "r_state r = IN_QUOTED_FIELD \<Longrightarrow> process_char limit None r = Inr r"
  by (simp add: process_char_def)

lemma process_eol_open:
  "in_mode m r \<Longrightarrow> m \<noteq> Quoted \<Longrightarrow>
     \<exists>r'. process_char limit None r = Inr r' \<and> r_state r' = START_RECORD \<and> r_field r' = []"
  by (cases m) (auto simp: process_char_def start_field_char_def is_newline_def save_field_def after_line_def)

lemma process_chars_append:
  "process_chars limit (cs @ ds) r =
     (case process_chars limit cs r of Inl e \<Rightarrow> Inl e | Inr r' \<Rightarrow> process_chars limit ds r')"
  by (induction cs arbitrary: r) (auto split: sum.splits)

text \<open>
  What is left of a record: either it never ends (\<open>mode_run\<close>), or its last character ends it.
\<close>

definition rest_ok :: "mode \<Rightarrow> pystr \<Rightarrow> bool" where
  "rest_ok m cs \<longleftrightarrow> mode_run m cs \<noteq> None
     \<or> (\<exists>body c m'. cs = body @ [c] \<and> mode_run m body = Some m' \<and> next_mode m' c = None)"

lemma rest_ok_Cons:
  "rest_ok m (c # cs) \<longleftrightarrow>
     (case next_mode m c of None \<Rightarrow> cs = [] | Some m' \<Rightarrow> rest_ok m' cs)"
proof (cases "next_mode m c")
  case None
  then show ?thesis
    by (auto simp: rest_ok_def Cons_eq_append_conv)
next
  case (Some m')
  then show ?thesis
    by (auto simp: rest_ok_def Cons_eq_append_conv split: option.splits)
qed

lemma next_mode_newline: "c = LF \<or> c = CR \<Longrightarrow> next_mode m c = (if m = Quoted then Some Quoted else None)"
  by (cases m) (auto simp: unquoted_mode_def char_defs)

lemma next_mode_None: "next_mode m c = None \<Longrightarrow> c = LF \<or> c = CR"
  by (cases m) (auto simp: unquoted_mode_def split: if_splits)

text \<open>
  The result of reading a text in one go, without the line structure: the reader is run over the
  characters and one end-of-line mark.
\<close>

definition flat_result :: "int \<Rightarrow> pystr \<Rightarrow> csv_reader \<Rightarrow> csv_next" where
  "flat_result limit cs r =
     (case process_chars limit (map Some cs @ [None]) r of
        Inl e \<Rightarrow> CsvError e
      | Inr r' \<Rightarrow> if r_state r' = START_RECORD then Row (r_fields r') else CsvError UnexpectedEnd)"

text \<open>\<open>reads res x\<close>: the call ended with \<open>x\<close> and, unless it raised, left no line.\<close>

definition reads :: "csv_next \<times> pystr list \<Rightarrow> csv_next \<Rightarrow> bool" where
  "reads res x \<longleftrightarrow> fst res = x \<and> ((\<forall>e. x \<noteq> CsvError e) \<longrightarrow> snd res = [])"

lemma flat_result_Nil:
  "flat_result limit [] r = (case process_char limit None r of
     Inl e \<Rightarrow> CsvError e
   | Inr r' \<Rightarrow> if r_state r' = START_RECORD then Row (r_fields r') else CsvError UnexpectedEnd)"
  by (auto simp: flat_result_def split: sum.splits)

lemma flat_result_Cons:
  "flat_result limit (c # cs) r = (case process_char limit (Some c) r of
     Inl e \<Rightarrow> CsvError e | Inr r' \<Rightarrow> flat_result limit cs r')"
  by (auto simp: flat_result_def split: sum.splits)

lemma process_char_error: "in_mode m r \<Longrightarrow> process_char limit c r = Inl e \<Longrightarrow> e \<noteq> NewlineInUnquoted"
  by (cases m) (auto simp: process_char_def start_field_char_def add_char_def split: if_splits)

lemma text_lines_first:
  "cur \<noteq> [] \<or> cs \<noteq> [] \<Longrightarrow> \<exists>ys ls. text_lines cur cs = (cur @ ys) # ls"
proof (induction cur cs rule: text_lines.induct)
  case (3 cur c d cs)
  then show ?case by (cases "c = LF"; cases "c = CR"; cases "d = LF") auto
qed auto

lemma reader_lines_error:
  "process_chars limit (map Some cur) r0 = Inl e \<Longrightarrow>
     \<exists>rest. reader_lines limit r0 (text_lines cur cs) = (CsvError e, rest)"
proof -
  assume e: "process_chars limit (map Some cur) r0 = Inl e"
  then have "cur \<noteq> []" by auto
  then obtain ys ls where "text_lines cur cs = (cur @ ys) # ls"
    using text_lines_first by blast
  with e show ?thesis by (simp add: process_chars_append)
qed

text \<open>The last line of a record, with the reader before its end-of-line mark.\<close>

lemma reader_last_line:
  assumes "process_chars limit (map Some line) r0 = Inr r" and "in_mode m r \<or> r_state r = EAT_CRNL"
  shows "reads (reader_lines limit r0 [line]) (flat_result limit [] r)"
proof (cases "r_state r = EAT_CRNL")
  case True
  then show ?thesis
    using assms(1) by (simp add: process_chars_append process_eol_eat reads_def flat_result_Nil)
next
  case False
  with assms(2) have m: "in_mode m r" by blast
  show ?thesis
  proof (cases "m = Quoted")
    case True
    with m assms(1) show ?thesis
      by (simp add: process_chars_append process_eol_quoted reads_def flat_result_Nil)
  next
    case False
    obtain r' where "process_char limit None r = Inr r'" "r_state r' = START_RECORD"
      using process_eol_open [OF m False] by blast
    with assms(1) show ?thesis
      by (simp add: process_chars_append reads_def flat_result_Nil)
  qed
qed

text \<open>A line that ends inside a quoted field: the reader goes on with the next line.\<close>

lemma reader_quoted_line:
  assumes "process_chars limit (map Some line) r0 = Inr r" and "r_state r = IN_QUOTED_FIELD"
  shows "reader_lines limit r0 (line # lines) = reader_lines limit r lines"
  using assms by (simp add: process_chars_append process_eol_quoted)

lemma process_chars_step:
  assumes "process_chars limit (map Some cur) r0 = Inr r" and "process_char limit (Some c) r = x"
  shows "process_chars limit (map Some (cur @ [c])) r0 = x"
  using assms by (auto simp: process_chars_append split: sum.splits)

lemma reader_lines_flat:
  assumes "process_chars limit (map Some cur) r0 = Inr r" and "in_mode m r" and "rest_ok m cs"
    and "cur \<noteq> [] \<or> cs \<noteq> [] \<or> m = Quoted"
  shows "reads (reader_lines limit r0 (text_lines cur cs)) (flat_result limit cs r)"
  using assms
proof (induction cur cs arbitrary: r0 r m rule: text_lines.induct)
  case (1 cur)
  show ?case
  proof (cases "cur = []")
    case True
    with 1 show ?thesis by (simp add: reads_def flat_result_Nil process_eol_quoted)
  next
    case False
    have "reads (reader_lines limit r0 [cur]) (flat_result limit [] r)"
      by (rule reader_last_line [OF "1.prems"(1) disjI1 [OF "1.prems"(2)]])
    with False show ?thesis by simp
  qed
next
  case (2 cur c)
  show ?case
  proof (cases "process_char limit (Some c) r")
    case (Inl e)
    then have "process_chars limit (map Some (cur @ [c])) r0 = Inl e"
      using process_chars_step [OF "2.prems"(1)] by blast
    then obtain rest where "reader_lines limit r0 (text_lines (cur @ [c]) []) = (CsvError e, rest)"
      using reader_lines_error by blast
    then show ?thesis by (simp add: reads_def flat_result_Cons Inl)
  next
    case (Inr r')
    have "in_mode m' r' \<or> r_state r' = EAT_CRNL" if "next_mode m c = Some m'" for m'
      using process_char_mode [OF "2.prems"(2) that Inr] by blast
    moreover have "r_state r' = EAT_CRNL" if "next_mode m c = None"
      using process_char_boundary [OF "2.prems"(2) that, of limit] Inr by auto
    ultimately obtain m' where "in_mode m' r' \<or> r_state r' = EAT_CRNL"
      by (cases "next_mode m c") blast+
    then have "reads (reader_lines limit r0 [cur @ [c]]) (flat_result limit [] r')"
      by (rule reader_last_line [OF process_chars_step [OF "2.prems"(1) Inr]])
    then show ?thesis by (simp only: text_lines.simps flat_result_Cons Inr sum.case)
  qed
next
  case (3 cur c d cs)
  from "3.prems"(3) obtain m' where m': "next_mode m c = Some m'" "rest_ok m' (d # cs)"
    by (auto simp: rest_ok_Cons [of m] split: option.splits)
  show ?case
  proof (cases "process_char limit (Some c) r")
    case (Inl e)
    then have "process_chars limit (map Some (cur @ [c])) r0 = Inl e"
      using process_chars_step [OF "3.prems"(1)] by blast
    then have "\<exists>rest. reader_lines limit r0 (text_lines cur (c # d # cs)) = (CsvError e, rest)"
      using reader_lines_error [of limit "cur @ [c]" r0 e] text_lines_first [of "cur @ [c]" "d # cs"]
      by (auto simp: process_chars_append split: sum.splits)
    then show ?thesis by (auto simp: reads_def flat_result_Cons Inl)
  next
    case (Inr r1)
    have r1: "in_mode m' r1" by (rule process_char_mode [OF "3.prems"(2) m'(1) Inr])
    have cur1: "process_chars limit (map Some (cur @ [c])) r0 = Inr r1"
      by (rule process_chars_step [OF "3.prems"(1) Inr])
    have flat: "flat_result limit (c # d # cs) r = flat_result limit (d # cs) r1"
      by (simp add: flat_result_Cons [of _ c] Inr)
    show ?thesis
    proof (cases "c = LF \<or> c = CR")
      case False
      then show ?thesis using "3.IH"(4) [OF _ _ _ cur1 r1 m'(2)] flat by auto
    next
      case True
      then have quoted: "m = Quoted" "m' = Quoted"
        using m'(1) next_mode_newline [OF True, of m] by (auto split: if_splits)
      have st1: "r_state r1 = IN_QUOTED_FIELD" using r1 quoted by simp
      show ?thesis
      proof (cases "c = CR \<and> d = LF")
        case False
        then have "text_lines cur (c # d # cs) = (cur @ [c]) # text_lines [] (d # cs)"
          using True by auto
        moreover have "reads (reader_lines limit r1 (text_lines [] (d # cs))) (flat_result limit (d # cs) r1)"
          using "3.IH"(1,3) [of r1 r1 m'] True False r1 m'(2) by auto
        ultimately show ?thesis
          using reader_quoted_line [OF cur1 st1] flat by simp
      next
        case crlf: True
        then have lines: "text_lines cur (c # d # cs) = (cur @ [c, d]) # text_lines [] cs"
          by (auto simp: char_defs)
        have d: "next_mode m' d = Some Quoted" "rest_ok Quoted cs"
          using m'(2) crlf quoted next_mode_newline [of d m'] by (auto simp: rest_ok_Cons)
        show ?thesis
        proof (cases "process_char limit (Some d) r1")
          case (Inl e)
          have "process_chars limit (map Some (cur @ [c, d])) r0 = Inl e"
            using process_chars_step [OF cur1 Inl] by simp
          then obtain rest where "reader_lines limit r0 (text_lines cur (c # d # cs)) = (CsvError e, rest)"
            unfolding lines by (auto simp: process_chars_append split: sum.splits)
          moreover have "flat_result limit (c # d # cs) r = CsvError e"
            unfolding flat by (simp add: flat_result_Cons Inl)
          ultimately show ?thesis unfolding reads_def by simp
        next
          case (Inr r2)
          have r2: "in_mode Quoted r2" by (rule process_char_mode [OF r1 d(1) Inr])
          have "process_chars limit (map Some (cur @ [c, d])) r0 = Inr r2"
            using process_chars_step [OF cur1 Inr] by simp
          moreover have "reads (reader_lines limit r2 (text_lines [] cs)) (flat_result limit cs r2)"
            using "3.IH"(2) [of r2 r2 Quoted] crlf r2 d(2) by (auto simp: char_defs)
          ultimately show ?thesis
            using reader_quoted_line [of limit "cur @ [c, d]" r0 r2] r2
            unfolding lines flat by (simp add: flat_result_Cons Inr)
        qed
      qed
    qed
  qed
qed

lemma in_mode_reset: "in_mode FieldStart reader_reset"
  by (simp add: reader_reset_def)

lemma record_rest_ok: "complete_record t \<or> open_record t \<Longrightarrow> rest_ok FieldStart t \<and> t \<noteq> []"
  by (auto simp: complete_record_def open_record_def rest_ok_def)

lemma reader_next_record:
  assumes "complete_record t \<or> open_record t"
  shows "reads (reader_next limit (text_lines [] t)) (flat_result limit t reader_reset)"
  using reader_lines_flat [of limit "[]" reader_reset reader_reset FieldStart t] in_mode_reset
    record_rest_ok [OF assms] by (simp add: reader_next_def)

text \<open>
  On the text of a logical record \<open>_parse_record\<close> never finds a second row: its verdict is that of
  the first \<open>next(reader)\<close>, and the error of a newline in an unquoted field cannot happen.
\<close>

lemma flat_result_error:
  assumes "in_mode m r" and "rest_ok m cs" and "flat_result limit cs r = CsvError e"
  shows "e \<noteq> NewlineInUnquoted"
  using assms
proof (induction cs arbitrary: m r)
  case Nil
  then show ?case
    using process_char_error [OF Nil.prems(1)]
    by (auto simp: flat_result_Nil split: sum.splits if_splits)
next
  case (Cons c cs)
  show ?case
  proof (cases "process_char limit (Some c) r")
    case (Inl e')
    with Cons.prems process_char_error [OF Cons.prems(1) Inl] show ?thesis
      by (simp add: flat_result_Cons)
  next
    case (Inr r')
    show ?thesis
    proof (cases "next_mode m c")
      case None
      then have "cs = []" "r_state r' = EAT_CRNL"
        using Cons.prems(2) process_char_boundary [OF Cons.prems(1) None, of limit] Inr
        by (auto simp: rest_ok_Cons)
      with Cons.prems(3) Inr show ?thesis
        by (auto simp: flat_result_Cons flat_result_Nil process_eol_eat)
    next
      case (Some m')
      with Cons.IH [OF process_char_mode [OF Cons.prems(1) Some Inr]] Cons.prems(2,3) Inr show ?thesis
        by (simp add: rest_ok_Cons flat_result_Cons)
    qed
  qed
qed

lemma flat_result_no_stop: "flat_result limit cs r \<noteq> StopIteration"
  by (auto simp: flat_result_def split: sum.splits)

lemma parse_record_flat:
  assumes "complete_record (l_text rec) \<or> open_record (l_text rec)"
  shows "parse_record rec ln mf vl tot =
    (case flat_result mf (l_text rec) reader_reset of
       Row fs \<Rightarrow> (Some fs, None)
     | CsvError e \<Rightarrow>
         (None, Some (if e = FieldLimit then field_too_large_issue ln (l_text rec) mf vl tot
                      else malformed_csv_issue (case ln of Some n \<Rightarrow> n | None \<Rightarrow> 1)))
     | StopIteration \<Rightarrow> (None, None))"
proof -
  obtain res rest where r: "reader_next mf (text_lines [] (l_text rec)) = (res, rest)" by fastforce
  have rd: "res = flat_result mf (l_text rec) reader_reset" "(\<forall>e. res \<noteq> CsvError e) \<longrightarrow> rest = []"
    using reader_next_record [OF assms, of mf] r by (auto simp: reads_def)
  have "reader_next mf [] = (StopIteration, [])"
    by (simp add: reader_next_def reader_reset_def)
  then show ?thesis
    using r rd flat_result_no_stop [of mf "l_text rec" reader_reset]
    by (cases "flat_result mf (l_text rec) reader_reset") (auto simp: parse_record_def Let_def)
qed

subsection \<open>Quoted rows are read back\<close>

text \<open>A writer that quotes every field, doubling the quotes inside.\<close>

definition quote_field :: "pystr \<Rightarrow> pystr" where
  "quote_field f = DQUOTE # concat (map (\<lambda>c. if c = DQUOTE then [c, c] else [c]) f) @ [DQUOTE]"

fun render_fields :: "pystr list \<Rightarrow> pystr" where
  "render_fields [] = []"
| "render_fields [f] = quote_field f"
| "render_fields (f # fs) = quote_field f @ [COMMA] @ render_fields fs"

lemma quoted_body_run:
  "len fld + len f \<le> limit \<Longrightarrow>
   process_chars limit (map Some (concat (map (\<lambda>c. if c = DQUOTE then [c, c] else [c]) f)))
     \<lparr>r_state = IN_QUOTED_FIELD, r_field = fld, r_fields = fs\<rparr>
   = Inr \<lparr>r_state = IN_QUOTED_FIELD, r_field = fld @ f, r_fields = fs\<rparr>"
proof (induction f arbitrary: fld)
  case (Cons c f)
  then show ?case
    using Cons.IH [of "fld @ [c]"] by (auto simp: process_char_def add_char_def)
qed simp

lemma quote_field_run:
  assumes "len f \<le> limit" and "st = START_FIELD \<or> st = START_RECORD"
  shows "process_chars limit (map Some (quote_field f)) \<lparr>r_state = st, r_field = [], r_fields = fs\<rparr>
    = Inr \<lparr>r_state = QUOTE_IN_QUOTED_FIELD, r_field = f, r_fields = fs\<rparr>"
proof -
  have "process_char limit (Some DQUOTE) \<lparr>r_state = st, r_field = [], r_fields = fs\<rparr>
      = Inr \<lparr>r_state = IN_QUOTED_FIELD, r_field = [], r_fields = fs\<rparr>"
    using assms(2) by (auto simp: process_char_def start_field_char_def is_newline_def char_defs)
  moreover have "process_char limit (Some DQUOTE) \<lparr>r_state = IN_QUOTED_FIELD, r_field = f, r_fields = fs\<rparr>
      = Inr \<lparr>r_state = QUOTE_IN_QUOTED_FIELD, r_field = f, r_fields = fs\<rparr>"
    by (simp add: process_char_def)
  ultimately show ?thesis
    using quoted_body_run [of "[]" f limit fs] assms(1)
    by (simp add: quote_field_def process_chars_append)
qed

lemma render_fields_run:
  assumes "fs \<noteq> []" and "\<forall>f \<in> set fs. len f \<le> limit" and "st = START_FIELD \<or> st = START_RECORD"
  shows "process_chars limit (map Some (render_fields fs)) \<lparr>r_state = st, r_field = [], r_fields = gs\<rparr>
    = Inr \<lparr>r_state = QUOTE_IN_QUOTED_FIELD, r_field = last fs, r_fields = gs @ butlast fs\<rparr>"
  using assms
proof (induction fs arbitrary: st gs rule: render_fields.induct)
  case (2 f)
  then show ?case by (simp add: quote_field_run)
next
  case (3 f g fs)
  have "process_char limit (Some COMMA) \<lparr>r_state = QUOTE_IN_QUOTED_FIELD, r_field = f, r_fields = gs\<rparr>
      = Inr \<lparr>r_state = START_FIELD, r_field = [], r_fields = gs @ [f]\<rparr>"
    by (simp add: process_char_def save_field_def char_defs)
  with 3 show ?case
    by (simp add: process_chars_append quote_field_run)
qed simp

lemma flat_result_render:
  assumes "fs \<noteq> []" and "\<forall>f \<in> set fs. len f \<le> limit" and "e = [] \<or> e = [LF] \<or> e = [CR]"
  shows "flat_result limit (render_fields fs @ e) reader_reset = Row fs"
proof -
  let ?r = "\<lparr>r_state = QUOTE_IN_QUOTED_FIELD, r_field = last fs, r_fields = butlast fs\<rparr>"
  have "process_chars limit (map Some (render_fields fs)) reader_reset = Inr ?r"
    using render_fields_run [OF assms(1,2), of START_RECORD "[]"] by (simp add: reader_reset_def)
  moreover have "\<exists>st. process_chars limit (map Some e @ [None]) ?r
      = Inr \<lparr>r_state = START_RECORD, r_field = [], r_fields = fs\<rparr>"
    using assms(1,3)
    by (auto simp: process_char_def is_newline_def save_field_def after_line_def char_defs)
  ultimately show ?thesis
    by (auto simp: flat_result_def process_chars_append)
qed

text \<open>For the splitter a rendered row is one record.\<close>

lemma mode_run_append:
  "mode_run m (xs @ ys) = (case mode_run m xs of None \<Rightarrow> None | Some m' \<Rightarrow> mode_run m' ys)"
  by (induction xs arbitrary: m) (auto split: option.splits)

lemma quoted_body_mode:
  "mode_run Quoted (concat (map (\<lambda>c. if c = DQUOTE then [c, c] else [c]) f)) = Some Quoted"
  by (induction f) auto

lemma quote_field_mode: "mode_run FieldStart (quote_field f) = Some QuoteSeen"
  by (simp add: quote_field_def mode_run_append quoted_body_mode)

lemma render_fields_mode: "fs \<noteq> [] \<Longrightarrow> mode_run FieldStart (render_fields fs) = Some QuoteSeen"
proof (induction fs rule: render_fields.induct)
  case (3 f g fs)
  then show ?case
    by (simp add: mode_run_append quote_field_mode unquoted_mode_def char_defs)
qed (simp_all add: quote_field_mode)

end
