(* ===== verification/Utf8.thy ===== *)
theory Utf8
  imports Prelude "HOL-Library.Word"
begin

text \<open>
  From bytes to text: the raw-stream adapter \<open>ChunkIteratorIO\<close> of
  \<open>app/services/csv_validation.py\<close>, and the decoding and reading of
  \<open>io.TextIOWrapper(..., encoding="utf-8-sig", errors="surrogateescape", newline="")\<close>. The lemmas
  show that the adapter neither loses nor reorders bytes, that decoding inverts encoding, and
  that an escaped surrogate appears exactly when the bytes are not UTF-8.
\<close>

type_synonym byte = "8 word"
type_synonym bytes = "byte list"

subsection \<open>\<open>ChunkIteratorIO\<close>\<close>

text \<open>
  The adapter's state: the chunks not fetched yet, the current chunk and the offset in it, and
  how often \<open>_before_next_chunk\<close> has been called. \<open>io_fault k\<close> says that call number \<open>k\<close> raises
  \<open>LockConnectionLost\<close>.
\<close>

record chunk_io =
  io_chunks :: "bytes list"
  io_current :: bytes
  io_offset :: nat
  io_checks :: nat
  io_fault :: "nat \<Rightarrow> bool"

definition chunk_io_init :: "bytes list \<Rightarrow> (nat \<Rightarrow> bool) \<Rightarrow> chunk_io" where
  "chunk_io_init chunks fault =
     \<lparr>io_chunks = chunks, io_current = [], io_offset = 0, io_checks = 0, io_fault = fault\<rparr>"

text \<open>The \<open>while written < len(target)\<close> loop; \<open>sz\<close> is \<open>len(target)\<close>, \<open>out\<close> what is written.\<close>

function readinto_loop :: "nat \<Rightarrow> bytes \<Rightarrow> (chunk_io, bytes) action" where
  "readinto_loop sz out st =
     (if length out < sz then
        (if io_offset st \<ge> length (io_current st) then
           (if io_fault st (io_checks st) then (Inl LockConnectionLost, st\<lparr>io_checks := io_checks st + 1\<rparr>)
            else
              (case io_chunks st of
                 [] \<Rightarrow> (Inr out, st\<lparr>io_checks := io_checks st + 1\<rparr>)
               | chunk # chunks \<Rightarrow>
                   if chunk = [] then
                     readinto_loop sz out (st\<lparr>io_chunks := chunks, io_checks := io_checks st + 1\<rparr>)
                   else
                     readinto_loop sz (out @ take (sz - length out) chunk)
                       (st\<lparr>io_chunks := chunks, io_current := chunk,
                           io_offset := min (sz - length out) (length chunk),
                           io_checks := io_checks st + 1\<rparr>)))
         else
           readinto_loop sz (out @ take (sz - length out) (drop (io_offset st) (io_current st)))
             (st\<lparr>io_offset := io_offset st
                   + min (sz - length out) (length (io_current st) - io_offset st)\<rparr>))
      else (Inr out, st))"
  by pat_completeness auto
termination
  by (relation "measures [\<lambda>(sz, out, st). length (io_chunks st),
        \<lambda>(sz, out, st). sz - length out]") auto

declare readinto_loop.simps [simp del]

definition readinto :: "nat \<Rightarrow> (chunk_io, bytes) action" where
  "readinto sz = readinto_loop sz []"

text \<open>The bytes still to be delivered.\<close>

definition io_rest :: "chunk_io \<Rightarrow> bytes" where
  "io_rest st = drop (io_offset st) (io_current st) @ concat (io_chunks st)"

lemma take_drop_min:
  "drop p xs = take n (drop p xs) @ drop (p + min n (length xs - p)) xs"
proof (cases "n \<le> length xs - p")
  case True
  then have e: "drop (p + min n (length xs - p)) xs = drop n (drop p xs)"
    by (simp add: min_def add.commute)
  show ?thesis by (simp only: e append_take_drop_id)
qed (simp add: min_def)

lemma readinto_loop_spec:
  assumes "readinto_loop sz out st = (Inr res, st')" and "length out \<le> sz"
  shows "res @ io_rest st' = out @ io_rest st \<and> length res \<le> sz
    \<and> (length res < sz \<longrightarrow> io_rest st' = [])"
  using assms
proof (induction sz out st rule: readinto_loop.induct)
  case (1 sz out st)
  show ?case
  proof (cases "length out < sz")
    case False
    with "1.prems" show ?thesis by (simp add: readinto_loop.simps)
  next
    case small: True
    show ?thesis
    proof (cases "io_offset st \<ge> length (io_current st)")
      case False
      with small "1.prems"(1) have run: "readinto_loop sz
          (out @ take (sz - length out) (drop (io_offset st) (io_current st)))
          (st\<lparr>io_offset := io_offset st + min (sz - length out) (length (io_current st) - io_offset st)\<rparr>)
        = (Inr res, st')"
        by (simp add: readinto_loop.simps [of sz out st])
      have "io_rest st = take (sz - length out) (drop (io_offset st) (io_current st))
          @ io_rest (st\<lparr>io_offset := io_offset st + min (sz - length out) (length (io_current st) - io_offset st)\<rparr>)"
        using take_drop_min [of "io_offset st" "io_current st" "sz - length out"] by (simp add: io_rest_def)
      with "1.IH"(3) [OF small False run] small show ?thesis by auto
    next
      case fetched: True
      then have nofault: "\<not> io_fault st (io_checks st)"
        using small "1.prems"(1) by (auto simp: readinto_loop.simps [of sz out st])
      show ?thesis
      proof (cases "io_chunks st")
        case Nil
        with small fetched nofault "1.prems" show ?thesis
          by (auto simp: readinto_loop.simps [of sz out st] io_rest_def)
      next
        case (Cons chunk chunks)
        show ?thesis
        proof (cases "chunk = []")
          case True
          with small fetched nofault Cons "1.prems"(1) have run: "readinto_loop sz out
              (st\<lparr>io_chunks := chunks, io_checks := io_checks st + 1\<rparr>) = (Inr res, st')"
            by (simp add: readinto_loop.simps [of sz out st])
          from "1.IH"(1) [OF small fetched nofault Cons True run] "1.prems"(2) True Cons show ?thesis
            by (simp add: io_rest_def)
        next
          case False
          with small fetched nofault Cons "1.prems"(1) have run: "readinto_loop sz
              (out @ take (sz - length out) chunk)
              (st\<lparr>io_chunks := chunks, io_current := chunk,
                  io_offset := min (sz - length out) (length chunk),
                  io_checks := io_checks st + 1\<rparr>) = (Inr res, st')"
            by (simp add: readinto_loop.simps [of sz out st])
          have "chunk = take (sz - length out) chunk @ drop (min (sz - length out) (length chunk)) chunk"
            by (simp add: min_def)
          with "1.IH"(2) [OF small fetched nofault Cons False run] small fetched Cons show ?thesis
            by (auto simp: io_rest_def)
        qed
      qed
    qed
  qed
qed

lemma readinto_spec:
  assumes "readinto sz st = (Inr res, st')"
  shows "res @ io_rest st' = io_rest st" and "length res \<le> sz"
    and "length res < sz \<Longrightarrow> io_rest st' = []"
  using readinto_loop_spec [of sz "[]" st res st'] assms by (auto simp: readinto_def)

text \<open>Reading blocks of \<open>sz\<close> bytes until a read returns nothing, as \<open>io.BufferedReader\<close> does.\<close>

fun read_blocks :: "nat \<Rightarrow> nat \<Rightarrow> (chunk_io, bytes) action" where
  "read_blocks sz 0 st = (Inr [], st)"
| "read_blocks sz (Suc fuel) st =
     (case readinto sz st of
        (Inl e, st') \<Rightarrow> (Inl e, st')
      | (Inr block, st') \<Rightarrow>
          if block = [] then (Inr [], st')
          else (case read_blocks sz fuel st' of
                  (Inl e, st'') \<Rightarrow> (Inl e, st'')
                | (Inr rest, st'') \<Rightarrow> (Inr (block @ rest), st'')))"

text \<open>The number of remaining bytes is fuel enough: every block but the last holds a byte.\<close>

lemma read_blocks_all:
  "read_blocks sz fuel st = (Inr res, st') \<Longrightarrow> 0 < sz \<Longrightarrow> length (io_rest st) < fuel \<Longrightarrow>
     res = io_rest st \<and> io_rest st' = []"
proof (induction fuel arbitrary: st res)
  case (Suc fuel)
  obtain block st1 where b: "readinto sz st = (Inr block, st1)"
    using Suc.prems(1) by (auto split: prod.splits sum.splits)
  note spec = readinto_spec [OF b]
  show ?case
  proof (cases "block = []")
    case True
    with b spec Suc.prems(1,2) show ?thesis by auto
  next
    case False
    obtain rest where rest: "read_blocks sz fuel st1 = (Inr rest, st')" "res = block @ rest"
      using Suc.prems(1) b False by (auto split: prod.splits sum.splits)
    have "length (io_rest st) = length block + length (io_rest st1)"
      using spec(1) by (metis length_append)
    then have "length (io_rest st1) < fuel"
      using Suc.prems(3) False by (cases block) auto
    from Suc.IH [OF rest(1) Suc.prems(2) this] rest(2) spec(1) show ?thesis by simp
  qed
qed simp

lemma readinto_no_fault: "(\<forall>k. \<not> io_fault st k) \<Longrightarrow> \<exists>res st'. readinto_loop sz out st = (Inr res, st') \<and> (\<forall>k. \<not> io_fault st' k)"
proof (induction sz out st rule: readinto_loop.induct)
  case (1 sz out st)
  then show ?case
    by (subst readinto_loop.simps) (auto split: list.splits)
qed

lemma read_blocks_no_fault:
  "(\<forall>k. \<not> io_fault st k) \<Longrightarrow> \<exists>res st'. read_blocks sz fuel st = (Inr res, st')"
proof (induction fuel arbitrary: st)
  case (Suc fuel)
  obtain block st1 where b: "readinto sz st = (Inr block, st1)" "\<forall>k. \<not> io_fault st1 k"
    using readinto_no_fault [OF Suc.prems, of sz "[]"] by (auto simp: readinto_def)
  from Suc.IH [OF b(2)] obtain res st2 where "read_blocks sz fuel st1 = (Inr res, st2)" by blast
  with b(1) show ?case by simp
qed simp

subsection \<open>UTF-8 with \<open>surrogateescape\<close>\<close>

text \<open>
  \<open>utf8_char\<close> recognises one well-formed sequence at the head of the bytes and returns its code
  point and its length. A byte that starts no such sequence is escaped to \<open>0xDC00 + byte\<close>.
\<close>

definition is_cont :: "byte \<Rightarrow> bool" where
  "is_cont b \<longleftrightarrow> 128 \<le> uint b \<and> uint b < 192"

definition is_scalar :: "int \<Rightarrow> bool" where
  "is_scalar c \<longleftrightarrow> 0 \<le> c \<and> c \<le> 1114111 \<and> \<not> (55296 \<le> c \<and> c \<le> 57343)"

definition is_escape :: "int \<Rightarrow> bool" where
  "is_escape c \<longleftrightarrow> 56448 \<le> c \<and> c \<le> 56575"

fun utf8_char :: "bytes \<Rightarrow> (int \<times> nat) option" where
  "utf8_char [] = None"
| "utf8_char (b # rest) =
     (if uint b < 128 then Some (uint b, 1)
      else if uint b < 224 then
        (case rest of
           b1 # _ \<Rightarrow>
             (let c = (uint b - 192) * 64 + (uint b1 - 128) in
              if is_cont b1 \<and> 128 \<le> c then Some (c, 2) else None)
         | _ \<Rightarrow> None)
      else if uint b < 240 then
        (case rest of
           b1 # b2 # _ \<Rightarrow>
             (let c = (uint b - 224) * 4096 + (uint b1 - 128) * 64 + (uint b2 - 128) in
              if is_cont b1 \<and> is_cont b2 \<and> 2048 \<le> c \<and> is_scalar c then Some (c, 3) else None)
         | _ \<Rightarrow> None)
      else
        (case rest of
           b1 # b2 # b3 # _ \<Rightarrow>
             (let c = (uint b - 240) * 262144 + (uint b1 - 128) * 4096
                      + (uint b2 - 128) * 64 + (uint b3 - 128) in
              if is_cont b1 \<and> is_cont b2 \<and> is_cont b3 \<and> 65536 \<le> c \<and> is_scalar c
              then Some (c, 4) else None)
         | _ \<Rightarrow> None))"

lemma utf8_char_length: "utf8_char bs = Some (c, n) \<Longrightarrow> 0 < n \<and> n \<le> length bs"
  by (cases bs) (simp_all add: Let_def split: if_split_asm list.split_asm)

declare utf8_char.simps [simp del]

function decode_utf8 :: "bytes \<Rightarrow> pystr" where
  "decode_utf8 [] = []"
| "decode_utf8 (b # rest) =
     (case utf8_char (b # rest) of
        Some (c, n) \<Rightarrow> c # decode_utf8 (drop n (b # rest))
      | None \<Rightarrow> (56320 + uint b) # decode_utf8 rest)"
  by pat_completeness auto
termination
  by (relation "measure length") (auto dest: utf8_char_length)

text \<open>
  The codec \<open>utf-8-sig\<close> drops one byte order mark at the start. Fewer than three bytes that could
  begin a mark are never decoded, not even at the end of the input.
\<close>

definition BOM :: bytes where
  "BOM = [0xEF, 0xBB, 0xBF]"

definition decode_utf8_sig :: "bytes \<Rightarrow> pystr" where
  "decode_utf8_sig bs =
     (if bs = take 1 BOM \<or> bs = take 2 BOM then []
      else if take 3 bs = BOM then decode_utf8 (drop 3 bs)
      else decode_utf8 bs)"

text \<open>Encoding, with the escapes of \<open>surrogateescape\<close> turned back into their bytes.\<close>

definition byte_of :: "int \<Rightarrow> byte" where
  "byte_of k = word_of_int k"

definition encode_char :: "int \<Rightarrow> bytes" where
  "encode_char c =
     (if is_escape c then [byte_of (c - 56320)]
      else if c < 128 then [byte_of c]
      else if c < 2048 then [byte_of (192 + c div 64), byte_of (128 + c mod 64)]
      else if c < 65536 then
        [byte_of (224 + c div 4096), byte_of (128 + (c div 64) mod 64),
         byte_of (128 + c mod 64)]
      else
        [byte_of (240 + c div 262144), byte_of (128 + (c div 4096) mod 64),
         byte_of (128 + (c div 64) mod 64), byte_of (128 + c mod 64)])"

definition encode_utf8 :: "pystr \<Rightarrow> bytes" where
  "encode_utf8 text = concat (map encode_char text)"

lemma uint_byte_of [simp]: "0 \<le> k \<Longrightarrow> k < 256 \<Longrightarrow> uint (byte_of k) = k"
  by (simp add: byte_of_def uint_word_of_int)

lemma byte_bound: "0 \<le> uint (b :: byte)" "uint (b :: byte) < 256"
  using uint_bounded [of b] by simp_all

lemma byte_of_uint [simp]: "byte_of (uint b) = b"
  by (simp add: byte_of_def)

lemma digits_64:
  fixes k :: int
  assumes "c = k * 64 + j" "0 \<le> j" "j < 64"
  shows "c div 64 = k" and "c mod 64 = j"
  using assms by auto

lemma div_64:
  fixes c :: int
  shows "c div 4096 = c div 64 div 64" and "c div 262144 = c div 64 div 64 div 64"
  using zdiv_zmult2_eq [of 64 c 64] zdiv_zmult2_eq [of 64 c "64 * 64"] zdiv_zmult2_eq [of 64 "c div 64" 64]
  by simp_all

text \<open>The base-64 digits of a number.\<close>

lemma digits_of:
  fixes c :: int
  shows "c = c div 64 * 64 + c mod 64"
    and "c = c div 4096 * 4096 + c div 64 mod 64 * 64 + c mod 64"
    and "c = c div 262144 * 262144 + c div 4096 mod 64 * 4096 + c div 64 mod 64 * 64 + c mod 64"
proof -
  note d = div_mult_mod_eq [of c 64] div_mult_mod_eq [of "c div 64" 64]
    div_mult_mod_eq [of "c div 64 div 64" 64]
  show "c = c div 64 * 64 + c mod 64" using d(1) by linarith
  show "c = c div 4096 * 4096 + c div 64 mod 64 * 64 + c mod 64"
    unfolding div_64 using d(1,2) by linarith
  show "c = c div 262144 * 262144 + c div 4096 mod 64 * 4096 + c div 64 mod 64 * 64 + c mod 64"
    unfolding div_64 using d by linarith
qed

lemma digits_unique:
  fixes x0 :: int
  assumes "0 \<le> x0" "x0 < 64" "0 \<le> x1" "x1 < 64"
  shows "c = x2 * 4096 + x1 * 64 + x0 \<Longrightarrow>
      c div 4096 = x2 \<and> c div 64 mod 64 = x1 \<and> c mod 64 = x0"
    and "0 \<le> x2 \<Longrightarrow> x2 < 64 \<Longrightarrow> c = x3 * 262144 + x2 * 4096 + x1 * 64 + x0 \<Longrightarrow>
      c div 262144 = x3 \<and> c div 4096 mod 64 = x2 \<and> c div 64 mod 64 = x1 \<and> c mod 64 = x0"
proof -
  assume c: "c = x2 * 4096 + x1 * 64 + x0"
  then have "c div 64 = x2 * 64 + x1" "c mod 64 = x0"
    using digits_64 [of c "x2 * 64 + x1" x0] assms by auto
  then show "c div 4096 = x2 \<and> c div 64 mod 64 = x1 \<and> c mod 64 = x0"
    unfolding div_64 using digits_64 [of "c div 64" x2 x1] assms by blast
next
  assume x2: "0 \<le> x2" "x2 < 64" and c: "c = x3 * 262144 + x2 * 4096 + x1 * 64 + x0"
  then have 1: "c div 64 = x3 * 4096 + x2 * 64 + x1" "c mod 64 = x0"
    using digits_64 [of c "x3 * 4096 + x2 * 64 + x1" x0] assms by simp_all
  then have 2: "c div 64 div 64 = x3 * 64 + x2" "c div 64 mod 64 = x1"
    using digits_64 [of "c div 64" "x3 * 64 + x2" x1] assms by auto
  then show "c div 262144 = x3 \<and> c div 4096 mod 64 = x2 \<and> c div 64 mod 64 = x1 \<and> c mod 64 = x0"
    unfolding div_64 using digits_64 [of "c div 64 div 64" x3 x2] 1 2 x2 by simp
qed

lemma is_scalar_not_escape: "is_scalar c \<Longrightarrow> \<not> is_escape c"
  by (auto simp: is_scalar_def is_escape_def)

lemma encode_char_not_Nil [simp]: "encode_char c \<noteq> []"
  by (simp add: encode_char_def)

text \<open>Every scalar value's sequence is recognised, whatever follows it, and only those are.\<close>

lemma utf8_char_sequences:
  assumes "128 \<le> b1" "b1 < 192" "128 \<le> b2" "b2 < 192" "128 \<le> b3" "b3 < 192"
  shows "192 \<le> b \<Longrightarrow> b < 224 \<Longrightarrow> c = (b - 192) * 64 + (b1 - 128) \<Longrightarrow> 128 \<le> c \<Longrightarrow>
      utf8_char (byte_of b # byte_of b1 # rest) = Some (c, 2)"
    and "224 \<le> b \<Longrightarrow> b < 240 \<Longrightarrow> c = (b - 224) * 4096 + (b1 - 128) * 64 + (b2 - 128) \<Longrightarrow>
      2048 \<le> c \<Longrightarrow> is_scalar c \<Longrightarrow>
      utf8_char (byte_of b # byte_of b1 # byte_of b2 # rest) = Some (c, 3)"
    and "240 \<le> b \<Longrightarrow> b < 256 \<Longrightarrow>
      c = (b - 240) * 262144 + (b1 - 128) * 4096 + (b2 - 128) * 64 + (b3 - 128) \<Longrightarrow>
      65536 \<le> c \<Longrightarrow> is_scalar c \<Longrightarrow>
      utf8_char (byte_of b # byte_of b1 # byte_of b2 # byte_of b3 # rest) = Some (c, 4)"
  using assms by (simp_all add: utf8_char.simps is_cont_def Let_def)

lemma utf8_char_encode:
  assumes "is_scalar c"
  shows "utf8_char (encode_char c @ rest) = Some (c, length (encode_char c))"
proof -
  have e: "\<not> is_escape c" and b: "0 \<le> c" "c \<le> 1114111"
    using assms by (auto simp: is_scalar_not_escape is_scalar_def)
  have m: "128 \<le> 128 + k mod 64" "128 + k mod 64 < 192" for k :: int by simp_all
  note seq = utf8_char_sequences [OF m [of "c div 4096"] m [of "c div 64"] m [of c]]
    utf8_char_sequences [OF m [of "c div 64"] m [of c] m [of c]] utf8_char_sequences [OF m [of c] m [of c] m [of c]]
  consider "c < 128" | "128 \<le> c" "c < 2048" | "2048 \<le> c" "c < 65536" | "65536 \<le> c" by linarith
  then show ?thesis
  proof cases
    case 1
    with e b show ?thesis by (simp add: encode_char_def utf8_char.simps)
  next
    case 2
    then have "192 \<le> 192 + c div 64" "192 + c div 64 < 224" by auto
    moreover have "c = (192 + c div 64 - 192) * 64 + (128 + c mod 64 - 128)"
      using digits_of(1) [of c] by (simp only: add_diff_cancel_left')
    ultimately have "utf8_char (byte_of (192 + c div 64) # byte_of (128 + c mod 64) # rest) = Some (c, 2)"
      using 2 by (intro seq(7))
    with 2 e show ?thesis by (simp add: encode_char_def)
  next
    case 3
    then have "224 \<le> 224 + c div 4096" "224 + c div 4096 < 240" by auto
    moreover have "c = (224 + c div 4096 - 224) * 4096 + (128 + c div 64 mod 64 - 128) * 64 + (128 + c mod 64 - 128)"
      using digits_of(2) [of c] by (simp only: add_diff_cancel_left')
    ultimately have "utf8_char (byte_of (224 + c div 4096) # byte_of (128 + c div 64 mod 64)
        # byte_of (128 + c mod 64) # rest) = Some (c, 3)"
      using 3 assms by (intro seq(5))
    with 3 e show ?thesis by (simp add: encode_char_def)
  next
    case 4
    then have "240 \<le> 240 + c div 262144" "240 + c div 262144 < 256" using b by auto
    moreover have "c = (240 + c div 262144 - 240) * 262144 + (128 + c div 4096 mod 64 - 128) * 4096
        + (128 + c div 64 mod 64 - 128) * 64 + (128 + c mod 64 - 128)"
      using digits_of(3) [of c] by (simp only: add_diff_cancel_left')
    ultimately have "utf8_char (byte_of (240 + c div 262144) # byte_of (128 + c div 4096 mod 64)
        # byte_of (128 + c div 64 mod 64) # byte_of (128 + c mod 64) # rest) = Some (c, 4)"
      using 4 assms by (intro seq(3))
    with 4 e show ?thesis by (simp add: encode_char_def)
  qed
qed

lemma utf8_char_sound:
  assumes "utf8_char bs = Some (c, n)"
  shows "is_scalar c \<and> encode_char c = take n bs"
proof (cases bs)
  case (Cons b rest)
  consider "uint b < 128" | "128 \<le> uint b" "uint b < 224" | "224 \<le> uint b" "uint b < 240"
    | "240 \<le> uint b" by linarith
  then show ?thesis
  proof cases
    case 1
    with assms Cons show ?thesis
      by (auto simp: utf8_char.simps is_scalar_def encode_char_def is_escape_def byte_bound)
  next
    case 2
    then obtain b1 r where r: "rest = b1 # r" "is_cont b1"
        "c = (uint b - 192) * 64 + (uint b1 - 128)" "128 \<le> c" "n = 2"
      using assms Cons by (simp add: utf8_char.simps Let_def split: list.split_asm if_split_asm)
    then have "c div 64 = uint b - 192 \<and> c mod 64 = uint b1 - 128"
      using digits_64 [of c "uint b - 192" "uint b1 - 128"] by (simp add: is_cont_def)
    moreover have "c < 2048" using r 2 by (simp add: is_cont_def)
    ultimately show ?thesis using r Cons
      by (simp add: is_scalar_def encode_char_def is_escape_def)
  next
    case 3
    then obtain b1 b2 r where r: "rest = b1 # b2 # r" "is_cont b1" "is_cont b2"
        "c = (uint b - 224) * 4096 + (uint b1 - 128) * 64 + (uint b2 - 128)" "2048 \<le> c"
        "is_scalar c" "n = 3"
      using assms Cons by (simp add: utf8_char.simps Let_def split: list.split_asm if_split_asm)
    then have "c div 4096 = uint b - 224 \<and> c div 64 mod 64 = uint b1 - 128 \<and> c mod 64 = uint b2 - 128"
      by (intro digits_unique(1)) (auto simp: is_cont_def)
    moreover have "c < 65536" using r 3 by (simp add: is_cont_def)
    ultimately show ?thesis using r Cons
      by (simp add: encode_char_def is_scalar_not_escape)
  next
    case 4
    then obtain b1 b2 b3 r where r: "rest = b1 # b2 # b3 # r" "is_cont b1" "is_cont b2" "is_cont b3"
        "c = (uint b - 240) * 262144 + (uint b1 - 128) * 4096 + (uint b2 - 128) * 64
           + (uint b3 - 128)" "65536 \<le> c" "is_scalar c" "n = 4"
      using assms Cons by (simp add: utf8_char.simps Let_def split: list.split_asm if_split_asm)
    then have "c div 262144 = uint b - 240 \<and> c div 4096 mod 64 = uint b1 - 128
        \<and> c div 64 mod 64 = uint b2 - 128 \<and> c mod 64 = uint b3 - 128"
      by (intro digits_unique(2)) (auto simp: is_cont_def)
    with r Cons show ?thesis
      by (simp add: encode_char_def is_scalar_not_escape)
  qed
qed (use assms in \<open>simp add: utf8_char.simps\<close>)

lemma decode_utf8_encode_char:
  "is_scalar c \<Longrightarrow> decode_utf8 (encode_char c @ rest) = c # decode_utf8 rest"
  using utf8_char_encode [of c rest] by (cases "encode_char c @ rest") (auto, metis append_eq_conv_conj)

lemma decode_encode_utf8:
  "(\<forall>c\<in>set cs. is_scalar c) \<Longrightarrow> decode_utf8 (encode_utf8 cs) = cs"
  by (induction cs) (simp_all add: encode_utf8_def decode_utf8_encode_char)

lemma utf8_char_None_high: "utf8_char (b # rest) = None \<Longrightarrow> 128 \<le> uint b"
  by (auto simp: utf8_char.simps split: if_splits)

lemma encode_decode_utf8: "encode_utf8 (decode_utf8 bs) = bs"
proof (induction bs rule: decode_utf8.induct)
  case (2 b rest)
  show ?case
  proof (cases "utf8_char (b # rest)")
    case None
    then have "encode_char (56320 + uint b) = [b]"
      using utf8_char_None_high byte_bound [of b] by (auto simp: encode_char_def is_escape_def)
    with 2(1) None show ?thesis by (simp add: encode_utf8_def)
  next
    case (Some p)
    obtain c n where p: "p = (c, n)" by (cases p)
    have "encode_char c = take n (b # rest)"
      using utf8_char_sound Some p by blast
    moreover have "encode_utf8 (decode_utf8 (drop n (b # rest))) = drop n (b # rest)"
      using 2(2) Some p by simp
    ultimately show ?thesis using Some p by (simp add: encode_utf8_def)
  qed
qed (simp add: encode_utf8_def)

lemma decode_utf8_chars: "c \<in> set (decode_utf8 bs) \<Longrightarrow> is_scalar c \<or> is_escape c"
proof (induction bs rule: decode_utf8.induct)
  case (2 b rest)
  then show ?case
    using utf8_char_None_high [of b rest] byte_bound [of b]
    by (auto simp: is_escape_def dest: utf8_char_sound split: option.splits)
qed simp

lemma escape_iff_invalid:
  "(\<exists>c\<in>set (decode_utf8 bs). is_escape c) \<longleftrightarrow>
   (\<nexists>text. (\<forall>c\<in>set text. is_scalar c) \<and> bs = encode_utf8 text)"
  by (metis decode_encode_utf8 decode_utf8_chars encode_decode_utf8 is_scalar_not_escape)

subsection \<open>\<open>text_stream.read(n)\<close>\<close>

function text_pieces :: "nat \<Rightarrow> pystr \<Rightarrow> pystr list" where
  "text_pieces n text =
     (if text = [] \<or> n = 0 then [] else take n text # text_pieces n (drop n text))"
  by pat_completeness auto
termination
  by (relation "measure (\<lambda>(n, text). length text)") auto

declare text_pieces.simps [simp del]

lemma concat_text_pieces: "0 < n \<Longrightarrow> concat (text_pieces n t) = t"
  by (induction n t rule: text_pieces.induct) (simp add: text_pieces.simps)

lemma text_pieces_not_Nil: "[] \<notin> set (text_pieces n t)"
  by (induction n t rule: text_pieces.induct) (subst text_pieces.simps, auto)

end
