(* ===== verification/CsvValidation.thy ===== *)
theory CsvValidation
  imports CsvRows CsvReader Utf8
begin

text \<open>
  \<open>validate_csv_stream\<close> of \<open>app/services/csv_validation.py\<close>: the loop that pulls logical records from
  the text stream, parses and checks each one and hands rows and issues to the caller's
  callbacks. The callbacks are actions on the caller's state. The lemmas factor every run into
  a sequence of callback invocations that does not depend on their effects (\<open>csv_trace\<close>), and
  relate that sequence to the text of the file.
\<close>

record csv_limits =
  max_field_chars :: int
  max_record_chars :: int
  error_raw_value_chars :: int
  error_raw_total_chars :: int

definition default_limits :: csv_limits where
  "default_limits =
     \<lparr>max_field_chars = DEFAULT_MAX_FIELD_CHARS, max_record_chars = DEFAULT_MAX_RECORD_CHARS,
      error_raw_value_chars = DEFAULT_ERROR_RAW_VALUE_CHARS,
      error_raw_total_chars = DEFAULT_ERROR_RAW_TOTAL_CHARS\<rparr>"

record csv_summary =
  s_row_count :: int
  s_reached_eof :: bool

abbreviation summary :: "int \<Rightarrow> bool \<Rightarrow> csv_summary" where
  "summary n eof \<equiv> \<lparr>s_row_count = n, s_reached_eof = eof\<rparr>"

definition check_limits :: "csv_limits \<Rightarrow> exn + unit" where
  "check_limits lim =
     (if max_field_chars lim \<le> 0 \<or> max_record_chars lim < max_field_chars lim then Inl ValueErr
      else if error_raw_value_chars lim \<le> 0 \<or> error_raw_total_chars lim \<le> 0 then Inl ValueErr
      else Inr ())"

definition missing_header_issue :: validation_issue where
  "missing_header_issue =
     \<lparr>i_line_number = None, i_field_name = None, i_code = lit ''missing_header'',
      i_message = lit ''CSV header is missing'', i_raw_data = None\<rparr>"

definition no_data_rows_issue :: validation_issue where
  "no_data_rows_issue =
     \<lparr>i_line_number = None, i_field_name = None, i_code = lit ''no_data_rows'',
      i_message = lit ''CSV contains no data rows'', i_raw_data = None\<rparr>"

subsection \<open>The validation loop\<close>

text \<open>
  The caller's callbacks. \<open>cb_read\<close> is what one \<open>text_stream.read\<close> does besides delivering text:
  the calls of \<open>before_next_chunk\<close> and the reads of the underlying stream, each of which may raise.
\<close>

record 's callbacks =
  cb_read :: "('s, unit) action"
  cb_row :: "validated_row \<Rightarrow> ('s, unit) action"
  cb_issues :: "validation_issue list \<Rightarrow> ('s, unit) action"
  cb_close :: "('s, unit) action"

fun validate_records ::
  "'s callbacks \<Rightarrow> csv_limits \<Rightarrow> pystr list \<Rightarrow> nat pydict \<Rightarrow> int \<Rightarrow> int \<Rightarrow> gen_event list
     \<Rightarrow> ('s, csv_summary) action" where
  "validate_records cb lim header indexes logical_line_number row_count [] =
     then_act (if row_count = 0 then cb_issues cb [no_data_rows_issue] else ret ())
       (ret (summary row_count True))"
| "validate_records cb lim header indexes logical_line_number row_count (ReadChunk # es) =
     then_act (cb_read cb) (validate_records cb lim header indexes logical_line_number row_count es)"
| "validate_records cb lim header indexes logical_line_number row_count (Yield rec # es) =
     (let ln = logical_line_number + 1; rc = row_count + 1;
          continue = validate_records cb lim header indexes ln rc es in
      if l_truncated rec then
        then_act (cb_issues cb [record_too_large_issue (Some ln) rec (max_record_chars lim)
                                  (error_raw_value_chars lim) (error_raw_total_chars lim)])
          continue
      else
        (case parse_record rec (Some ln) (max_field_chars lim)
                (error_raw_value_chars lim) (error_raw_total_chars lim) of
           (_, Some issue) \<Rightarrow>
             then_act (cb_issues cb [issue])
               (if i_code issue = lit ''csv_field_too_large'' then continue else ret (summary rc False))
         | (None, None) \<Rightarrow> throw OtherErr
         | (Some row, None) \<Rightarrow>
             if contains_surrogate row then
               then_act (cb_issues cb [invalid_utf8_issue (Some ln)]) continue
             else
               bind_act (lift_res (validate_row row header indexes ln
                                     (error_raw_value_chars lim) (error_raw_total_chars lim)))
                 (\<lambda>(issues, validated_row).
                    then_act (if issues \<noteq> [] then cb_issues cb issues
                              else (case validated_row of Some r \<Rightarrow> cb_row cb r | None \<Rightarrow> ret ()))
                      continue)))"

fun validate_events ::
  "'s callbacks \<Rightarrow> csv_limits \<Rightarrow> gen_event list \<Rightarrow> ('s, csv_summary) action" where
  "validate_events cb lim [] = then_act (cb_issues cb [missing_header_issue]) (ret (summary 0 True))"
| "validate_events cb lim (ReadChunk # es) = then_act (cb_read cb) (validate_events cb lim es)"
| "validate_events cb lim (Yield rec # es) =
     (if l_truncated rec then
        then_act (cb_issues cb [record_too_large_issue None rec (max_record_chars lim)
                                  (error_raw_value_chars lim) (error_raw_total_chars lim)])
          (ret (summary 0 False))
      else
        (case parse_record rec None (max_field_chars lim)
                (error_raw_value_chars lim) (error_raw_total_chars lim) of
           (_, Some issue) \<Rightarrow> then_act (cb_issues cb [issue]) (ret (summary 0 False))
         | (None, None) \<Rightarrow> throw OtherErr
         | (Some header, None) \<Rightarrow>
             if contains_surrogate header then
               then_act (cb_issues cb [invalid_utf8_issue None]) (ret (summary 0 False))
             else
               (let header_issues = validate_header header
                      (error_raw_value_chars lim) (error_raw_total_chars lim) in
                if header_issues \<noteq> [] then
                  then_act (cb_issues cb header_issues) (ret (summary 0 False))
                else
                  bind_act (lift_res (column_indexes header))
                    (\<lambda>indexes. validate_records cb lim header indexes 1 0 es))))"

text \<open>
  \<open>validate_csv_text\<close> is the function after the text stream has been set up: \<open>chunks\<close> are the
  results of its \<open>text_stream.read(_TEXT_READ_CHARS)\<close> calls. \<open>stream_text\<close> is the text that the
  stack \<open>TextIOWrapper(BufferedReader(ChunkIteratorIO(chunks)))\<close> reads.
\<close>

definition TEXT_READ_CHARS :: int where "TEXT_READ_CHARS = 64 * 1024"
definition IO_BUFFER_SIZE :: int where "IO_BUFFER_SIZE = 8192"

definition validate_csv_text ::
  "'s callbacks \<Rightarrow> csv_limits \<Rightarrow> pystr list \<Rightarrow> ('s, csv_summary) action" where
  "validate_csv_text cb lim chunks =
     then_act (lift_res (check_limits lim))
       (finally_act
          (validate_events cb lim
             (iter_logical_records (max_record_chars lim) (error_raw_value_chars lim) chunks))
          (cb_close cb))"

definition stream_text :: "bytes list \<Rightarrow> pystr" where
  "stream_text chunks =
     (case read_blocks (nat IO_BUFFER_SIZE) (Suc (length (concat chunks)))
             (chunk_io_init chunks (\<lambda>_. False)) of
        (Inr bs, _) \<Rightarrow> decode_utf8_sig bs
      | (Inl e, _) \<Rightarrow> [])"

definition validate_csv_stream ::
  "'s callbacks \<Rightarrow> csv_limits \<Rightarrow> bytes list \<Rightarrow> ('s, csv_summary) action" where
  "validate_csv_stream cb lim chunks =
     validate_csv_text cb lim (text_pieces (nat TEXT_READ_CHARS) (stream_text chunks))"

subsection \<open>Traces of callback invocations\<close>

text \<open>
  Running the loop with callbacks that only record their invocation yields its trace; running it
  with any other callbacks is performing the trace, until an invocation raises.
\<close>

datatype csv_item = ReadText | Deliver validated_row | Report "validation_issue list"

definition log_item :: "csv_item \<Rightarrow> (csv_item list, unit) action" where
  "log_item i = (\<lambda>xs. (Inr (), xs @ [i]))"

definition recorder :: "csv_item list callbacks" where
  "recorder = \<lparr>cb_read = log_item ReadText, cb_row = (\<lambda>r. log_item (Deliver r)),
     cb_issues = (\<lambda>is. log_item (Report is)), cb_close = ret ()\<rparr>"

fun dispatch :: "'s callbacks \<Rightarrow> csv_item \<Rightarrow> ('s, unit) action" where
  "dispatch cb ReadText = cb_read cb"
| "dispatch cb (Deliver r) = cb_row cb r"
| "dispatch cb (Report is) = cb_issues cb is"

definition csv_trace :: "csv_limits \<Rightarrow> pystr list \<Rightarrow> (exn + csv_summary) \<times> csv_item list" where
  "csv_trace lim chunks = validate_csv_text recorder lim chunks []"

text \<open>\<open>traces m n cb\<close>: \<open>m\<close>, on a log, records what \<open>n\<close> does with the callbacks \<open>cb\<close>.\<close>

definition traces :: "(csv_item list, 'a) action \<Rightarrow> ('s, 'a) action \<Rightarrow> 's callbacks \<Rightarrow> bool" where
  "traces m n cb \<longleftrightarrow> (\<exists>r items. (\<forall>xs. m xs = (r, xs @ items))
     \<and> n = then_act (each_act (dispatch cb) items) (lift_res r))"

lemma traces_result:
  "traces (ret a) (ret a) cb" "traces (throw e) (throw e) cb" "traces (lift_res r) (lift_res r) cb"
  unfolding traces_def
  by (rule exI [of _ "Inr a"], rule exI [of _ "[]"], simp add: fun_eq_iff act_simps,
      rule exI [of _ "Inl e"], rule exI [of _ "[]"], simp add: fun_eq_iff act_simps,
      rule exI [of _ r], rule exI [of _ "[]"], simp add: fun_eq_iff act_simps)

lemma traces_item:
  assumes "traces m n cb"
  shows "traces (then_act (log_item i) m) (then_act (dispatch cb i) n) cb"
proof -
  obtain r items where m: "\<And>xs. m xs = (r, xs @ items)"
    and n: "n = then_act (each_act (dispatch cb) items) (lift_res r)"
    using assms unfolding traces_def by blast
  have "then_act (log_item i) m xs = (r, xs @ (i # items))" for xs
    by (simp add: act_simps log_item_def m)
  moreover have "then_act (dispatch cb i) n = then_act (each_act (dispatch cb) (i # items)) (lift_res r)"
    by (simp add: n fun_eq_iff act_simps split: prod.split sum.split)
  ultimately show ?thesis unfolding traces_def by blast
qed

lemma traces_skip: "traces m n cb \<Longrightarrow> traces (then_act (ret ()) m) (then_act (ret ()) n) cb"
  by (simp add: then_act_def bind_act_def ret_def)

lemma traces_lift:
  "(\<And>a. x = Inr a \<Longrightarrow> traces (f a) (g a) cb) \<Longrightarrow>
     traces (bind_act (lift_res x) f) (bind_act (lift_res x) g) cb"
  using traces_result(3) [of "Inl e" cb for e]
  by (cases x) (auto simp: bind_act_def lift_res_def)

lemmas traces_intros = traces_result traces_item traces_skip traces_lift

lemma recorder_simps [simp]:
  "cb_read recorder = log_item ReadText" "cb_row recorder r = log_item (Deliver r)"
  "cb_issues recorder is = log_item (Report is)" "cb_close recorder = ret ()"
  by (simp_all add: recorder_def)

lemma traces_callbacks:
  assumes "traces m n cb"
  shows "traces (then_act (cb_read recorder) m) (then_act (cb_read cb) n) cb"
    and "traces (then_act (cb_issues recorder is) m) (then_act (cb_issues cb is) n) cb"
    and "traces (then_act (cb_row recorder r) m) (then_act (cb_row cb r) n) cb"
  using traces_item [OF assms, of ReadText] traces_item [OF assms, of "Report is"]
    traces_item [OF assms, of "Deliver r"] by simp_all

lemma validate_records_traces:
  "traces (validate_records recorder lim header indexes ln rc es)
     (validate_records cb lim header indexes ln rc es) cb"
proof (induction cb lim header indexes ln rc es rule: validate_records.induct)
  case (1 cb lim header indexes ln rc)
  show ?case
    by (simp add: traces_skip traces_callbacks traces_result del: recorder_simps)
next
  case (2 cb lim header indexes ln rc es)
  then show ?case by (simp add: traces_callbacks del: recorder_simps)
next
  case (3 cb lim header indexes ln rc rec es)
  have row: "traces
      (then_act (if issues \<noteq> [] then cb_issues recorder issues
                 else (case v of Some r \<Rightarrow> cb_row recorder r | None \<Rightarrow> ret ()))
         (validate_records recorder lim header indexes (ln + 1) (rc + 1) es))
      (then_act (if issues \<noteq> [] then cb_issues cb issues
                 else (case v of Some r \<Rightarrow> cb_row cb r | None \<Rightarrow> ret ()))
         (validate_records cb lim header indexes (ln + 1) (rc + 1) es)) cb" for issues v
    using "3.IH"
    by (cases v) (auto simp: traces_skip traces_callbacks simp del: recorder_simps)
  show ?case
    using "3.IH" row
    by (auto simp: Let_def traces_callbacks traces_result intro!: traces_lift
        simp del: recorder_simps split: prod.split option.split)
qed

lemma validate_events_traces:
  "traces (validate_events recorder lim es) (validate_events cb lim es) cb"
proof (induction cb lim es rule: validate_events.induct)
  case (3 cb lim rec es)
  show ?case
    by (auto simp: Let_def traces_callbacks traces_result validate_records_traces intro!: traces_lift
        simp del: recorder_simps split: prod.split option.split)
qed (simp_all add: traces_callbacks traces_result del: recorder_simps)

lemma validate_csv_text_trace:
  assumes "csv_trace lim chunks = (r, items)" and "check_limits lim = Inr ()"
  shows "validate_csv_text cb lim chunks =
    finally_act (then_act (each_act (dispatch cb) items) (lift_res r)) (cb_close cb)"
proof -
  obtain r' items' where m: "\<And>xs. validate_events recorder lim
        (iter_logical_records (max_record_chars lim) (error_raw_value_chars lim) chunks) xs
      = (r', xs @ items')"
    and n: "validate_events cb lim
        (iter_logical_records (max_record_chars lim) (error_raw_value_chars lim) chunks)
      = then_act (each_act (dispatch cb) items') (lift_res r')"
    using validate_events_traces [of lim _ cb] unfolding traces_def by blast
  have "csv_trace lim chunks = (r', items')"
    using assms(2) m by (simp add: csv_trace_def validate_csv_text_def act_simps)
  with assms n show ?thesis
    by (simp add: validate_csv_text_def then_act_def bind_act_def lift_res_def)
qed

end
