(* ===== verification/CsvOutcome.thy ===== *)
theory CsvOutcome
  imports CsvValidation
begin

text \<open>
  What validation promises, as a function of the text of the file alone: \<open>csv_outcome\<close> says which
  rows are delivered and which issues are reported, in order, and how validation ends. The main
  lemma shows that the code computes this outcome however the text is cut into chunks; the
  others derive line numbers, completeness and the round trip from it.
\<close>

datatype verdict = Accepted validated_row | Rejected "validation_issue list"
  | Fatal validation_issue | Raises exn

definition stored_record :: "csv_limits \<Rightarrow> pystr \<Rightarrow> logical_record" where
  "stored_record lim raw = make_record (max_record_chars lim) (error_raw_value_chars lim) raw"

definition row_verdict :: "csv_limits \<Rightarrow> pystr list \<Rightarrow> int \<Rightarrow> pystr list \<Rightarrow> verdict" where
  "row_verdict lim header ln row =
     (case res_bind (column_indexes header) (\<lambda>indexes.
             validate_row row header indexes ln (error_raw_value_chars lim) (error_raw_total_chars lim)) of
        Inl e \<Rightarrow> Raises e
      | Inr (issues, None) \<Rightarrow> Rejected issues
      | Inr (issues, Some r) \<Rightarrow> if issues = [] then Accepted r else Rejected issues)"

definition record_verdict :: "csv_limits \<Rightarrow> pystr list \<Rightarrow> int \<Rightarrow> pystr \<Rightarrow> verdict" where
  "record_verdict lim header ln raw =
     (if max_record_chars lim < len raw then
        Rejected [record_too_large_issue (Some ln) (stored_record lim raw) (max_record_chars lim)
                    (error_raw_value_chars lim) (error_raw_total_chars lim)]
      else
        (case flat_result (max_field_chars lim) raw reader_reset of
           CsvError e \<Rightarrow>
             if e = FieldLimit then
               Rejected [field_too_large_issue (Some ln) raw (max_field_chars lim)
                           (error_raw_value_chars lim) (error_raw_total_chars lim)]
             else Fatal (malformed_csv_issue ln)
         | StopIteration \<Rightarrow> Raises OtherErr
         | Row row \<Rightarrow>
             if contains_surrogate row then Rejected [invalid_utf8_issue (Some ln)]
             else row_verdict lim header ln row))"

type_synonym outcome = "csv_item list \<times> (exn + csv_summary)"

definition also_item :: "csv_item \<Rightarrow> outcome \<Rightarrow> outcome" where
  "also_item i o' = (i # fst o', snd o')"

fun outcome_records :: "csv_limits \<Rightarrow> pystr list \<Rightarrow> int \<Rightarrow> pystr list \<Rightarrow> outcome" where
  "outcome_records lim header ln [] =
     (if ln = 1 then [Report [no_data_rows_issue]] else [], Inr (summary (ln - 1) True))"
| "outcome_records lim header ln (raw # raws) =
     (case record_verdict lim header (ln + 1) raw of
        Accepted r \<Rightarrow> also_item (Deliver r) (outcome_records lim header (ln + 1) raws)
      | Rejected issues \<Rightarrow> also_item (Report issues) (outcome_records lim header (ln + 1) raws)
      | Fatal issue \<Rightarrow> ([Report [issue]], Inr (summary ln False))
      | Raises e \<Rightarrow> ([], Inl e))"

definition csv_outcome :: "csv_limits \<Rightarrow> pystr \<Rightarrow> outcome" where
  "csv_outcome lim text =
     (case split_text text of
        [] \<Rightarrow> ([Report [missing_header_issue]], Inr (summary 0 True))
      | raw # raws \<Rightarrow>
          if max_record_chars lim < len raw then
            ([Report [record_too_large_issue None (stored_record lim raw) (max_record_chars lim)
                        (error_raw_value_chars lim) (error_raw_total_chars lim)]],
             Inr (summary 0 False))
          else
            (case flat_result (max_field_chars lim) raw reader_reset of
               CsvError e \<Rightarrow>
                 ([Report [if e = FieldLimit
                           then field_too_large_issue None raw (max_field_chars lim)
                                  (error_raw_value_chars lim) (error_raw_total_chars lim)
                           else malformed_csv_issue 1]], Inr (summary 0 False))
             | StopIteration \<Rightarrow> ([], Inl OtherErr)
             | Row header \<Rightarrow>
                 if contains_surrogate header then
                   ([Report [invalid_utf8_issue None]], Inr (summary 0 False))
                 else if \<not> header_ok header then
                   ([Report (validate_header header (error_raw_value_chars lim)
                               (error_raw_total_chars lim))], Inr (summary 0 False))
                 else outcome_records lim header 1 raws))"

subsection \<open>The code computes the outcome\<close>

definition shown :: "csv_item list \<Rightarrow> csv_item list" where
  "shown xs = filter (\<lambda>i. i \<noteq> ReadText) xs"

lemma shown_simps [simp]:
  "shown [] = []" "shown (xs @ ys) = shown xs @ shown ys"
  "shown [ReadText] = []" "shown [Deliver r] = [Deliver r]" "shown [Report is] = [Report is]"
  by (simp_all add: shown_def)

definition on_log :: "(csv_item list, csv_summary) action \<Rightarrow> csv_item list \<Rightarrow> outcome" where
  "on_log m xs = (shown (snd (m xs)), fst (m xs))"

lemma on_log_item [simp]: "on_log (then_act (log_item i) m) xs = on_log m (xs @ [i])"
  by (simp add: on_log_def act_simps log_item_def)

lemma on_log_ret [simp]:
  "on_log (ret a) xs = (shown xs, Inr a)" "on_log (throw e) xs = (shown xs, Inl e)"
  "on_log (then_act (ret ()) m) xs = on_log m xs"
  by (simp_all add: on_log_def act_simps)

lemma on_log_lift [simp]:
  "on_log (bind_act (lift_res (Inr a)) f) xs = on_log (f a) xs"
  "on_log (bind_act (lift_res (Inl e)) f) xs = (shown xs, Inl e)"
  by (simp_all add: on_log_def act_simps)

lemma stored_record_simps:
  "l_truncated (stored_record lim raw) \<longleftrightarrow> max_record_chars lim < len raw"
  "\<not> max_record_chars lim < len raw \<Longrightarrow> l_text (stored_record lim raw) = raw"
  by (simp_all add: stored_record_def make_record_def stored_text_def)

lemma field_too_large_code:
  "i_code (field_too_large_issue ln t mf vl tot) = lit ''csv_field_too_large''"
  "i_code (malformed_csv_issue n) = lit ''malformed_csv''"
  "lit ''malformed_csv'' \<noteq> lit ''csv_field_too_large''"
  by (simp_all add: field_too_large_issue_def malformed_csv_issue_def Let_def lit_def)

definition proper :: "pystr \<Rightarrow> bool" where
  "proper raw \<longleftrightarrow> complete_record raw \<or> open_record raw"

lemma parse_stored_record:
  assumes "proper raw" and "\<not> max_record_chars lim < len raw"
  shows "parse_record (stored_record lim raw) ln mf vl tot =
    (case flat_result mf raw reader_reset of
       Row fs \<Rightarrow> (Some fs, None)
     | CsvError e \<Rightarrow>
         (None, Some (if e = FieldLimit then field_too_large_issue ln raw mf vl tot
                      else malformed_csv_issue (case ln of Some n \<Rightarrow> n | None \<Rightarrow> 1)))
     | StopIteration \<Rightarrow> (None, None))"
  using parse_record_flat [of "stored_record lim raw" ln mf vl tot,
      unfolded stored_record_simps(2) [OF assms(2)]] assms(1)
  by (simp add: proper_def)

lemma validate_records_outcome:
  assumes "header_ok header" and idx: "column_indexes header = Inr indexes"
  shows "yielded es = map (stored_record lim) raws \<Longrightarrow> list_all proper raws \<Longrightarrow>
    on_log (validate_records recorder lim header indexes ln (ln - 1) es) xs
      = (shown xs @ fst (outcome_records lim header ln raws), snd (outcome_records lim header ln raws))"
proof (induction es arbitrary: raws ln xs)
  case Nil
  then show ?case by simp
next
  case (Cons e es)
  show ?case
  proof (cases e)
    case ReadChunk
    with Cons show ?thesis by simp
  next
    case (Yield rec)
    with Cons.prems obtain raw raws' where raws: "raws = raw # raws'" "rec = stored_record lim raw"
        "yielded es = map (stored_record lim) raws'" "proper raw" "list_all proper raws'"
      by (cases raws) auto
    have IH: "on_log (validate_records recorder lim header indexes (ln + 1) ln es) ys
      = (shown ys @ fst (outcome_records lim header (ln + 1) raws'),
         snd (outcome_records lim header (ln + 1) raws'))" for ys
      using Cons.IH [OF raws(3,5), of "ln + 1"] by simp
    show ?thesis
    proof (cases "max_record_chars lim < len raw")
      case True
      then show ?thesis
        by (simp add: Yield raws Let_def stored_record_simps IH record_verdict_def also_item_def)
    next
      case False
      note parse = parse_stored_record [OF raws(4) False]
      show ?thesis
      proof (cases "flat_result (max_field_chars lim) raw reader_reset")
        case (Row row)
        show ?thesis
        proof (cases "validate_row row header indexes (ln + 1) (error_raw_value_chars lim) (error_raw_total_chars lim)")
          case (Inl e)
          then show ?thesis using False Row
            by (simp add: Yield raws Let_def stored_record_simps IH parse record_verdict_def also_item_def
                row_verdict_def idx)
        next
          case (Inr res)
          obtain issues v where res: "res = (issues, v)" by fastforce
          with validate_row_verdict [OF assms] Inr
          have "(issues = [] \<and> v \<noteq> None) \<or> (issues \<noteq> [] \<and> v = None)" by blast
          with Inr res show ?thesis using False Row
            by (auto simp: Yield raws Let_def stored_record_simps IH parse record_verdict_def also_item_def
                row_verdict_def idx)
        qed
      next
        case StopIteration
        then show ?thesis using flat_result_no_stop by blast
      next
        case (CsvError err)
        with False show ?thesis
          by (simp add: Yield raws Let_def stored_record_simps IH parse record_verdict_def also_item_def
              field_too_large_code)
      qed
    qed
  qed
qed

lemma validate_events_outcome:
  assumes "yielded es = map (stored_record lim) (split_text text)"
  shows "on_log (validate_events recorder lim es) xs
    = (shown xs @ fst (csv_outcome lim text), snd (csv_outcome lim text))"
  using assms
proof (induction es arbitrary: xs)
  case Nil
  then show ?case by (simp add: csv_outcome_def)
next
  case (Cons e es)
  show ?case
  proof (cases e)
    case ReadChunk
    with Cons show ?thesis by simp
  next
    case (Yield rec)
    with Cons.prems obtain raw raws where raws: "split_text text = raw # raws"
        "rec = stored_record lim raw" "yielded es = map (stored_record lim) raws"
      by (cases "split_text text") auto
    have "list_all proper (split_text text)"
      using split_text_records by (auto simp: list_all_iff proper_def)
    then have proper: "proper raw" "list_all proper raws" using raws by simp_all
    show ?thesis
    proof (cases "max_record_chars lim < len raw")
      case True
      then show ?thesis by (simp add: Yield raws stored_record_simps csv_outcome_def)
    next
      case False
      note parse = parse_stored_record [OF proper(1) False]
      show ?thesis
      proof (cases "flat_result (max_field_chars lim) raw reader_reset")
        case (Row header)
        show ?thesis
        proof (cases "header_ok header")
          case True
          then obtain f where idx: "column_indexes header = Inr (map (\<lambda>c. (c, f c)) REQUIRED_COLUMNS)"
            by (rule column_indexes_ok)
          have "validate_header header (error_raw_value_chars lim) (error_raw_total_chars lim) = []"
            using True validate_header_ok by blast
          with validate_records_outcome [OF True idx raws(3) proper(2), of 1 xs] True Row False show ?thesis
            by (simp add: Yield raws Let_def stored_record_simps parse csv_outcome_def idx)
        next
          case not_ok: False
          then have "validate_header header (error_raw_value_chars lim) (error_raw_total_chars lim) \<noteq> []"
            using validate_header_ok by blast
          with not_ok False Row show ?thesis
            by (simp add: Yield raws Let_def stored_record_simps parse csv_outcome_def)
        qed
      next
        case StopIteration
        then show ?thesis using flat_result_no_stop by blast
      next
        case (CsvError err)
        with False show ?thesis
          by (simp add: Yield raws Let_def stored_record_simps parse csv_outcome_def)
      qed
    qed
  qed
qed

lemma csv_trace_outcome:
  assumes "check_limits lim = Inr ()" and "[] \<notin> set chunks" and "csv_trace lim chunks = (r, items)"
  shows "(shown items, r) = csv_outcome lim (concat chunks)"
proof -
  have mx: "0 \<le> max_record_chars lim"
    using assms(1) by (auto simp: check_limits_def split: if_splits)
  let ?es = "iter_logical_records (max_record_chars lim) (error_raw_value_chars lim) chunks"
  have "yielded ?es = map (stored_record lim) (split_text (concat chunks))"
    using iter_logical_records_split [OF mx assms(2)] by (simp add: stored_record_def [abs_def])
  from validate_events_outcome [OF this, of "[]"] assms(1,3) show ?thesis
    by (auto simp: csv_trace_def validate_csv_text_def act_simps on_log_def split: prod.splits)
qed

subsection \<open>One verdict per record, in order\<close>

fun item_about :: "int \<Rightarrow> csv_item \<Rightarrow> bool" where
  "item_about ln (Deliver r) \<longleftrightarrow> v_line_number r = ln"
| "item_about ln (Report is) \<longleftrightarrow> is \<noteq> [] \<and> list_all (\<lambda>i. i_line_number i = Some ln) is"
| "item_about ln ReadText \<longleftrightarrow> False"

fun items_from :: "int \<Rightarrow> csv_item list \<Rightarrow> bool" where
  "items_from ln [] \<longleftrightarrow> True"
| "items_from ln (i # is) \<longleftrightarrow> item_about ln i \<and> items_from (ln + 1) is"

lemma items_from_iff: "items_from ln is \<longleftrightarrow> (\<forall>k < length is. item_about (ln + int k) (is ! k))"
proof (induction "is" arbitrary: ln)
  case (Cons i "is")
  have "(\<forall>k < length (i # is). item_about (ln + int k) ((i # is) ! k)) \<longleftrightarrow>
      item_about ln i \<and> (\<forall>k < length is. item_about (ln + 1 + int k) (is ! k))"
    by (auto simp: All_less_Suc2 algebra_simps)
  with Cons show ?case by simp
qed simp

lemma issue_lines [simp]:
  "i_line_number (record_too_large_issue l rec a b c) = l"
  "i_line_number (field_too_large_issue l t a b c) = l"
  "i_line_number (invalid_utf8_issue l) = l"
  "i_line_number (malformed_csv_issue n) = Some n"
  by (simp_all add: record_too_large_issue_def field_too_large_issue_def invalid_utf8_issue_def
      malformed_csv_issue_def Let_def)

lemma row_verdict_facts:
  assumes "header_ok header"
  shows "row_verdict lim header ln row = Accepted r \<Longrightarrow> v_line_number r = ln"
    and "row_verdict lim header ln row = Rejected issues \<Longrightarrow>
      issues \<noteq> [] \<and> list_all (\<lambda>i. i_line_number i = Some ln) issues"
    and "row_verdict lim header ln row \<noteq> Fatal issue"
proof -
  obtain f where idx: "column_indexes header = Inr (map (\<lambda>c. (c, f c)) REQUIRED_COLUMNS)"
    by (rule column_indexes_ok [OF assms])
  note lines = validate_row_lines [OF assms idx] and verdict = validate_row_verdict [OF assms idx]
  show "row_verdict lim header ln row = Accepted r \<Longrightarrow> v_line_number r = ln"
    using lines by (fastforce simp: row_verdict_def idx split: sum.splits prod.splits option.splits if_splits)
  show "row_verdict lim header ln row = Rejected issues \<Longrightarrow>
      issues \<noteq> [] \<and> list_all (\<lambda>i. i_line_number i = Some ln) issues"
    using lines verdict
    by (fastforce simp: row_verdict_def idx list_all_iff split: sum.splits prod.splits option.splits if_splits)
  show "row_verdict lim header ln row \<noteq> Fatal issue"
    by (auto simp: row_verdict_def split: sum.splits prod.splits option.splits)
qed

lemma record_verdict_facts:
  assumes "header_ok header"
  shows "record_verdict lim header ln raw = Accepted r \<Longrightarrow> v_line_number r = ln"
    and "record_verdict lim header ln raw = Rejected issues \<Longrightarrow>
      issues \<noteq> [] \<and> list_all (\<lambda>i. i_line_number i = Some ln) issues"
    and "record_verdict lim header ln raw = Fatal issue \<Longrightarrow> issue = malformed_csv_issue ln"
  using row_verdict_facts [OF assms]
  by (auto simp: record_verdict_def split: if_splits csv_next.splits)

lemma outcome_records_items:
  assumes "header_ok header"
  shows "1 \<le> ln \<Longrightarrow> outcome_records lim header ln raws = (items, Inr s) \<Longrightarrow> ln \<noteq> 1 \<or> raws \<noteq> [] \<Longrightarrow>
    s_row_count s = ln - 1 + len items \<and> items_from (ln + 1) items
    \<and> (s_reached_eof s \<longrightarrow> length items = length raws)
    \<and> (\<not> s_reached_eof s \<longrightarrow> items \<noteq> [] \<and> last items = Report [malformed_csv_issue (s_row_count s + 1)])"
proof (induction raws arbitrary: ln items)
  case Nil
  then show ?case by (auto split: if_splits)
next
  case (Cons raw raws)
  note facts = record_verdict_facts [OF assms]
  have step: "s_row_count s = ln - 1 + len items \<and> items_from (ln + 1) items
    \<and> (s_reached_eof s \<longrightarrow> length items = length (raw # raws))
    \<and> (\<not> s_reached_eof s \<longrightarrow> items \<noteq> [] \<and> last items = Report [malformed_csv_issue (s_row_count s + 1)])"
    if run: "also_item i (outcome_records lim header (ln + 1) raws) = (items, Inr s)"
      and about: "item_about (ln + 1) i" for i
  proof -
    obtain rest where rest: "outcome_records lim header (ln + 1) raws = (rest, Inr s)" "items = i # rest"
      using run by (cases "outcome_records lim header (ln + 1) raws") (auto simp: also_item_def)
    with Cons.IH [OF _ rest(1)] Cons.prems(1) about show ?thesis by auto
  qed
  show ?case
  proof (cases "record_verdict lim header (ln + 1) raw")
    case (Accepted r)
    with Cons.prems step [of "Deliver r"] facts(1) show ?thesis by simp
  next
    case (Rejected issues)
    with Cons.prems step [of "Report issues"] facts(2) show ?thesis by simp
  next
    case (Fatal issue)
    with Cons.prems facts(3) [OF Fatal] show ?thesis by auto
  qed (use Cons.prems in simp)
qed

text \<open>A run that ends without a data record reports exactly one group of issues.\<close>

lemma csv_outcome_items:
  assumes "csv_outcome lim text = (items, Inr s)"
  shows "(s_row_count s = 0 \<and> (\<exists>issues. issues \<noteq> [] \<and> items = [Report issues]))
    \<or> (0 < s_row_count s \<and> len items = s_row_count s \<and> items_from 2 items
       \<and> (s_reached_eof s \<longrightarrow> length (split_text text) = length items + 1)
       \<and> (\<not> s_reached_eof s \<longrightarrow> last items = Report [malformed_csv_issue (s_row_count s + 1)]))"
proof (cases "split_text text")
  case Nil
  with assms show ?thesis by (auto simp: csv_outcome_def)
next
  case (Cons raw raws)
  show ?thesis
  proof (cases "\<exists>header. \<not> max_record_chars lim < len raw
      \<and> flat_result (max_field_chars lim) raw reader_reset = Row header
      \<and> \<not> contains_surrogate header \<and> header_ok header")
    case True
    then obtain header where h: "header_ok header" "outcome_records lim header 1 raws = (items, Inr s)"
      using assms Cons by (auto simp: csv_outcome_def)
    show ?thesis
    proof (cases "raws = []")
      case False
      with outcome_records_items [OF h(1) _ h(2)] have
        "s_row_count s = len items" "items_from 2 items"
        "s_reached_eof s \<longrightarrow> length items = length raws"
        "\<not> s_reached_eof s \<longrightarrow> items \<noteq> [] \<and> last items = Report [malformed_csv_issue (s_row_count s + 1)]"
        by simp_all
      with False Cons show ?thesis by (cases "s_reached_eof s") auto
    qed (use h in auto)
  next
    case False
    then show ?thesis using assms Cons
      by (auto simp: csv_outcome_def validate_header_ok split: if_splits csv_next.splits)
  qed
qed

lemma items_from_deliver:
  "items_from ln items \<Longrightarrow> (\<And>issues. Report issues \<notin> set items) \<Longrightarrow>
     \<exists>rows. items = map Deliver rows \<and> map v_line_number rows = [ln .. ln + len items - 1]"
proof (induction items arbitrary: ln)
  case (Cons i items)
  then obtain rows where rows: "items = map Deliver rows"
      "map v_line_number rows = [ln + 1 .. ln + 1 + len items - 1]"
    by force
  obtain r where r: "i = Deliver r" "v_line_number r = ln"
    using Cons.prems by (cases i) auto
  have "i # items = map Deliver (r # rows)" using rows(1) r(1) by simp
  moreover have "map v_line_number (r # rows) = [ln .. ln + len (i # items) - 1]"
    using rows(2) r(2) by (simp add: upto_rec1 add.commute add.left_commute)
  ultimately show ?case by (intro exI conjI)
qed simp

lemma csv_outcome_clean:
  assumes "csv_outcome lim text = (items, Inr s)" and "\<And>issues. Report issues \<notin> set items"
  shows "\<exists>rows. items = map Deliver rows \<and> rows \<noteq> [] \<and> s = summary (len rows) True
    \<and> map v_line_number rows = [2 .. len rows + 1] \<and> length (split_text text) = length rows + 1"
proof -
  have i: "0 < s_row_count s" "len items = s_row_count s" "items_from 2 items"
      "s_reached_eof s \<longrightarrow> length (split_text text) = length items + 1"
      "\<not> s_reached_eof s \<longrightarrow> last items = Report [malformed_csv_issue (s_row_count s + 1)]"
    using csv_outcome_items [OF assms(1)] assms(2) by (metis list.set_intros(1))+
  then have "items \<noteq> []" by auto
  have eof: "s_reached_eof s"
  proof (rule ccontr)
    assume "\<not> s_reached_eof s"
    with i(5) last_in_set [OF \<open>items \<noteq> []\<close>] assms(2) show False by simp
  qed
  from items_from_deliver [OF i(3) assms(2)] obtain rows where
    rows: "items = map Deliver rows" "map v_line_number rows = [2 .. len rows + 1]" by (auto simp: algebra_simps)
  have "s = summary (len rows) True" using i(2) eof rows(1) by (cases s) simp
  with rows i eof show ?thesis by (intro exI [of _ rows]) auto
qed

subsection \<open>The only exception\<close>

text \<open>
  A decimal integer, with an optional sign, of more digits than \<open>int()\<close> converts.
\<close>

definition too_long_integer :: "pystr \<Rightarrow> bool" where
  "too_long_integer s \<longleftrightarrow>
     (let ds = (if take 1 s = [43] \<or> take 1 s = [45] then tl s else s)
      in list_all is_digit ds \<and> max_str_digits < len ds)"

lemma py_int_raises:
  "integer_fullmatch s \<Longrightarrow> py_int s = Inl e \<Longrightarrow> e = ValueErr \<and> too_long_integer s"
  by (cases s) (auto simp: py_int_def too_long_integer_def integer_fullmatch_def Let_def split: if_splits)

lemma record_verdict_raises:
  assumes "header_ok header" and "record_verdict lim header ln raw = Raises e"
  shows "e = ValueErr \<and> (\<exists>row. flat_result (max_field_chars lim) raw reader_reset = Row row
    \<and> length row = length header \<and> too_long_integer (strip (cell header row QUANTITY)))"
proof -
  obtain f where idx: "column_indexes header = Inr (map (\<lambda>c. (c, f c)) REQUIRED_COLUMNS)"
    by (rule column_indexes_ok [OF assms(1)])
  obtain row where row: "flat_result (max_field_chars lim) raw reader_reset = Row row"
    "row_verdict lim header ln row = Raises e"
    using assms(2) flat_result_no_stop
    by (fastforce simp: record_verdict_def split: if_splits csv_next.splits)
  then have "validate_row row header (map (\<lambda>c. (c, f c)) REQUIRED_COLUMNS) ln
      (error_raw_value_chars lim) (error_raw_total_chars lim) = Inl e"
    by (auto simp: row_verdict_def idx split: sum.splits option.splits if_splits)
  with validate_row_raises_iff [OF assms(1) idx] py_int_raises row(1) show ?thesis by blast
qed

lemma outcome_records_raises:
  assumes "header_ok header"
  shows "outcome_records lim header ln raws = (items, Inl e) \<Longrightarrow>
    length items < length raws
    \<and> record_verdict lim header (ln + len items + 1) (raws ! length items) = Raises e"
proof (induction raws arbitrary: ln items)
  case (Cons raw raws)
  show ?case
  proof (cases "record_verdict lim header (ln + 1) raw")
    case (Raises e')
    with Cons.prems show ?thesis by auto
  next
    case (Accepted r)
    with Cons.prems obtain its where its: "outcome_records lim header (ln + 1) raws = (its, Inl e)" "items = Deliver r # its"
      by (cases "outcome_records lim header (ln + 1) raws") (auto simp: also_item_def)
    from Cons.IH [OF its(1)] its(2) show ?thesis by (simp add: algebra_simps)
  next
    case (Rejected issues)
    with Cons.prems obtain its where its: "outcome_records lim header (ln + 1) raws = (its, Inl e)" "items = Report issues # its"
      by (cases "outcome_records lim header (ln + 1) raws") (auto simp: also_item_def)
    from Cons.IH [OF its(1)] its(2) show ?thesis by (simp add: algebra_simps)
  qed (use Cons in auto)
qed (auto split: if_splits)

text \<open>
  An exception comes from the first data record that is neither delivered nor reported: its row has as
  many cells as the header, and its quantity is too long an integer.
\<close>

lemma csv_outcome_raises:
  assumes "csv_outcome lim text = (items, Inl e)"
  shows "e = ValueErr \<and> (\<exists>raw raws header row. split_text text = raw # raws
    \<and> flat_result (max_field_chars lim) raw reader_reset = Row header \<and> header_ok header
    \<and> length items < length raws
    \<and> flat_result (max_field_chars lim) (raws ! length items) reader_reset = Row row
    \<and> length row = length header \<and> too_long_integer (strip (cell header row QUANTITY)))"
proof -
  obtain raw raws header where h: "split_text text = raw # raws"
    "flat_result (max_field_chars lim) raw reader_reset = Row header" "header_ok header"
    "outcome_records lim header 1 raws = (items, Inl e)"
    using assms flat_result_no_stop
    by (auto simp: csv_outcome_def split: list.splits if_splits csv_next.splits)
  from outcome_records_raises [OF h(3,4)] have l: "length items < length raws"
    and v: "record_verdict lim header (1 + len items + 1) (raws ! length items) = Raises e" by simp_all
  from record_verdict_raises [OF h(3) v] h l show ?thesis by blast
qed

subsection \<open>Files that the service itself would write\<close>

text \<open>
  The quoted rendering of a table: the header with the required columns and one line per row.
\<close>

definition row_fields :: "validated_row \<Rightarrow> pystr list" where
  "row_fields r = [v_warehouse_code r, v_warehouse_name r, v_sku r, v_product_name r,
                   py_str_int (v_quantity r)]"

definition render_line :: "pystr list \<Rightarrow> pystr" where
  "render_line fs = render_fields fs @ [LF]"

definition render_table :: "validated_row list \<Rightarrow> pystr" where
  "render_table rows = concat (map render_line (REQUIRED_COLUMNS # map row_fields rows))"

fun numbered :: "int \<Rightarrow> validated_row list \<Rightarrow> validated_row list" where
  "numbered ln [] = []"
| "numbered ln (r # rows) = r\<lparr>v_line_number := ln\<rparr> # numbered (ln + 1) rows"

definition clean_text :: "pystr \<Rightarrow> bool" where
  "clean_text t \<longleftrightarrow> strip t = t \<and> t \<noteq> [] \<and> list_all is_scalar t"

definition renderable :: "csv_limits \<Rightarrow> validated_row \<Rightarrow> bool" where
  "renderable lim r \<longleftrightarrow>
     clean_text (v_warehouse_code r) \<and> clean_text (v_warehouse_name r) \<and> clean_text (v_sku r)
     \<and> clean_text (v_product_name r) \<and> 0 \<le> v_quantity r \<and> v_quantity r \<le> POSTGRES_BIGINT_MAX
     \<and> list_all (\<lambda>f. len f \<le> max_field_chars lim) (row_fields r)
     \<and> len (render_line (row_fields r)) \<le> max_record_chars lim"

lemma split_run_mode:
  "mode_run m body = Some m' \<Longrightarrow>
     split_run (m, raw, False) body = ((m', raw @ body, False), [])"
proof (induction body arbitrary: m raw)
  case (Cons c body)
  then obtain m1 where "next_mode m c = Some m1" "mode_run m1 body = Some m'"
    by (auto split: option.splits)
  with Cons.IH [of m1 "raw @ [c]"] show ?case by simp
qed simp

lemma split_text_line:
  assumes "mode_run FieldStart body = Some m" and "m \<noteq> Quoted"
  shows "split_text (body @ [LF] @ rest) = (body @ [LF]) # split_text rest"
proof -
  have nl: "next_mode m LF = None" using next_mode_newline [of LF m] assms(2) by simp
  have "split_run (FieldStart, [], False) (body @ [LF]) = ((FieldStart, [], False), [body @ [LF]])"
    using split_run_mode [OF assms(1), of "[]"] nl
    by (simp add: split_run_append) (simp add: LF_def CR_def)
  then show ?thesis
    using split_run_append [of "(FieldStart, [], False)" "body @ [LF]" rest]
    by (auto simp: split_text_def Let_def split: prod.split)
qed

lemma split_text_lines:
  "list_all (\<lambda>fs. fs \<noteq> []) lines \<Longrightarrow> split_text (concat (map render_line lines)) = map render_line lines"
proof (induction lines)
  case Nil
  then show ?case by (simp add: split_text_def split_rest_def)
next
  case (Cons fs lines)
  then have "split_text (render_fields fs @ [LF] @ concat (map render_line lines))
      = (render_fields fs @ [LF]) # split_text (concat (map render_line lines))"
    by (intro split_text_line) (auto simp: render_fields_mode)
  with Cons show ?case by (simp add: render_line_def [of fs])
qed

lemma flat_result_line:
  "fs \<noteq> [] \<Longrightarrow> list_all (\<lambda>f. len f \<le> limit) fs \<Longrightarrow> flat_result limit (render_line fs) reader_reset = Row fs"
  unfolding render_line_def by (rule flat_result_render) (auto simp: list_all_iff)

lemma contains_surrogate_scalars:
  "list_all (list_all is_scalar) fs \<Longrightarrow> \<not> contains_surrogate fs"
  unfolding contains_surrogate_def list_ex_iff list_all_iff is_scalar_def by force

lemma header_ok_required: "header_ok REQUIRED_COLUMNS"
  by (simp add: header_ok_def REQUIRED_COLUMNS_def eq_commute)

lemma cell_row_fields:
  "cell REQUIRED_COLUMNS (row_fields r) WAREHOUSE_CODE = v_warehouse_code r"
  "cell REQUIRED_COLUMNS (row_fields r) WAREHOUSE_NAME = v_warehouse_name r"
  "cell REQUIRED_COLUMNS (row_fields r) SKU = v_sku r"
  "cell REQUIRED_COLUMNS (row_fields r) PRODUCT_NAME = v_product_name r"
  "cell REQUIRED_COLUMNS (row_fields r) QUANTITY = py_str_int (v_quantity r)"
  by (simp_all add: cell_def row_fields_def REQUIRED_COLUMNS_def column_neqs [symmetric])

lemma digits_not_space: "list_all is_digit s \<Longrightarrow> s \<noteq> [] \<Longrightarrow> strip s = s"
proof -
  assume d: "list_all is_digit s" and ne: "s \<noteq> []"
  then have "is_digit (hd s)" "is_digit (hd (rev s))"
    by (simp_all add: list_all_iff hd_rev)
  then have "\<not> is_space (hd s)" "\<not> is_space (hd (rev s))"
    by (auto simp: is_digit_def is_space_def)
  then show ?thesis using ne by (simp add: strip_def dropWhile_id)
qed

lemma quantity_round_trip:
  assumes "0 \<le> q" and "q \<le> POSTGRES_BIGINT_MAX"
  shows "integer_fullmatch (strip (py_str_int q))" and "py_int (strip (py_str_int q)) = Inr q"
    and "list_all is_scalar (py_str_int q)"
proof -
  have d: "list_all is_digit (dec_digits q)" by (rule dec_digits_digits [OF assms(1)])
  then have s: "strip (py_str_int q) = dec_digits q"
    using digits_not_space [of "dec_digits q"] assms(1) by (simp add: py_str_int_def)
  then show "integer_fullmatch (strip (py_str_int q))"
    using dec_digits_fullmatch [OF assms(1)] by simp
  have "(10 :: int) ^ 19 \<le> 10 ^ 4300" by (rule power_increasing) simp_all
  moreover have "q < 10 ^ 19" using assms(2) by (simp add: POSTGRES_BIGINT_MAX_def)
  ultimately have "q < 10 ^ 4300" by (rule order_less_le_trans [rotated])
  with s show "py_int (strip (py_str_int q)) = Inr q"
    using py_int_dec_digits [OF assms(1)] by (simp only:)
  show "list_all is_scalar (py_str_int q)"
    using d assms(1) by (auto simp: py_str_int_def list_all_iff is_digit_def is_scalar_def)
qed

lemma record_verdict_render:
  assumes "renderable lim r"
  shows "record_verdict lim REQUIRED_COLUMNS ln (render_line (row_fields r))
    = Accepted (r\<lparr>v_line_number := ln\<rparr>)"
proof -
  note q = quantity_round_trip [of "v_quantity r"]
  have flat: "flat_result (max_field_chars lim) (render_line (row_fields r)) reader_reset = Row (row_fields r)"
    by (rule flat_result_line) (use assms in \<open>auto simp: renderable_def row_fields_def\<close>)
  have "list_all (list_all is_scalar) (row_fields r)"
    using assms q(3) by (simp add: renderable_def clean_text_def row_fields_def)
  then have sur: "\<not> contains_surrogate (row_fields r)" by (rule contains_surrogate_scalars)
  obtain f where idx: "column_indexes REQUIRED_COLUMNS = Inr (map (\<lambda>c. (c, f c)) REQUIRED_COLUMNS)"
    by (rule column_indexes_ok [OF header_ok_required])
  have len5: "length (row_fields r) = length REQUIRED_COLUMNS"
    by (simp add: row_fields_def REQUIRED_COLUMNS_def)
  have missing: "missing_fields REQUIRED_COLUMNS (row_fields r) = []"
    using assms by (simp add: missing_fields_def cell_row_fields renderable_def clean_text_def)
  have rowof: "row_of_cells REQUIRED_COLUMNS (row_fields r) ln (v_quantity r) = r\<lparr>v_line_number := ln\<rparr>"
    using assms by (simp add: row_of_cells_def cell_row_fields renderable_def clean_text_def)
  have q: "integer_fullmatch (strip (py_str_int (v_quantity r)))"
      "py_int (strip (py_str_int (v_quantity r))) = Inr (v_quantity r)"
      "0 \<le> v_quantity r" "v_quantity r \<le> POSTGRES_BIGINT_MAX"
    using assms q by (simp_all add: renderable_def)
  have "validate_row (row_fields r) REQUIRED_COLUMNS (map (\<lambda>c. (c, f c)) REQUIRED_COLUMNS) ln
      (error_raw_value_chars lim) (error_raw_total_chars lim) = Inr ([], Some (r\<lparr>v_line_number := ln\<rparr>))"
    unfolding validate_row_accepts_iff [OF header_ok_required idx]
    using len5 missing rowof q by (intro conjI exI [of _ "v_quantity r"]) (simp_all add: cell_row_fields)
  then show ?thesis
    using assms flat sur by (simp add: record_verdict_def row_verdict_def idx renderable_def)
qed

lemma outcome_records_render:
  "list_all (renderable lim) rows \<Longrightarrow> ln \<noteq> 1 \<or> rows \<noteq> [] \<Longrightarrow> 1 \<le> ln \<Longrightarrow>
     outcome_records lim REQUIRED_COLUMNS ln (map (render_line \<circ> row_fields) rows)
       = (map Deliver (numbered (ln + 1) rows), Inr (summary (ln - 1 + len rows) True))"
proof (induction rows arbitrary: ln)
  case (Cons r rows)
  then show ?case by (simp add: record_verdict_render also_item_def algebra_simps)
qed simp

lemma csv_outcome_lines:
  assumes "list_all (\<lambda>fs. fs \<noteq> []) lines"
    and "14 \<le> max_field_chars lim" and "66 \<le> max_record_chars lim"
  shows "csv_outcome lim (concat (map render_line (REQUIRED_COLUMNS # lines)))
    = outcome_records lim REQUIRED_COLUMNS 1 (map render_line lines)"
proof -
  have split: "split_text (concat (map render_line (REQUIRED_COLUMNS # lines)))
      = map render_line (REQUIRED_COLUMNS # lines)"
    by (rule split_text_lines) (use assms(1) in \<open>simp add: REQUIRED_COLUMNS_def\<close>)
  have hlen: "len (render_line REQUIRED_COLUMNS) = 66"
    by (simp add: render_line_def REQUIRED_COLUMNS_def quote_field_def WAREHOUSE_CODE_def
        WAREHOUSE_NAME_def SKU_def PRODUCT_NAME_def QUANTITY_def lit_def DQUOTE_def)
  have flat: "flat_result (max_field_chars lim) (render_line REQUIRED_COLUMNS) reader_reset
      = Row REQUIRED_COLUMNS"
    using assms(2)
    by (intro flat_result_line) (simp_all add: REQUIRED_COLUMNS_def WAREHOUSE_CODE_def
        WAREHOUSE_NAME_def SKU_def PRODUCT_NAME_def QUANTITY_def lit_def)
  have "\<not> contains_surrogate REQUIRED_COLUMNS"
    by (rule contains_surrogate_scalars) (simp add: REQUIRED_COLUMNS_def WAREHOUSE_CODE_def
        WAREHOUSE_NAME_def SKU_def PRODUCT_NAME_def QUANTITY_def lit_def is_scalar_def)
  with split hlen flat header_ok_required assms(3) show ?thesis by (simp add: csv_outcome_def)
qed

lemma csv_outcome_render:
  assumes "list_all (renderable lim) rows" and "rows \<noteq> []"
    and "14 \<le> max_field_chars lim" and "66 \<le> max_record_chars lim"
  shows "csv_outcome lim (render_table rows) = (map Deliver (numbered 2 rows), Inr (summary (len rows) True))"
  using csv_outcome_lines [of "map row_fields rows" lim] assms outcome_records_render [OF assms(1), of 1]
  by (simp add: render_table_def list_all_iff row_fields_def comp_def)

text \<open>A rendered table holds scalar values only and starts with a quotation mark.\<close>

lemma quote_field_scalars: "list_all is_scalar f \<Longrightarrow> list_all is_scalar (quote_field f)"
  by (auto simp: quote_field_def list_all_iff DQUOTE_def is_scalar_def split: if_splits)

lemma render_fields_scalars: "list_all (list_all is_scalar) fs \<Longrightarrow> list_all is_scalar (render_fields fs)"
  by (induction fs rule: render_fields.induct) (auto simp: quote_field_scalars COMMA_def is_scalar_def)

lemma render_table_scalars:
  assumes "list_all (renderable lim) rows"
  shows "list_all is_scalar (render_table rows)"
proof -
  have "list_all is_scalar (render_line REQUIRED_COLUMNS)"
    unfolding render_line_def list_all_append
    by (intro conjI render_fields_scalars) (simp_all add: REQUIRED_COLUMNS_def WAREHOUSE_CODE_def
        WAREHOUSE_NAME_def SKU_def PRODUCT_NAME_def QUANTITY_def lit_def is_scalar_def LF_def)
  moreover have "list_all is_scalar (render_line (row_fields r))" if "r \<in> set rows" for r
    unfolding render_line_def list_all_append
    using assms that quantity_round_trip(3) [of "v_quantity r"]
    by (intro conjI render_fields_scalars)
      (auto simp: row_fields_def LF_def is_scalar_def list_all_iff renderable_def clean_text_def)
  ultimately show ?thesis by (auto simp: render_table_def list_all_iff)
qed

lemma render_table_start: "take 1 (render_table rows) \<noteq> [65279]"
  by (simp add: render_table_def render_line_def REQUIRED_COLUMNS_def quote_field_def DQUOTE_def)

subsection \<open>The byte stream\<close>

lemma stream_text_decode: "stream_text chunks = decode_utf8_sig (concat chunks)"
proof -
  obtain r st where run: "read_blocks (nat IO_BUFFER_SIZE) (Suc (length (concat chunks)))
      (chunk_io_init chunks (\<lambda>_. False)) = (Inr r, st)"
    using read_blocks_no_fault [of "chunk_io_init chunks (\<lambda>_. False)" "nat IO_BUFFER_SIZE"
        "Suc (length (concat chunks))"] that
    by (auto simp: chunk_io_init_def simp del: read_blocks.simps)
  have "r = concat chunks"
    using read_blocks_all [OF run] by (simp add: io_rest_def chunk_io_init_def IO_BUFFER_SIZE_def)
  with run show ?thesis by (simp add: stream_text_def)
qed

lemma stream_pieces:
  "[] \<notin> set (text_pieces (nat TEXT_READ_CHARS) t)" "concat (text_pieces (nat TEXT_READ_CHARS) t) = t"
  by (simp_all add: text_pieces_not_Nil concat_text_pieces TEXT_READ_CHARS_def)

text \<open>Encoding a text, with or without a byte order mark, is decoded to it.\<close>

lemma decode_BOM: "decode_utf8_sig (BOM @ bs) = decode_utf8 bs"
  by (simp add: decode_utf8_sig_def BOM_def)

lemma decode_sig_encode:
  assumes "list_all is_scalar t" and "take 1 t \<noteq> [65279]"
  shows "decode_utf8_sig (encode_utf8 t) = t"
proof -
  have dec: "decode_utf8 (encode_utf8 t) = t"
    using decode_encode_utf8 assms(1) by (simp add: list_all_iff)
  have esc: "\<not> list_ex is_escape t"
    using assms(1) is_scalar_not_escape by (auto simp: list_all_iff list_ex_iff)
  have "encode_utf8 t \<noteq> take 1 BOM" "encode_utf8 t \<noteq> take 2 BOM"
  proof -
    have "list_ex is_escape (decode_utf8 (take 1 BOM))" "list_ex is_escape (decode_utf8 (take 2 BOM))"
      by (simp_all add: BOM_def utf8_char.simps is_escape_def is_cont_def)
    then show "encode_utf8 t \<noteq> take 1 BOM" "encode_utf8 t \<noteq> take 2 BOM"
      using dec esc by metis+
  qed
  moreover have "take 3 (encode_utf8 t) \<noteq> BOM"
  proof
    assume b: "take 3 (encode_utf8 t) = BOM"
    then have "encode_utf8 t = BOM @ drop 3 (encode_utf8 t)" by (metis append_take_drop_id)
    then have "t = decode_utf8 (BOM @ drop 3 (encode_utf8 t))" using dec by simp
    also have "\<dots> = 65279 # decode_utf8 (drop 3 (encode_utf8 t))"
      by (simp add: BOM_def utf8_char.simps is_cont_def is_scalar_def Let_def)
    finally have "take 1 t = [65279]" by (metis One_nat_def take_Suc_Cons take0)
    with assms(2) show False by simp
  qed
  ultimately show ?thesis using dec by (simp add: decode_utf8_sig_def)
qed

end
