(* ===== verification/CsvProperties.thy ===== *)
theory CsvProperties
  imports CsvOutcome
begin

text \<open>
  The properties of CSV validation: each states what a part of \<open>app/services/csv_validation.py\<close>
  guarantees, over the definitions that model it, and is followed by its application at a
  concrete input where it has hypotheses.
\<close>

lemma default_limits_ok: "check_limits default_limits = Inr ()"
  by (simp add: check_limits_def default_limits_def DEFAULT_MAX_FIELD_CHARS_def
      DEFAULT_MAX_RECORD_CHARS_def DEFAULT_ERROR_RAW_VALUE_CHARS_def DEFAULT_ERROR_RAW_TOTAL_CHARS_def)

text \<open>A file of one row, on which the properties are exercised.\<close>

definition sample_row :: validated_row where
  "sample_row = \<lparr>v_line_number = 2, v_warehouse_code = lit ''W1'', v_warehouse_name = lit ''Main'',
     v_sku = lit ''S1'', v_product_name = lit ''Nut'', v_quantity = 5\<rparr>"

definition sample_items :: "csv_item list" where
  "sample_items = snd (csv_trace default_limits [render_table [sample_row]])"

lemma sample_renderable: "renderable default_limits sample_row"
  by code_simp

lemma default_limits_size [simp]:
  "14 \<le> max_field_chars default_limits" "66 \<le> max_record_chars default_limits"
  by (simp_all add: default_limits_def DEFAULT_MAX_FIELD_CHARS_def DEFAULT_MAX_RECORD_CHARS_def)

lemma sample_trace:
  "csv_trace default_limits [render_table [sample_row]] = (Inr (summary 1 True), sample_items)"
  "shown sample_items = [Deliver sample_row]"
proof -
  have out: "csv_outcome default_limits (render_table [sample_row])
      = (map Deliver (numbered 2 [sample_row]), Inr (summary (len [sample_row]) True))"
    by (rule csv_outcome_render) (simp_all add: sample_renderable)
  have ne: "[] \<notin> set [render_table [sample_row]]"
    by (simp add: render_table_def render_line_def)
  obtain r items where tr: "csv_trace default_limits [render_table [sample_row]] = (r, items)" by fastforce
  from csv_trace_outcome [OF default_limits_ok ne tr] out
  have "shown items = [Deliver sample_row]" "r = Inr (summary 1 True)"
    by (simp_all add: sample_row_def)
  with tr show "csv_trace default_limits [render_table [sample_row]] = (Inr (summary 1 True), sample_items)"
    "shown sample_items = [Deliver sample_row]"
    by (simp_all add: sample_items_def)
qed

lemma sample_no_report: "\<forall>issues. Report issues \<notin> set sample_items"
proof
  fix issues
  show "Report issues \<notin> set sample_items"
  proof
    assume "Report issues \<in> set sample_items"
    then have "Report issues \<in> set (shown sample_items)" by (simp add: shown_def)
    then show False by (simp add: sample_trace)
  qed
qed

text \<open>A row whose quantity has 4302 digits.\<close>

definition long_row :: "pystr list" where
  "long_row = [[87], [78], [83], [80], replicate 4302 57]"

lemma required_indexes:
  "column_indexes REQUIRED_COLUMNS = Inr (map (\<lambda>i. (REQUIRED_COLUMNS ! i, i)) [0..<5])"
  by code_simp

lemma long_row_quantity:
  "list_all is_digit (strip (cell REQUIRED_COLUMNS long_row QUANTITY))"
  "max_str_digits + 1 < len (strip (cell REQUIRED_COLUMNS long_row QUANTITY))"
proof -
  have c: "cell REQUIRED_COLUMNS [[87], [78], [83], [80], q] QUANTITY = q" for q
    by (simp add: cell_def REQUIRED_COLUMNS_def column_neqs [symmetric])
  have d: "list_all is_digit (replicate n 57)" for n by (simp add: list_all_iff is_digit_def)
  have s: "strip (replicate n 57) = replicate n 57" for n
    using digits_not_space [OF d, of n] by (cases "n = 0") (simp_all add: strip_def)
  show "list_all is_digit (strip (cell REQUIRED_COLUMNS long_row QUANTITY))"
    unfolding long_row_def c s by (rule d)
  show "max_str_digits + 1 < len (strip (cell REQUIRED_COLUMNS long_row QUANTITY))"
    unfolding long_row_def c s length_replicate by (simp add: max_str_digits_def)
qed

definition long_text :: pystr where
  "long_text = concat (map render_line [REQUIRED_COLUMNS, long_row])"

lemma long_row_scalars: "\<not> contains_surrogate long_row"
  by (rule contains_surrogate_scalars) (simp add: long_row_def is_scalar_def list_all_iff)

lemma concat_replicate_single: "concat (replicate n [a]) = replicate n a"
  by (induction n) simp_all

lemma quote_replicate: "quote_field (replicate n 57) = 34 # replicate n 57 @ [34]"
  by (simp add: quote_field_def DQUOTE_def map_replicate_const concat_replicate_single)

lemma long_row_size: "\<not> max_record_chars default_limits < len (render_line long_row)"
proof -
  have "length (quote_field (replicate n 57)) = n + 2" for n
    by (simp add: quote_replicate)
  then have "length (render_line [[87], [78], [83], [80], replicate n 57]) = n + 19" for n
    by (simp add: render_line_def) (simp add: quote_field_def DQUOTE_def)
  then have "length (render_line long_row) = 4302 + 19" by (simp only: long_row_def)
  then show ?thesis by (simp add: default_limits_def DEFAULT_MAX_RECORD_CHARS_def)
qed

lemma long_row_verdict: "record_verdict default_limits REQUIRED_COLUMNS 2 (render_line long_row) = Raises ValueErr"
proof -
  have l: "list_all (\<lambda>f. len f \<le> 1048576) [[87], [78], [83], [80], replicate 4302 57]"
    by (simp only: list_all_iff list.set ball_simps length_replicate) simp
  have flat: "flat_result (max_field_chars default_limits) (render_line long_row) reader_reset = Row long_row"
    by (rule flat_result_line) (use l in \<open>simp_all only: long_row_def default_limits_def
      DEFAULT_MAX_FIELD_CHARS_def csv_limits.simps list.distinct not_False_eq_True\<close>)
  have q: "integer_fullmatch (strip (cell REQUIRED_COLUMNS long_row QUANTITY))"
    using long_row_quantity
    by (cases "strip (cell REQUIRED_COLUMNS long_row QUANTITY)")
      (auto simp: integer_fullmatch_def is_digit_def max_str_digits_def)
  have "validate_row long_row REQUIRED_COLUMNS (map (\<lambda>i. (REQUIRED_COLUMNS ! i, i)) [0..<5]) 2
      (error_raw_value_chars default_limits) (error_raw_total_chars default_limits) = Inl ValueErr"
    unfolding validate_row_raises_iff [OF header_ok_required required_indexes]
    using q py_int_long [OF long_row_quantity(2)] by (simp add: long_row_def REQUIRED_COLUMNS_def)
  then show ?thesis using flat
    by (simp add: record_verdict_def row_verdict_def required_indexes long_row_scalars long_row_size)
qed

lemma long_text_raises: "\<exists>e. fst (csv_trace default_limits [long_text]) = Inl e"
proof -
  have out: "csv_outcome default_limits long_text = ([], Inl ValueErr)"
    unfolding long_text_def
    using csv_outcome_lines [of "[long_row]" default_limits] long_row_verdict by (simp add: long_row_def)
  have ne: "[] \<notin> set [long_text]" by (simp add: long_text_def render_line_def)
  obtain r items where tr: "csv_trace default_limits [long_text] = (r, items)" by fastforce
  from csv_trace_outcome [OF default_limits_ok ne tr] out tr show ?thesis by simp
qed

text \<open>C20: validation is a function of the text: whatever pieces \<open>text_stream.read\<close> returns, the rows
  handed to \<open>on_valid_row\<close>, the issues handed to \<open>on_issues\<close>, their order and the result are those
  that \<open>csv_outcome\<close> assigns to the whole text.\<close>

theorem validation_chunk_independent:
  assumes "check_limits lim = Inr ()" and "[] \<notin> set chunks"
  shows "(shown (snd (csv_trace lim chunks)), fst (csv_trace lim chunks)) = csv_outcome lim (concat chunks)"
  using csv_trace_outcome [OF assms, of "fst (csv_trace lim chunks)" "snd (csv_trace lim chunks)"] by simp

lemma validation_chunk_independent_witness:
  "(shown (snd (csv_trace default_limits [lit ''sku,qu'', lit ''antity''])),
     fst (csv_trace default_limits [lit ''sku,qu'', lit ''antity'']))
     = csv_outcome default_limits (concat [lit ''sku,qu'', lit ''antity''])"
  by (rule validation_chunk_independent) (simp_all add: default_limits_ok lit_def)

text \<open>C38: the effect of validation on the caller is the sequence of callback invocations of its
  trace, run until one of them raises, then the summary or exception of the trace; the stream is
  closed in every case.\<close>

theorem validation_effects:
  assumes "csv_trace lim chunks = (r, items)" and "check_limits lim = Inr ()"
  shows "validate_csv_text cb lim chunks =
    finally_act (then_act (each_act (dispatch cb) items) (lift_res r)) (cb_close cb)"
  by (rule validate_csv_text_trace [OF assms])

lemma validation_effects_witness:
  "validate_csv_text recorder default_limits [render_table [sample_row]] =
    finally_act (then_act (each_act (dispatch recorder) sample_items) (lift_res (Inr (summary 1 True))))
      (cb_close recorder)"
  by (rule validation_effects [OF sample_trace(1) default_limits_ok])

text \<open>C21: a run that reports no issue has read the file to its end and delivered one row per data
  record, at least one, with the line numbers 2, 3, ...; so the code's two guards after validation
  (end of file not reached, no valid rows) cannot be hit on a report without issues.\<close>

theorem clean_validation_complete:
  assumes "check_limits lim = Inr ()" and "[] \<notin> set chunks"
    and "csv_trace lim chunks = (Inr s, items)" and "\<forall>issues. Report issues \<notin> set items"
  shows "\<exists>rows. shown items = map Deliver rows \<and> rows \<noteq> [] \<and> s = summary (len rows) True
    \<and> map v_line_number rows = [2 .. len rows + 1]
    \<and> length (split_text (concat chunks)) = length rows + 1"
proof -
  have "csv_outcome lim (concat chunks) = (shown items, Inr s)"
    using csv_trace_outcome [OF assms(1-3)] by simp
  then show ?thesis
    by (rule csv_outcome_clean) (use assms(4) in \<open>simp add: shown_def\<close>)
qed

lemma clean_validation_complete_witness:
  "\<exists>rows. shown sample_items = map Deliver rows \<and> rows \<noteq> [] \<and> summary 1 True = summary (len rows) True
    \<and> map v_line_number rows = [2 .. len rows + 1]
    \<and> length (split_text (concat [render_table [sample_row]])) = length rows + 1"
  by (rule clean_validation_complete [OF default_limits_ok _ sample_trace(1) sample_no_report])
    (simp add: render_table_def render_line_def)

text \<open>C23: unless only the header or the absence of rows is reported, every data record read gets
  exactly one callback, in file order: a row or a non-empty group of issues that carries the
  record's line number. Reading stops early only at a syntax error, reported last.\<close>

theorem one_verdict_per_record:
  assumes "check_limits lim = Inr ()" and "[] \<notin> set chunks" and "csv_trace lim chunks = (Inr s, items)"
  shows "(s_row_count s = 0 \<and> (\<exists>issues. issues \<noteq> [] \<and> shown items = [Report issues]))
    \<or> (0 < s_row_count s \<and> len (shown items) = s_row_count s \<and> items_from 2 (shown items)
       \<and> (s_reached_eof s \<longrightarrow> length (split_text (concat chunks)) = length (shown items) + 1)
       \<and> (\<not> s_reached_eof s \<longrightarrow> last (shown items) = Report [malformed_csv_issue (s_row_count s + 1)]))"
  by (rule csv_outcome_items) (use csv_trace_outcome [OF assms] in simp)

lemma one_verdict_per_record_witness: "len (shown sample_items) = 1 \<and> items_from 2 (shown sample_items)"
proof -
  have "[] \<notin> set [render_table [sample_row]]" by (simp add: render_table_def render_line_def)
  from one_verdict_per_record [OF default_limits_ok this sample_trace(1)] show ?thesis by simp
qed

text \<open>C37: the only exception validation can raise by itself is the \<open>ValueError\<close> of \<open>int()\<close> on a
  quantity that is a decimal integer of more than 4300 digits. The header has been accepted, every earlier data
  record was delivered or reported, and the record at fault is a row with as many cells as the header whose
  stripped quantity is such an integer.\<close>

theorem validation_exception:
  assumes "check_limits lim = Inr ()" and "[] \<notin> set chunks" and "csv_trace lim chunks = (Inl e, items)"
  shows "e = ValueErr \<and> (\<exists>raw raws header row. split_text (concat chunks) = raw # raws
    \<and> flat_result (max_field_chars lim) raw reader_reset = Row header \<and> header_ok header
    \<and> length (shown items) < length raws
    \<and> flat_result (max_field_chars lim) (raws ! length (shown items)) reader_reset = Row row
    \<and> length row = length header \<and> too_long_integer (strip (cell header row QUANTITY)))"
  by (rule csv_outcome_raises) (use csv_trace_outcome [OF assms] in simp)

lemma validation_exception_witness: "fst (csv_trace default_limits [long_text]) = Inl ValueErr
    \<and> (\<exists>header row. too_long_integer (strip (cell header row QUANTITY)))"
proof -
  obtain e items where tr: "csv_trace default_limits [long_text] = (Inl e, items)"
    using long_text_raises by (metis prod.exhaust_sel)
  have ne: "[] \<notin> set [long_text]" by (simp add: long_text_def render_line_def)
  from validation_exception [OF default_limits_ok ne tr] tr show ?thesis by auto
qed

text \<open>A row whose quantity is a decimal integer of more than 4300 digits aborts validation.\<close>

theorem long_quantity_raises:
  assumes "header_ok header" and "column_indexes header = Inr indexes" and "length row = length header"
    and "list_all is_digit (strip (cell header row QUANTITY))"
    and "max_str_digits + 1 < len (strip (cell header row QUANTITY))"
  shows "validate_row row header indexes ln vl tot = Inl ValueErr"
proof -
  have "strip (cell header row QUANTITY) \<noteq> []" using assms(5) by (auto simp: max_str_digits_def)
  then have "integer_fullmatch (strip (cell header row QUANTITY))"
    using assms(4) by (cases "strip (cell header row QUANTITY)")
      (auto simp: integer_fullmatch_def is_digit_def)
  with validate_row_raises_iff [OF assms(1,2)] assms(3) py_int_long [OF assms(5)] show ?thesis by blast
qed

lemma long_quantity_raises_witness:
  "validate_row long_row REQUIRED_COLUMNS (map (\<lambda>i. (REQUIRED_COLUMNS ! i, i)) [0..<5]) 2 1024 4096
     = Inl ValueErr"
  by (rule long_quantity_raises [OF header_ok_required required_indexes])
    (use long_row_quantity in \<open>simp_all add: REQUIRED_COLUMNS_def long_row_def\<close>)

text \<open>C19: a table written with every field quoted, encoded in UTF-8 with or without a byte order
  mark and delivered in any chunks of bytes, is validated without an issue, and exactly its rows
  are delivered, in order, numbered from line 2.\<close>

theorem stream_round_trip:
  assumes "check_limits lim = Inr ()" and "14 \<le> max_field_chars lim" and "66 \<le> max_record_chars lim"
    and "list_all (renderable lim) rows" and "rows \<noteq> []"
    and "concat chunks = encode_utf8 (render_table rows) \<or> concat chunks = BOM @ encode_utf8 (render_table rows)"
  shows "\<exists>items. shown items = map Deliver (numbered 2 rows)
    \<and> validate_csv_stream cb lim chunks =
        finally_act (then_act (each_act (dispatch cb) items) (ret (summary (len rows) True))) (cb_close cb)"
proof -
  have sc: "list_all is_scalar (render_table rows)" by (rule render_table_scalars [OF assms(4)])
  have "decode_utf8_sig (concat chunks) = render_table rows"
    using assms(6) decode_sig_encode [OF sc render_table_start] decode_encode_utf8 sc
    by (auto simp: decode_BOM list_all_iff)
  then have t: "stream_text chunks = render_table rows" by (simp add: stream_text_decode)
  let ?ps = "text_pieces (nat TEXT_READ_CHARS) (render_table rows)"
  obtain r items where tr: "csv_trace lim ?ps = (r, items)" by fastforce
  from csv_trace_outcome [OF assms(1) stream_pieces(1) tr]
  have "(shown items, r) = (map Deliver (numbered 2 rows), Inr (summary (len rows) True))"
    by (simp add: stream_pieces csv_outcome_render [OF assms(4,5,2,3)])
  with validate_csv_text_trace [OF tr assms(1), of cb] t show ?thesis
    by (auto simp: validate_csv_stream_def lift_res_def ret_def)
qed

lemma stream_round_trip_witness:
  "\<exists>items. shown items = map Deliver (numbered 2 [sample_row])
    \<and> validate_csv_stream recorder default_limits [BOM, encode_utf8 (render_table [sample_row])] =
        finally_act (then_act (each_act (dispatch recorder) items) (ret (summary (len [sample_row]) True)))
          (cb_close recorder)"
  by (rule stream_round_trip; simp add: default_limits_ok sample_renderable)

text \<open>C22: the optimised splitter, with its lazily counted segments, its flags and its bounded storage,
  yields for every chunking of the text the records of the character-by-character reference
  \<open>split_text\<close>, each stored up to the limits.\<close>

theorem records_are_reference:
  assumes "0 \<le> mx" and "[] \<notin> set chunks"
  shows "yielded (iter_logical_records mx pv chunks) = map (make_record mx pv) (split_text (concat chunks))"
  by (rule iter_logical_records_split [OF assms])

lemma records_are_reference_witness:
  "yielded (iter_logical_records 40 4 [lit ''a,'' @ [34], [13, 10, 34, 13], [10, 98]])
     = map (make_record 40 4) (split_text (concat [lit ''a,'' @ [34], [13, 10, 34, 13], [10, 98]]))"
  by (rule records_are_reference) simp_all

text \<open>C35: splitting loses nothing but, after each record that ends in a carriage return, the one line feed
  that may follow it directly: apart from these the records, put one after another, are the text, character by
  character. Of a record at most \<open>max_record_chars\<close> characters are held: it is stored whole exactly when it is
  not marked as truncated, and its length is counted in every case.\<close>

theorem records_lossless_and_bounded:
  assumes "0 \<le> pv" and "pv \<le> mx" and "[] \<notin> set chunks"
  shows "cuts (split_text (concat chunks)) (concat chunks)
    \<and> list_all2 (\<lambda>rec raw. l_char_count rec = len raw \<and> len (l_text rec) \<le> mx
          \<and> (\<not> l_truncated rec \<longrightarrow> l_text rec = raw)
          \<and> (l_truncated rec \<longrightarrow> mx < len raw \<and> l_text rec = take (nat pv) raw))
        (yielded (iter_logical_records mx pv chunks)) (split_text (concat chunks))"
proof -
  have "take (nat pv) (take (nat mx) raw) = take (nat pv) raw" for raw :: pystr
    using assms(1,2) by (simp add: min_def nat_le_eq_zle)
  then show ?thesis
    using assms split_text_cuts [of "concat chunks"]
    by (auto simp: iter_logical_records_split list_all2_map1 list_all2_same make_record_def stored_text_def)
qed

lemma records_lossless_and_bounded_witness:
  "cuts (split_text (concat [lit ''abcdef'', [13], [10, 98]])) (concat [lit ''abcdef'', [13], [10, 98]])
    \<and> list_all2 (\<lambda>rec raw. l_char_count rec = len raw \<and> len (l_text rec) \<le> 4
          \<and> (\<not> l_truncated rec \<longrightarrow> l_text rec = raw)
          \<and> (l_truncated rec \<longrightarrow> 4 < len raw \<and> l_text rec = take (nat 2) raw))
        (yielded (iter_logical_records 4 2 [lit ''abcdef'', [13], [10, 98]]))
        (split_text (concat [lit ''abcdef'', [13], [10, 98]]))"
  by (rule records_lossless_and_bounded) (simp_all add: lit_def)

text \<open>C34: the splitter and the \<open>csv\<close> module agree on where a record ends: the reader takes every
  record the splitter makes as exactly one row. It never finds a second row, never stops without
  one and never meets a line break in an unquoted field.\<close>

theorem reader_agrees_with_splitter:
  assumes "raw \<in> set (split_text t)" and "reader_next limit (text_lines [] raw) = (x, rest)"
  shows "x \<noteq> StopIteration \<and> x \<noteq> CsvError NewlineInUnquoted \<and> (\<forall>fs. x = Row fs \<longrightarrow> rest = [])"
proof -
  have p: "complete_record raw \<or> open_record raw" by (rule split_text_records [OF assms(1)])
  have "reads (x, rest) (flat_result limit raw reader_reset)"
    using reader_next_record [OF p, of limit] assms(2) by simp
  moreover have "flat_result limit raw reader_reset \<noteq> CsvError NewlineInUnquoted"
    using flat_result_error [OF in_mode_reset] record_rest_ok [OF p] by blast
  ultimately show ?thesis using flat_result_no_stop by (auto simp: reads_def)
qed

lemma reader_agrees_with_splitter_witness:
  "snd (reader_next 20 (text_lines [] [97, 44, 34, 98, 10, 99, 34, 13])) = []"
proof -
  have row: "reader_next 20 (text_lines [] [97, 44, 34, 98, 10, 99, 34, 13]) = (Row [[97], [98, 10, 99]], [])"
    by code_simp
  have "[97, 44, 34, 98, 10, 99, 34, 13] \<in> set (split_text [97, 44, 34, 98, 10, 99, 34, 13, 10, 100])"
    by code_simp
  from reader_agrees_with_splitter [OF this row] row show ?thesis by simp
qed

text \<open>A row written with every field quoted is read back, whatever characters it holds (commas,
  quotation marks and line breaks included), as long as its fields respect the field limit.\<close>

theorem quoted_row_parses:
  assumes "fs \<noteq> []" and "\<forall>f \<in> set fs. len f \<le> limit" and "e = [] \<or> e = [LF] \<or> e = [CR]"
    and "l_text rec = render_fields fs @ e"
  shows "parse_record rec ln limit vl tot = (Some fs, None)"
proof -
  obtain m where m: "mode_run FieldStart (render_fields fs) = Some m" "m \<noteq> Quoted"
    using render_fields_mode [OF assms(1)] by blast
  have nl: "next_mode m LF = None" "next_mode m CR = None"
    using next_mode_newline m(2) by simp_all
  have "render_fields fs \<noteq> []" using m assms(1) by (cases fs; cases "tl fs") (auto simp: quote_field_def)
  then have "complete_record (l_text rec) \<or> open_record (l_text rec)"
    using assms(3,4) m nl by (auto simp: complete_record_def open_record_def)
  then show ?thesis
    using parse_record_flat [of rec ln limit vl tot] flat_result_render [OF assms(1-3)] assms(4) by simp
qed

lemma quoted_row_parses_witness:
  "parse_record \<lparr>l_text = render_fields [[44, 34], [10]] @ [LF], l_char_count = 9, l_truncated = False\<rparr>
     (Some 2) 10 20 20 = (Some [[44, 34], [10]], None)"
  by (rule quoted_row_parses) simp_all

text \<open>C33: a header is accepted exactly when every required column occurs in it exactly once; other
  columns and any order are allowed.\<close>

theorem header_accepted_iff:
  "validate_header header vl tot = []
     \<longleftrightarrow> list_all (\<lambda>c. length (filter (\<lambda>h. h = c) header) = 1) REQUIRED_COLUMNS"
proof -
  have "count_list header c = length (filter (\<lambda>h. h = c) header)" for c
    by (induction header) auto
  then show ?thesis by (simp add: validate_header_ok header_ok_def)
qed

text \<open>C32: under a valid header, a row is accepted exactly when it has as many fields as the header,
  its four texts are not blank and its quantity is a decimal integer within \<open>0 .. 2^63 - 1\<close>; the
  accepted row holds the stripped cells.\<close>

theorem row_accepted_iff:
  assumes "header_ok header" and "column_indexes header = Inr indexes"
  shows "validate_row row header indexes ln vl tot = Inr ([], Some r) \<longleftrightarrow>
    length row = length header \<and> missing_fields header row = []
    \<and> (\<exists>q. integer_fullmatch (strip (cell header row QUANTITY))
          \<and> py_int (strip (cell header row QUANTITY)) = Inr q
          \<and> 0 \<le> q \<and> q < 2 ^ 63 \<and> r = row_of_cells header row ln q)"
proof -
  have "q \<le> POSTGRES_BIGINT_MAX \<longleftrightarrow> q < 2 ^ 63" for q :: int
    using zle_diff1_eq [of q "2 ^ 63"] by (simp add: POSTGRES_BIGINT_MAX_def)
  then show ?thesis using validate_row_accepts_iff [OF assms] by simp
qed

definition sample_cells :: "pystr list" where
  "sample_cells = [[87], [78], [83], [80, 32], [43, 55]]"

lemma row_accepted_iff_witness:
  "validate_row sample_cells REQUIRED_COLUMNS (map (\<lambda>i. (REQUIRED_COLUMNS ! i, i)) [0..<5]) 2 10 20
       = Inr ([], Some (row_of_cells REQUIRED_COLUMNS sample_cells 2 7)) \<longleftrightarrow>
    length sample_cells = length REQUIRED_COLUMNS \<and> missing_fields REQUIRED_COLUMNS sample_cells = []
    \<and> (\<exists>q. integer_fullmatch (strip (cell REQUIRED_COLUMNS sample_cells QUANTITY))
          \<and> py_int (strip (cell REQUIRED_COLUMNS sample_cells QUANTITY)) = Inr q
          \<and> 0 \<le> q \<and> q < 2 ^ 63
          \<and> row_of_cells REQUIRED_COLUMNS sample_cells 2 7 = row_of_cells REQUIRED_COLUMNS sample_cells 2 q)"
  by (rule row_accepted_iff [OF header_ok_required required_indexes])

text \<open>C36: the diagnostic copy of input that goes into an issue respects both limits, for single
  values and in total, and is marked as truncated unless it is the input itself.\<close>

theorem raw_data_bounded_and_marked:
  assumes "list_all (flat_json \<circ> snd) d" and "0 \<le> vl" and "0 \<le> tot"
  shows "(\<forall>t \<in> set (dict_texts (bounded_raw_data d vl tot)). len t \<le> vl)
    \<and> text_total (dict_texts (bounded_raw_data d vl tot)) \<le> tot
    \<and> (bounded_raw_data d vl tot = d \<or> map_of (bounded_raw_data d vl tot) TRUNCATED_KEY = Some (JBool True))"
  using bounded_raw_data_bounds [OF assms(1,3), of vl] bounded_raw_data_complete [of d vl tot] assms(2)
  by simp

definition sample_raw :: "json pydict" where
  "sample_raw = [([120], JStr (lit ''abcdef'')), ([121], JList [JStr [65], JStr [66]])]"

lemma raw_data_bounded_and_marked_witness:
  "text_total (dict_texts (bounded_raw_data sample_raw 4 5)) \<le> 5
    \<and> list_all (\<lambda>t. len t \<le> 4) (dict_texts (bounded_raw_data sample_raw 4 5))"
  using raw_data_bounded_and_marked [of sample_raw 4 5] by (simp add: sample_raw_def list_all_iff)

text \<open>The surrogate check is exact: decoding yields a character of the range it looks for
  exactly when the bytes are not the UTF-8 encoding of any text, and no byte is lost by decoding.\<close>

theorem surrogate_check_exact:
  "(contains_surrogate [decode_utf8 bs] \<longleftrightarrow>
      (\<nexists>t. list_all is_scalar t \<and> bs = encode_utf8 t)) \<and> encode_utf8 (decode_utf8 bs) = bs"
proof -
  have "contains_surrogate [decode_utf8 bs] \<longleftrightarrow> (\<exists>c\<in>set (decode_utf8 bs). is_escape c)"
    by (auto simp: contains_surrogate_def is_escape_def list_ex_iff)
  then show ?thesis using escape_iff_invalid [of bs] encode_decode_utf8 by (simp add: list_all_iff)
qed

text \<open>The raw stream adapter delivers the bytes of the chunks in order and without loss: a
  successful \<open>readinto\<close> returns a prefix of what is left, of at most the requested size, and less
  than that only at the end of the stream.\<close>

theorem readinto_delivers_prefix:
  assumes "readinto sz st = (Inr res, st')"
  shows "res @ io_rest st' = io_rest st \<and> length res \<le> sz \<and> (length res < sz \<longrightarrow> io_rest st' = [])"
  using readinto_spec [OF assms] by blast

lemma readinto_delivers_prefix_witness:
  "[1, 2, 3] @ io_rest \<lparr>io_chunks = [], io_current = [3, 4], io_offset = 1, io_checks = 3, io_fault = (\<lambda>_. False)\<rparr>
      = io_rest (chunk_io_init [[1, 2], [], [3, 4]] (\<lambda>_. False))"
proof -
  have "readinto 3 (chunk_io_init [[1, 2], [], [3, 4]] (\<lambda>_. False))
      = (Inr [1, 2, 3], \<lparr>io_chunks = [], io_current = [3, 4], io_offset = 1, io_checks = 3, io_fault = (\<lambda>_. False)\<rparr>)"
    by (simp add: readinto_def chunk_io_init_def readinto_loop.simps)
  from readinto_delivers_prefix [OF this] show ?thesis by blast
qed

end
