(* ===== verification/Database.thy ===== *)
theory Database
  imports CsvIssues Utf8
begin

text \<open>
  The persistent state: the tables of \<open>app/models.py\<close> with their constraints, and what the services
  use of a database session. A transaction runs its statements on the tables and either commits
  or restores them; each statement and each commit can fail, as the environment decides. The lock
  check \<open>ensure_lock_connection_alive\<close> of \<open>app/services/report_processing.py\<close> is here too.
\<close>

subsection \<open>Tables\<close>

datatype report_status = Pending | Processing | Completed | Failed

record report =
  rp_id :: int
  rp_status :: report_status
  rp_original_filename :: pystr
  rp_object_bucket :: pystr
  rp_object_key :: pystr
  rp_size_bytes :: int
  rp_checksum_sha256 :: "pystr option"
  rp_created_at :: int
  rp_processing_started_at :: "int option"
  rp_finished_at :: "int option"
  rp_row_count :: int
  rp_error_count :: int
  rp_stocks_created :: int
  rp_stocks_updated :: int
  rp_stocks_zeroed :: int
  rp_failure_kind :: "pystr option"
  rp_failure_message :: "pystr option"

text \<open>
  \<open>Warehouse\<close> and \<open>Product\<close> have the same columns but for the name of the unique one
  (\<open>code\<close> and \<open>sku\<close>), which is \<open>ct_code\<close> here.
\<close>

record catalog_entry =
  ct_id :: int
  ct_code :: pystr
  ct_name :: pystr
  ct_created_at :: int
  ct_updated_at :: int

record stock_balance =
  sb_warehouse_id :: int
  sb_product_id :: int
  sb_quantity :: int
  sb_created_at :: int
  sb_updated_at :: int

record staging_row =
  sg_report_id :: int
  sg_line_number :: int
  sg_warehouse_code :: pystr
  sg_warehouse_name :: pystr
  sg_sku :: pystr
  sg_product_name :: pystr
  sg_quantity :: int

record report_error =
  er_id :: int
  er_report_id :: int
  er_line_number :: "int option"
  er_field_name :: "pystr option"
  er_code :: pystr
  er_message :: pystr
  er_raw_data :: "json pydict option"
  er_created_at :: int

record db =
  db_reports :: "report list"
  db_warehouses :: "catalog_entry list"
  db_products :: "catalog_entry list"
  db_stocks :: "stock_balance list"
  db_staging :: "staging_row list"
  db_errors :: "report_error list"

text \<open>The identity columns' sequences: the next values. A rollback does not take values back.\<close>

record sequences =
  sq_reports :: int
  sq_warehouses :: int
  sq_products :: int
  sq_errors :: int

subsection \<open>Constraints\<close>

text \<open>
  PostgreSQL stores neither NUL nor surrogates in \<open>text\<close> and \<open>jsonb\<close>; \<open>bigint\<close> columns hold 64 bits.
\<close>

definition storable :: "pystr \<Rightarrow> bool" where
  "storable t \<longleftrightarrow> list_all (\<lambda>c. is_scalar c \<and> c \<noteq> 0) t"

definition storable_opt :: "pystr option \<Rightarrow> bool" where
  "storable_opt t \<longleftrightarrow> (case t of None \<Rightarrow> True | Some t \<Rightarrow> storable t)"

definition bigint :: "int \<Rightarrow> bool" where
  "bigint n \<longleftrightarrow> - POSTGRES_BIGINT_MAX - 1 \<le> n \<and> n \<le> POSTGRES_BIGINT_MAX"

definition lower_hex :: "int \<Rightarrow> bool" where
  "lower_hex c \<longleftrightarrow> (48 \<le> c \<and> c \<le> 57) \<or> (97 \<le> c \<and> c \<le> 102)"

definition checksum_ok :: "pystr \<Rightarrow> bool" where
  "checksum_ok t \<longleftrightarrow> len t = 64 \<and> list_all lower_hex t"

definition report_ok :: "report \<Rightarrow> bool" where
  "report_ok r \<longleftrightarrow>
     storable (rp_original_filename r) \<and> storable (rp_object_bucket r) \<and> storable (rp_object_key r)
     \<and> bigint (rp_size_bytes r)
     \<and> (case rp_checksum_sha256 r of None \<Rightarrow> True | Some t \<Rightarrow> checksum_ok t)
     \<and> list_all (\<lambda>n. 0 \<le> n \<and> bigint n)
          [rp_row_count r, rp_error_count r, rp_stocks_created r, rp_stocks_updated r, rp_stocks_zeroed r]
     \<and> (case rp_failure_kind r of None \<Rightarrow> True | Some k \<Rightarrow> storable k \<and> len k \<le> 20)
     \<and> storable_opt (rp_failure_message r)"

definition catalog_entry_ok :: "catalog_entry \<Rightarrow> bool" where
  "catalog_entry_ok c \<longleftrightarrow> storable (ct_code c) \<and> storable (ct_name c)"

definition quantity_ok :: "int \<Rightarrow> bool" where
  "quantity_ok q \<longleftrightarrow> 0 \<le> q \<and> bigint q"

definition staging_row_ok :: "staging_row \<Rightarrow> bool" where
  "staging_row_ok s \<longleftrightarrow>
     bigint (sg_line_number s) \<and> storable (sg_warehouse_code s) \<and> storable (sg_warehouse_name s)
     \<and> storable (sg_sku s) \<and> storable (sg_product_name s) \<and> quantity_ok (sg_quantity s)"

definition raw_data_ok :: "json pydict option \<Rightarrow> bool" where
  "raw_data_ok d \<longleftrightarrow>
     (case d of None \<Rightarrow> True | Some d \<Rightarrow> list_all (storable \<circ> fst) d \<and> list_all storable (dict_texts d))"

definition error_ok :: "report_error \<Rightarrow> bool" where
  "error_ok e \<longleftrightarrow>
     (case er_line_number e of None \<Rightarrow> True | Some n \<Rightarrow> bigint n) \<and> storable_opt (er_field_name e)
     \<and> storable (er_code e) \<and> storable (er_message e) \<and> raw_data_ok (er_raw_data e)"

definition catalog_ok :: "catalog_entry list \<Rightarrow> bool" where
  "catalog_ok cs \<longleftrightarrow> distinct (map ct_id cs) \<and> distinct (map ct_code cs) \<and> list_all catalog_entry_ok cs"

definition stock_key :: "stock_balance \<Rightarrow> int \<times> int" where
  "stock_key b = (sb_warehouse_id b, sb_product_id b)"

definition staging_key :: "staging_row \<Rightarrow> int \<times> int" where
  "staging_key s = (sg_report_id s, sg_line_number s)"

definition object_ref :: "report \<Rightarrow> pystr \<times> pystr" where
  "object_ref r = (rp_object_bucket r, rp_object_key r)"

definition reports_ok :: "db \<Rightarrow> bool" where
  "reports_ok d \<longleftrightarrow> distinct (map rp_id (db_reports d)) \<and> distinct (map object_ref (db_reports d))
     \<and> list_all report_ok (db_reports d)"

definition stocks_ok :: "db \<Rightarrow> bool" where
  "stocks_ok d \<longleftrightarrow> distinct (map stock_key (db_stocks d))
     \<and> list_all (\<lambda>b. quantity_ok (sb_quantity b)
          \<and> sb_warehouse_id b \<in> set (map ct_id (db_warehouses d))
          \<and> sb_product_id b \<in> set (map ct_id (db_products d))) (db_stocks d)"

definition staging_ok :: "db \<Rightarrow> bool" where
  "staging_ok d \<longleftrightarrow> distinct (map staging_key (db_staging d))
     \<and> list_all (\<lambda>s. staging_row_ok s \<and> sg_report_id s \<in> set (map rp_id (db_reports d))) (db_staging d)"

definition errors_ok :: "db \<Rightarrow> bool" where
  "errors_ok d \<longleftrightarrow> distinct (map er_id (db_errors d))
     \<and> list_all (\<lambda>e. error_ok e \<and> er_report_id e \<in> set (map rp_id (db_reports d))) (db_errors d)"

definition constraints_ok :: "db \<Rightarrow> bool" where
  "constraints_ok d \<longleftrightarrow> reports_ok d \<and> catalog_ok (db_warehouses d) \<and> catalog_ok (db_products d)
     \<and> stocks_ok d \<and> staging_ok d \<and> errors_ok d"

subsection \<open>Sessions\<close>

text \<open>
  The environment decides, at every interaction (\<open>tick\<close>), whether a statement fails, how a commit
  ends (a commit can take effect without its acknowledgement arriving), the state of the lock
  connection, and the time. \<open>env_collate\<close> is the order of the database's collation.
\<close>

datatype commit_result = Committed | NotCommitted | Unacknowledged
datatype lock_state = LockOpen | LockClosed | LockInvalidated

record env =
  env_fault :: "nat \<Rightarrow> bool"
  env_commit :: "nat \<Rightarrow> commit_result"
  env_lock :: "nat \<Rightarrow> lock_state"
  env_time :: "nat \<Rightarrow> int"
  env_collate :: "pystr \<Rightarrow> pystr \<Rightarrow> bool"

record world =
  w_db :: db
  w_seq :: sequences
  w_now :: int
  w_tick :: nat
  w_env :: env

type_synonym ('x, 'a) proc = "('x world_scheme, 'a) action"

definition tick :: "'x world_scheme \<Rightarrow> 'x world_scheme" where
  "tick w = w\<lparr>w_tick := Suc (w_tick w)\<rparr>"

text \<open>A \<open>SELECT\<close>.\<close>

definition query :: "(db \<Rightarrow> 'a) \<Rightarrow> ('x, 'a) proc" where
  "query f = (\<lambda>w. if env_fault (w_env w) (w_tick w) then (Inl DatabaseErr, tick w)
                  else (Inr (f (w_db w)), tick w))"

text \<open>
  A \<open>SELECT\<close> with values bound to its parameters: the numbers are sent as \<open>bigint\<close> and the texts as \<open>text\<close>, and one
  that does not fit its type is an error of the database.
\<close>

definition bound_query :: "int list \<Rightarrow> pystr list \<Rightarrow> (db \<Rightarrow> 'a) \<Rightarrow> ('x, 'a) proc" where
  "bound_query numbers texts f =
     (if list_all bigint numbers \<and> list_all storable texts then query f else (\<lambda>w. (Inl DatabaseErr, tick w)))"

text \<open>
  A statement that writes: a function of \<open>now()\<close>, the tables and the sequences, \<open>None\<close> when the
  statement itself is in error. Its effect is checked against the constraints.
\<close>

type_synonym statement = "int \<Rightarrow> db \<Rightarrow> sequences \<Rightarrow> (db \<times> sequences) option"

definition execute :: "statement \<Rightarrow> ('x, unit) proc" where
  "execute f = (\<lambda>w.
     if env_fault (w_env w) (w_tick w) then (Inl DatabaseErr, tick w)
     else (case f (w_now w) (w_db w) (w_seq w) of
             None \<Rightarrow> (Inl DatabaseErr, tick w)
           | Some (d, sq) \<Rightarrow>
               if constraints_ok d then (Inr (), (tick w)\<lparr>w_db := d, w_seq := sq\<rparr>)
               else (Inl DatabaseErr, tick w)))"

text \<open>\<open>with session_factory() as session, session.begin(): body\<close>\<close>

definition transaction :: "('x, 'a) proc \<Rightarrow> ('x, 'a) proc" where
  "transaction body = (\<lambda>w.
     case body (w\<lparr>w_now := env_time (w_env w) (w_tick w)\<rparr>) of
       (Inl e, w') \<Rightarrow> (Inl e, w'\<lparr>w_db := w_db w\<rparr>)
     | (Inr a, w') \<Rightarrow>
         (case env_commit (w_env w') (w_tick w') of
            Committed \<Rightarrow> (Inr a, tick w')
          | NotCommitted \<Rightarrow> (Inl DatabaseErr, (tick w')\<lparr>w_db := w_db w\<rparr>)
          | Unacknowledged \<Rightarrow> (Inl DatabaseErr, tick w')))"

text \<open>\<open>ensure_lock_connection_alive\<close>, on the connection that holds the advisory lock.\<close>

definition ensure_lock_connection_alive :: "('x, unit) proc" where
  "ensure_lock_connection_alive = (\<lambda>w.
     if env_lock (w_env w) (w_tick w) = LockClosed \<or> env_lock (w_env w) (w_tick w) = LockInvalidated
     then (Inl LockConnectionLost, tick w)
     else if env_fault (w_env w) (w_tick w) then (Inl LockConnectionLost, tick w)
     else (Inr (), tick w))"

subsection \<open>How sessions act on the tables\<close>

lemma tick_simps [simp]:
  "w_db (tick w) = w_db w" "w_seq (tick w) = w_seq w" "w_env (tick w) = w_env w"
  "w_now (tick w) = w_now w" "w_tick (tick w) = Suc (w_tick w)"
  by (simp_all add: tick_def)

lemma query_Inr: "query f w = (Inr a, w') \<Longrightarrow> a = f (w_db w) \<and> w' = tick w"
  by (auto simp: query_def split: if_splits)

lemma query_db: "query f w = (r, w') \<Longrightarrow> w' = tick w"
  by (auto simp: query_def split: if_splits)

lemma bound_query_Inr:
  "bound_query numbers texts f w = (Inr a, w') \<Longrightarrow> a = f (w_db w) \<and> w' = tick w \<and> list_all bigint numbers \<and> list_all storable texts"
  by (auto simp: bound_query_def dest: query_Inr split: if_splits)

lemma execute_Inr:
  "execute f w = (Inr u, w') \<Longrightarrow>
     \<exists>sq. f (w_now w) (w_db w) (w_seq w) = Some (w_db w', sq) \<and> constraints_ok (w_db w')
       \<and> w' = (tick w)\<lparr>w_db := w_db w', w_seq := sq\<rparr>"
  by (auto simp: execute_def split: if_splits option.splits)

lemma execute_Inl: "execute f w = (Inl e, w') \<Longrightarrow> e = DatabaseErr \<and> w' = tick w"
  by (auto simp: execute_def split: if_splits option.splits)

lemma lock_check_db: "ensure_lock_connection_alive w = (r, w') \<Longrightarrow> w' = tick w"
  by (auto simp: ensure_lock_connection_alive_def split: if_splits)

lemma lock_check_Inl: "ensure_lock_connection_alive w = (Inl e, w') \<Longrightarrow> e = LockConnectionLost"
  by (auto simp: ensure_lock_connection_alive_def split: if_splits)

text \<open>A transaction either leaves the tables as they were or as its body left them.\<close>

lemma transaction_Inr:
  "transaction body w = (Inr a, w') \<Longrightarrow>
     \<exists>w1. body (w\<lparr>w_now := env_time (w_env w) (w_tick w)\<rparr>) = (Inr a, w1) \<and> w' = tick w1"
  by (auto simp: transaction_def split: prod.splits sum.splits commit_result.splits)

lemma transaction_Inl:
  "transaction body w = (Inl e, w') \<Longrightarrow>
     w_db w' = w_db w \<or>
     (\<exists>a w1. body (w\<lparr>w_now := env_time (w_env w) (w_tick w)\<rparr>) = (Inr a, w1) \<and> w_db w' = w_db w1
        \<and> e = DatabaseErr \<and> env_commit (w_env w1) (w_tick w1) = Unacknowledged)"
  by (auto simp: transaction_def split: prod.splits sum.splits commit_result.splits)

definition tables_ok :: "'x world_scheme \<Rightarrow> bool" where
  "tables_ok w \<longleftrightarrow> constraints_ok (w_db w)"

lemma preserves_query [intro, simp]: "preserves tables_ok (query f)"
  by (auto simp: preserves_def query_def tables_ok_def)

lemma preserves_execute [intro, simp]: "preserves tables_ok (execute f)"
  by (auto simp: preserves_def execute_def tables_ok_def split: option.splits)

lemma preserves_lock_check [intro, simp]: "preserves tables_ok ensure_lock_connection_alive"
  by (auto simp: preserves_def ensure_lock_connection_alive_def tables_ok_def)

lemma preserves_transaction [intro]:
  assumes "preserves tables_ok body"
  shows "preserves tables_ok (transaction body)"
proof (rule preservesI)
  fix w :: "'a world_scheme"
  assume ok: "tables_ok w"
  let ?w0 = "w\<lparr>w_now := env_time (w_env w) (w_tick w)\<rparr>"
  have "tables_ok ?w0" using ok by (simp add: tables_ok_def)
  then have "tables_ok (snd (body ?w0))" using assms by (simp add: preserves_def)
  then show "tables_ok (snd (transaction body w))"
    using ok
    by (auto simp: transaction_def tables_ok_def
        split: prod.splits sum.splits commit_result.splits)
qed

end
