(* ===== verification/Sessions.thy ===== *)
theory Sessions
  imports Database
begin

text \<open>
  Reasoning about actions on the database: what is known of the world at a point of an action
  (\<open>at\<close>), how each kind of step moves it, and actions that only look (\<open>silent\<close>).
\<close>

definition at :: "'x world_scheme \<Rightarrow> int \<Rightarrow> db \<Rightarrow> sequences \<Rightarrow> env \<Rightarrow> bool" where
  "at w now d sq e \<longleftrightarrow> w_now w = now \<and> w_db w = d \<and> w_seq w = sq \<and> w_env w = e"

lemma at_self: "at w (w_now w) (w_db w) (w_seq w) (w_env w)"
  by (simp add: at_def)

lemma at_tick [simp]: "at (tick w) now d sq e \<longleftrightarrow> at w now d sq e"
  by (simp add: at_def)

definition silent :: "('x, 'a) proc \<Rightarrow> bool" where
  "silent m \<longleftrightarrow> (\<forall>w now d sq e. at w now d sq e \<longrightarrow> at (snd (m w)) now d sq e)"

lemma silent_ret [simp]: "silent (ret a)"
  by (simp add: silent_def act_simps)

lemma silent_lock_check [simp]: "silent ensure_lock_connection_alive"
  by (simp add: silent_def ensure_lock_connection_alive_def)

lemma silent_query [simp]: "silent (query f)"
  by (simp add: silent_def query_def)

lemma silent_bound_query [simp]: "silent (bound_query numbers texts f)"
  by (simp add: silent_def bound_query_def query_def)

subsection \<open>Steps that returned\<close>

lemma then_silent:
  assumes "then_act n m w = (Inr a, w')" and "at w now d sq e" and "silent n"
  shows "\<exists>w1. at w1 now d sq e \<and> m w1 = (Inr a, w')"
proof -
  obtain u w1 where n: "n w = (Inr u, w1)" "m w1 = (Inr a, w')"
    using assms(1) by (auto simp: then_act_Inr_iff)
  have "at (snd (n w)) now d sq e" using assms(2,3) by (simp add: silent_def)
  with n show ?thesis by auto
qed

lemma bind_query:
  assumes "bind_act (query f) m w = (Inr a, w')" and "at w now d sq e"
  shows "\<exists>w1. at w1 now d sq e \<and> m (f d) w1 = (Inr a, w')"
proof -
  obtain x w1 where q: "query f w = (Inr x, w1)" "m x w1 = (Inr a, w')"
    using assms(1) by (auto simp: bind_act_Inr_iff)
  have "x = f d" "w1 = tick w" using query_Inr [OF q(1)] assms(2) by (auto simp: at_def)
  with q(2) assms(2) show ?thesis by (intro exI [of _ w1]) simp
qed

lemma then_execute:
  assumes "then_act (execute f) m w = (Inr a, w')" and "at w now d sq e" and "f now d sq = Some (d', sq')"
  shows "\<exists>w1. at w1 now d' sq' e \<and> m w1 = (Inr a, w') \<and> constraints_ok d'"
proof -
  obtain u w1 where x: "execute f w = (Inr u, w1)" "m w1 = (Inr a, w')"
    using assms(1) by (auto simp: then_act_Inr_iff)
  from execute_Inr [OF x(1)] assms(2,3)
  have "w_db w1 = d'" "constraints_ok d'" "w1 = (tick w)\<lparr>w_db := d', w_seq := sq'\<rparr>"
    by (auto simp: at_def)
  with x(2) assms(2) show ?thesis by (intro exI [of _ w1]) (simp add: at_def)
qed

subsection \<open>Worlds in which nothing fails any more\<close>

text \<open>Whatever has happened before: from now on no statement, no commit and no check of the lock fails.\<close>

definition calm :: "'x world_scheme \<Rightarrow> bool" where
  "calm w \<longleftrightarrow> (\<forall>n \<ge> w_tick w. \<not> env_fault (w_env w) n \<and> env_commit (w_env w) n = Committed \<and> env_lock (w_env w) n = LockOpen)"

definition calm_at :: "'x world_scheme \<Rightarrow> int \<Rightarrow> db \<Rightarrow> sequences \<Rightarrow> env \<Rightarrow> bool" where
  "calm_at w now d sq e \<longleftrightarrow> at w now d sq e \<and> calm w"

lemma calm_now: "calm w \<Longrightarrow> \<not> env_fault (w_env w) (w_tick w) \<and> env_commit (w_env w) (w_tick w) = Committed
    \<and> env_lock (w_env w) (w_tick w) = LockOpen"
  by (simp add: calm_def)

lemma calm_later: "calm w \<Longrightarrow> w_env w' = w_env w \<Longrightarrow> w_tick w \<le> w_tick w' \<Longrightarrow> calm w'"
  by (simp add: calm_def)

lemma calm_tick [simp]: "calm w \<Longrightarrow> calm (tick w)"
  by (erule calm_later) simp_all

lemma calm_update [simp]: "calm (w\<lparr>w_now := now\<rparr>) = calm w" "calm (w\<lparr>w_db := d\<rparr>) = calm w" "calm (w\<lparr>w_seq := sq\<rparr>) = calm w"
  by (simp_all add: calm_def)

lemma calm_at_tick [simp]: "calm_at w now d sq e \<Longrightarrow> calm_at (tick w) now d sq e"
  by (simp add: calm_at_def)

lemma calm_at_self: "calm w \<Longrightarrow> calm_at w (w_now w) (w_db w) (w_seq w) (w_env w)"
  by (simp add: calm_at_def at_self)

text \<open>An action that only looks, and does not raise when nothing fails any more.\<close>

definition steady :: "('x, unit) proc \<Rightarrow> bool" where
  "steady m \<longleftrightarrow> silent m \<and> (\<forall>w. calm w \<longrightarrow> (\<exists>w'. m w = (Inr (), w') \<and> w_tick w \<le> w_tick w'))"

lemma steady_ret [simp]: "steady (ret ())"
  by (simp add: steady_def act_simps)

lemma steady_lock_check [simp]: "steady ensure_lock_connection_alive"
  unfolding steady_def using silent_lock_check
  by (auto simp: ensure_lock_connection_alive_def dest: calm_now)

lemma calm_steady:
  assumes "steady n" and "calm_at w now d sq e"
  shows "\<exists>w1. calm_at w1 now d sq e \<and> then_act n m w = m w1"
proof -
  obtain w1 where w1: "n w = (Inr (), w1)" "w_tick w \<le> w_tick w1"
    using assms by (auto simp: steady_def calm_at_def)
  have "at (snd (n w)) now d sq e" using assms by (simp add: steady_def silent_def calm_at_def)
  with w1 have "at w1 now d sq e" by simp
  moreover have "w_env w1 = w_env w" using assms(2) calculation by (simp add: calm_at_def at_def)
  ultimately have "calm_at w1 now d sq e"
    using assms(2) w1(2) by (auto simp: calm_at_def intro: calm_later)
  with w1(1) show ?thesis by (auto simp: act_simps)
qed

lemma calm_query:
  assumes "calm_at w now d sq e"
  shows "\<exists>w1. calm_at w1 now d sq e \<and> bind_act (query f) m w = m (f d) w1"
proof -
  have "query f w = (Inr (f d), tick w)"
    using assms calm_now [of w] by (simp add: query_def calm_at_def at_def)
  then show ?thesis using assms by (intro exI [of _ "tick w"]) (simp add: act_simps)
qed

lemma calm_execute:
  assumes "calm_at w now d sq e" and "f now d sq = Some (d', sq')" and "constraints_ok d'"
  shows "\<exists>w1. calm_at w1 now d' sq' e \<and> then_act (execute f) m w = m w1"
proof -
  have "execute f w = (Inr (), (tick w)\<lparr>w_db := d', w_seq := sq'\<rparr>)"
    using assms calm_now [of w] by (simp add: execute_def calm_at_def at_def)
  then show ?thesis
    using assms by (intro exI [of _ "(tick w)\<lparr>w_db := d', w_seq := sq'\<rparr>"]) (simp add: act_simps calm_at_def at_def)
qed

text \<open>A transaction whose body returns.\<close>

lemma calm_transaction:
  assumes "calm_at w now d sq e"
    and "\<And>w0. calm_at w0 (env_time e (w_tick w)) d sq e \<Longrightarrow> w_tick w0 = w_tick w \<Longrightarrow>
      \<exists>w1. body w0 = (Inr a, w1) \<and> calm_at w1 (env_time e (w_tick w)) d' sq' e"
  shows "\<exists>w'. transaction body w = (Inr a, w') \<and> calm_at w' (env_time e (w_tick w)) d' sq' e"
proof -
  have "calm_at (w\<lparr>w_now := env_time (w_env w) (w_tick w)\<rparr>) (env_time e (w_tick w)) d sq e"
    using assms(1) by (simp add: at_def calm_at_def)
  from assms(2) [OF this] obtain w1 where
    b: "body (w\<lparr>w_now := env_time (w_env w) (w_tick w)\<rparr>) = (Inr a, w1)" "calm_at w1 (env_time e (w_tick w)) d' sq' e"
    by auto
  moreover have "env_commit (w_env w1) (w_tick w1) = Committed" using b(2) calm_now [of w1] by (simp add: calm_at_def)
  ultimately show ?thesis by (intro exI [of _ "tick w1"]) (simp add: transaction_def)
qed

subsection \<open>Effects\<close>

text \<open>
  Every run of \<open>m\<close>, whether it returns or raises, relates its states by \<open>R\<close>. Effects that are
  reflexive and transitive compose; those on tables and sequences that, besides, survive a rollback
  of the tables are shown statement by statement.
\<close>

definition moves :: "('s \<Rightarrow> 's \<Rightarrow> bool) \<Rightarrow> ('s, 'a) action \<Rightarrow> bool" where
  "moves R m \<longleftrightarrow> (\<forall>s. R s (snd (m s)))"

lemma movesI: "(\<And>s. R s (snd (m s))) \<Longrightarrow> moves R m"
  by (simp add: moves_def)

lemma movesD: "moves R m \<Longrightarrow> m s = (r, s') \<Longrightarrow> R s s'"
  by (metis moves_def snd_conv)

lemma moves_impI: "(\<And>s r s'. m s = (r, s') \<Longrightarrow> R s s') \<Longrightarrow> moves R m"
  by (metis moves_def prod.collapse)

locale effect =
  fixes R :: "'s \<Rightarrow> 's \<Rightarrow> bool"
  assumes reflexive: "R s s" and transitive: "R s t \<Longrightarrow> R t u \<Longrightarrow> R s u"
begin

lemma moves_pure [intro, simp]: "moves R (ret a)" "moves R (throw e)" "moves R (lift_res r)"
  by (simp_all add: moves_def act_simps reflexive)

lemma moves_if: "moves R m \<Longrightarrow> moves R n \<Longrightarrow> moves R (\<lambda>v. if c v then m v else n v)"
  by (simp add: moves_def)

lemma moves_bind [intro]:
  assumes "moves R m" and "\<And>a. moves R (f a)"
  shows "moves R (bind_act m f)"
proof (rule moves_impI)
  fix s r s'
  assume run: "bind_act m f s = (r, s')"
  obtain r1 s1 where m: "m s = (r1, s1)" by fastforce
  with run movesD [OF assms(1) m] movesD [OF assms(2)] show "R s s'"
    by (cases r1) (auto simp: act_simps intro: transitive)
qed

lemma moves_then [intro]: "moves R m \<Longrightarrow> moves R n \<Longrightarrow> moves R (then_act m n)"
  by (simp add: then_act_def moves_bind)

lemma moves_catch [intro]:
  assumes "moves R m" and "\<And>e. moves R (h e)"
  shows "moves R (catch_act m h)"
proof (rule moves_impI)
  fix s r s'
  assume run: "catch_act m h s = (r, s')"
  obtain r1 s1 where m: "m s = (r1, s1)" by fastforce
  with run movesD [OF assms(1) m] movesD [OF assms(2)] show "R s s'"
    by (cases r1) (auto simp: act_simps intro: transitive)
qed

lemma moves_finally [intro]:
  assumes "moves R m" and "moves R c"
  shows "moves R (finally_act m c)"
proof (rule moves_impI)
  fix s r s'
  assume run: "finally_act m c s = (r, s')"
  obtain r1 s1 r2 s2 where m: "m s = (r1, s1)" "c s1 = (r2, s2)" by fastforce
  with run movesD [OF assms(1) m(1)] movesD [OF assms(2) m(2)] show "R s s'"
    by (cases r2) (auto simp: act_simps intro: transitive)
qed

lemma moves_each [intro]: "(\<And>x. moves R (f x)) \<Longrightarrow> moves R (each_act f xs)"
  by (induction xs) auto

end

type_synonym table_relation = "db \<Rightarrow> sequences \<Rightarrow> db \<Rightarrow> sequences \<Rightarrow> bool"

definition on_tables :: "table_relation \<Rightarrow> 'x world_scheme \<Rightarrow> 'x world_scheme \<Rightarrow> bool" where
  "on_tables R = (\<lambda>w w'. R (w_db w) (w_seq w) (w_db w') (w_seq w'))"

definition statement_moves :: "table_relation \<Rightarrow> statement \<Rightarrow> bool" where
  "statement_moves R f \<longleftrightarrow>
     (\<forall>now d sq d' sq'. f now d sq = Some (d', sq') \<longrightarrow> constraints_ok d' \<longrightarrow> R d sq d' sq')"

lemma statement_movesI:
  "(\<And>now d sq d' sq'. f now d sq = Some (d', sq') \<Longrightarrow> constraints_ok d' \<Longrightarrow> R d sq d' sq') \<Longrightarrow> statement_moves R f"
  by (simp add: statement_moves_def)

locale table_effect =
  fixes R :: table_relation
  assumes table_refl: "R d sq d sq"
    and table_trans: "R d sq d' sq' \<Longrightarrow> R d' sq' d'' sq'' \<Longrightarrow> R d sq d'' sq''"
    and table_rollback: "R d sq d' sq' \<Longrightarrow> R d sq d sq'"

sublocale table_effect \<subseteq> effect "on_tables R"
  by unfold_locales (auto simp: on_tables_def intro: table_refl table_trans)

context table_effect begin

lemma moves_silent [intro]: "silent m \<Longrightarrow> moves (on_tables R) m"
  by (auto simp: moves_def silent_def at_def on_tables_def table_refl)

lemma moves_after:
  assumes "\<And>x. moves (on_tables R) (m x)" and "\<And>v. w_db (g v) = w_db v \<and> w_seq (g v) = w_seq v"
  shows "moves (on_tables R) (\<lambda>v. m (h v) (g v))"
proof -
  have "on_tables R (g v) (snd (m (h v) (g v)))" for v using assms(1) [of "h v"] by (simp add: moves_def)
  then show ?thesis by (simp add: moves_def on_tables_def assms(2))
qed

lemma moves_query [intro, simp]: "moves (on_tables R) (query f)"
  by (rule moves_silent) simp

lemma moves_bound_query [intro, simp]: "moves (on_tables R) (bound_query numbers texts f)"
  by (rule moves_silent) simp

lemma moves_lock_check [intro, simp]: "moves (on_tables R) ensure_lock_connection_alive"
  by (rule moves_silent) simp

lemma moves_execute [intro]: "statement_moves R f \<Longrightarrow> moves (on_tables R) (execute f)"
  unfolding moves_def on_tables_def statement_moves_def execute_def
  by (auto simp: table_refl split: option.split)

lemma moves_transaction [intro]:
  assumes "moves (on_tables R) body"
  shows "moves (on_tables R) (transaction body)"
proof (rule moves_impI)
  fix w :: "'a world_scheme" and r w'
  assume run: "transaction body w = (r, w')"
  let ?w0 = "w\<lparr>w_now := env_time (w_env w) (w_tick w)\<rparr>"
  obtain r1 w1 where b: "body ?w0 = (r1, w1)" by fastforce
  have "R (w_db w) (w_seq w) (w_db w1) (w_seq w1)"
    using movesD [OF assms b] by (simp add: on_tables_def)
  with run b table_rollback show "on_tables R w w'"
    by (auto simp: transaction_def on_tables_def split: sum.splits commit_result.splits)
qed

end

subsection \<open>The invariant of the persistent state\<close>

text \<open>
  The constraints hold, and every identity value in use lies below its sequence. Sequences only
  grow, also through rollbacks, so the invariant survives every outcome of a transaction.
\<close>

definition sequences_ok :: "db \<Rightarrow> sequences \<Rightarrow> bool" where
  "sequences_ok d sq \<longleftrightarrow>
     list_all (\<lambda>r. rp_id r < sq_reports sq) (db_reports d)
     \<and> list_all (\<lambda>c. ct_id c < sq_warehouses sq) (db_warehouses d)
     \<and> list_all (\<lambda>c. ct_id c < sq_products sq) (db_products d)
     \<and> list_all (\<lambda>e. er_id e < sq_errors sq) (db_errors d)"

definition seq_le :: "sequences \<Rightarrow> sequences \<Rightarrow> bool" where
  "seq_le a b \<longleftrightarrow> sq_reports a \<le> sq_reports b \<and> sq_warehouses a \<le> sq_warehouses b
     \<and> sq_products a \<le> sq_products b \<and> sq_errors a \<le> sq_errors b"

definition world_ok :: "'x world_scheme \<Rightarrow> bool" where
  "world_ok w \<longleftrightarrow> constraints_ok (w_db w) \<and> sequences_ok (w_db w) (w_seq w)"

text \<open>The invariant as an effect.\<close>

definition keeping :: table_relation where
  "keeping d sq d' sq' \<longleftrightarrow> (constraints_ok d \<and> sequences_ok d sq \<longrightarrow>
     constraints_ok d' \<and> sequences_ok d' sq' \<and> seq_le sq sq')"

abbreviation keeps :: "('x, 'a) proc \<Rightarrow> bool" where
  "keeps \<equiv> moves (on_tables keeping)"

lemma seq_le_refl [simp]: "seq_le sq sq"
  by (simp add: seq_le_def)

lemma seq_le_trans: "seq_le a b \<Longrightarrow> seq_le b c \<Longrightarrow> seq_le a c"
  by (simp add: seq_le_def)

lemma sequences_ok_mono: "sequences_ok d sq \<Longrightarrow> seq_le sq sq' \<Longrightarrow> sequences_ok d sq'"
  by (force simp: sequences_ok_def seq_le_def list_all_iff)

interpretation keeping: table_effect keeping
  by unfold_locales (auto simp: keeping_def intro: seq_le_trans sequences_ok_mono)

lemma keepsD: "keeps m \<Longrightarrow> world_ok w \<Longrightarrow> m w = (r, w') \<Longrightarrow> world_ok w' \<and> seq_le (w_seq w) (w_seq w')"
  using movesD [of "on_tables keeping" m w r w'] by (simp add: on_tables_def keeping_def world_ok_def)

text \<open>A statement keeps the sequences ahead of the identity values; the constraints are checked.\<close>

abbreviation statement_ok :: "statement \<Rightarrow> bool" where
  "statement_ok \<equiv> statement_moves keeping"

lemma statement_okI:
  "(\<And>now d sq d' sq'. sequences_ok d sq \<Longrightarrow> f now d sq = Some (d', sq') \<Longrightarrow> sequences_ok d' sq' \<and> seq_le sq sq') \<Longrightarrow>
     statement_ok f"
  by (rule statement_movesI) (auto simp: keeping_def)

end
