(* ===== verification/Catalog.thy ===== *)
theory Catalog
  imports Sessions
begin

text \<open>
  The warehouse and product catalogs of \<open>app/services/apply_report.py\<close>: the \<open>INSERT ... SELECT DISTINCT
  ON ... ON CONFLICT DO UPDATE\<close> statements of \<open>_upsert_warehouses\<close> and \<open>_upsert_products\<close>. The locale
  \<open>catalog\<close> states what the two have in common; the lemmas proved in it hold for both.
\<close>

text \<open>The staging rows of a report.\<close>

definition staged :: "db \<Rightarrow> int \<Rightarrow> staging_row list" where
  "staged d report_id = filter (\<lambda>s. sg_report_id s = report_id) (db_staging d)"

subsection \<open>The source of the statement\<close>

text \<open>Sorting by the collation, whatever relation it is.\<close>

fun insert_by :: "('a \<Rightarrow> 'a \<Rightarrow> bool) \<Rightarrow> 'a \<Rightarrow> 'a list \<Rightarrow> 'a list" where
  "insert_by le x [] = [x]"
| "insert_by le x (y # ys) = (if le x y then x # y # ys else y # insert_by le x ys)"

definition sort_by :: "('a \<Rightarrow> 'a \<Rightarrow> bool) \<Rightarrow> 'a list \<Rightarrow> 'a list" where
  "sort_by le xs = foldr (insert_by le) xs []"

lemma set_insert_by [simp]: "set (insert_by le x xs) = insert x (set xs)"
  by (induction xs) auto

lemma distinct_insert_by [simp]: "distinct (insert_by le x xs) \<longleftrightarrow> x \<notin> set xs \<and> distinct xs"
  by (induction xs) auto

lemma set_sort_by [simp]: "set (sort_by le xs) = set xs"
  by (induction xs) (simp_all add: sort_by_def)

lemma distinct_sort_by [simp]: "distinct (sort_by le xs) = distinct xs"
proof (induction xs)
  case (Cons x xs)
  then show ?case using set_sort_by [of le xs] by (simp add: sort_by_def)
qed (simp add: sort_by_def)

text \<open>\<open>DISTINCT ON (key) ... ORDER BY key, line_number DESC\<close>: the row with the largest line number.\<close>

fun latest_row :: "staging_row list \<Rightarrow> staging_row option" where
  "latest_row [] = None"
| "latest_row (s # ss) =
     (case latest_row ss of
        None \<Rightarrow> Some s
      | Some t \<Rightarrow> Some (if sg_line_number t < sg_line_number s then s else t))"

definition latest_name ::
  "(staging_row \<Rightarrow> pystr) \<Rightarrow> (staging_row \<Rightarrow> pystr) \<Rightarrow> staging_row list \<Rightarrow> pystr \<Rightarrow> pystr option" where
  "latest_name key name rows k = map_option name (latest_row (filter (\<lambda>s. key s = k) rows))"

definition distinct_on ::
  "(pystr \<Rightarrow> pystr \<Rightarrow> bool) \<Rightarrow> (staging_row \<Rightarrow> pystr) \<Rightarrow> (staging_row \<Rightarrow> pystr) \<Rightarrow> staging_row list
     \<Rightarrow> (pystr \<times> pystr) list" where
  "distinct_on le key name rows =
     concat (map (\<lambda>k. case latest_name key name rows k of None \<Rightarrow> [] | Some n \<Rightarrow> [(k, n)])
       (sort_by le (remdups (map key rows))))"

lemma latest_row_None [simp]: "latest_row rows = None \<longleftrightarrow> rows = []"
  by (cases rows) (auto split: option.splits)

lemma latest_row_max:
  "latest_row rows = Some s \<Longrightarrow> s \<in> set rows \<and> (\<forall>t \<in> set rows. sg_line_number t \<le> sg_line_number s)"
  by (induction rows arbitrary: s) (fastforce split: option.splits if_splits)+

lemma latest_name_None: "latest_name key name rows k = None \<longleftrightarrow> k \<notin> key ` set rows"
  by (auto simp: latest_name_def filter_empty_conv)

lemma distinct_on_keys:
  "map fst (distinct_on le key name rows) = sort_by le (remdups (map key rows))"
proof -
  have "map fst (concat (map (\<lambda>k. case latest_name key name rows k of None \<Rightarrow> [] | Some n \<Rightarrow> [(k, n)]) ks)) = ks"
    if "set ks \<subseteq> key ` set rows" for ks
    using that by (induction ks) (auto split: option.splits simp: latest_name_None)
  then show ?thesis unfolding distinct_on_def by simp
qed

lemma distinct_on_distinct: "distinct (map fst (distinct_on le key name rows))"
  by (simp add: distinct_on_keys)

lemma distinct_on_dom: "fst ` set (distinct_on le key name rows) = key ` set rows"
  using arg_cong [OF distinct_on_keys [of le key name rows], of set] by simp

lemma map_of_distinct_on: "map_of (distinct_on le key name rows) k = latest_name key name rows k"
proof (cases "latest_name key name rows k")
  case None
  then have "k \<notin> fst ` set (distinct_on le key name rows)"
    by (simp add: distinct_on_dom latest_name_None)
  with None show ?thesis by (simp add: map_of_eq_None_iff)
next
  case (Some n)
  then have "k \<in> key ` set rows" using latest_name_None [of key name rows k] by auto
  with Some have "(k, n) \<in> set (distinct_on le key name rows)"
    by (auto simp: distinct_on_def) (metis option.simps(5) list.set_intros(1))
  with Some show ?thesis by (simp add: distinct_on_distinct)
qed

subsection \<open>The upsert\<close>

text \<open>
  One source row after another, as the executor does: a new entry takes the next identity value;
  an existing entry is changed only where its name is distinct. The identity value is drawn for
  every source row, before the conflict is found.
\<close>

definition entry_of :: "catalog_entry list \<Rightarrow> pystr \<Rightarrow> catalog_entry option" where
  "entry_of rows k = find (\<lambda>c. ct_code c = k) rows"

definition rename_entry :: "int \<Rightarrow> pystr \<Rightarrow> pystr \<Rightarrow> catalog_entry \<Rightarrow> catalog_entry" where
  "rename_entry now k n c =
     (if ct_code c = k \<and> ct_name c \<noteq> n then c\<lparr>ct_name := n, ct_updated_at := now\<rparr> else c)"

definition upsert_entry ::
  "int \<Rightarrow> pystr \<Rightarrow> pystr \<Rightarrow> catalog_entry list \<times> int \<Rightarrow> catalog_entry list \<times> int" where
  "upsert_entry now k n = (\<lambda>(rows, next_id).
     (case entry_of rows k of
        None \<Rightarrow> rows @ [\<lparr>ct_id = next_id, ct_code = k, ct_name = n, ct_created_at = now,
                           ct_updated_at = now\<rparr>]
      | Some _ \<Rightarrow> map (rename_entry now k n) rows,
      next_id + 1))"

fun upsert_entries ::
  "int \<Rightarrow> (pystr \<times> pystr) list \<Rightarrow> catalog_entry list \<times> int \<Rightarrow> catalog_entry list \<times> int" where
  "upsert_entries now [] table = table"
| "upsert_entries now ((k, n) # source) table = upsert_entries now source (upsert_entry now k n table)"

definition upsert_warehouses :: "(pystr \<Rightarrow> pystr \<Rightarrow> bool) \<Rightarrow> int \<Rightarrow> statement" where
  "upsert_warehouses le report_id = (\<lambda>now d sq.
     let (rows, next_id) = upsert_entries now
           (distinct_on le sg_warehouse_code sg_warehouse_name (staged d report_id))
           (db_warehouses d, sq_warehouses sq)
     in Some (d\<lparr>db_warehouses := rows\<rparr>, sq\<lparr>sq_warehouses := next_id\<rparr>))"

definition upsert_products :: "(pystr \<Rightarrow> pystr \<Rightarrow> bool) \<Rightarrow> int \<Rightarrow> statement" where
  "upsert_products le report_id = (\<lambda>now d sq.
     let (rows, next_id) = upsert_entries now
           (distinct_on le sg_sku sg_product_name (staged d report_id))
           (db_products d, sq_products sq)
     in Some (d\<lparr>db_products := rows\<rparr>, sq\<lparr>sq_products := next_id\<rparr>))"

subsection \<open>What an upsert does to a catalog\<close>

definition id_of :: "catalog_entry list \<Rightarrow> pystr \<Rightarrow> int option" where
  "id_of rows k = map_option ct_id (entry_of rows k)"

definition name_of :: "catalog_entry list \<Rightarrow> pystr \<Rightarrow> pystr option" where
  "name_of rows k = map_option ct_name (entry_of rows k)"

definition ids_below :: "int \<Rightarrow> catalog_entry list \<Rightarrow> bool" where
  "ids_below n rows \<longleftrightarrow> list_all (\<lambda>c. ct_id c < n) rows"

lemma entry_of_simps [simp]:
  "entry_of [] k = None"
  "entry_of (c # rows) k = (if ct_code c = k then Some c else entry_of rows k)"
  by (simp_all add: entry_of_def)

lemma entry_of_append:
  "entry_of (xs @ ys) k = (case entry_of xs k of None \<Rightarrow> entry_of ys k | Some c \<Rightarrow> Some c)"
  by (induction xs) auto

lemma entry_of_None: "entry_of rows k = None \<longleftrightarrow> k \<notin> ct_code ` set rows"
  by (induction rows) auto

lemma entry_of_Some: "entry_of rows k = Some c \<Longrightarrow> c \<in> set rows \<and> ct_code c = k"
  by (induction rows) (auto split: if_splits)

lemma rename_entry_simps [simp]:
  "ct_id (rename_entry now k n c) = ct_id c" "ct_code (rename_entry now k n c) = ct_code c"
  "ct_name (rename_entry now k n c) = (if ct_code c = k then n else ct_name c)"
  by (simp_all add: rename_entry_def)

lemma entry_of_rename:
  "entry_of (map (rename_entry now k n) rows) k' = map_option (rename_entry now k n) (entry_of rows k')"
  by (induction rows) auto

lemma rename_entry_ok: "catalog_entry_ok c \<Longrightarrow> storable n \<Longrightarrow> catalog_entry_ok (rename_entry now k n c)"
  by (simp add: catalog_entry_ok_def)

lemma catalog_ok_simps:
  "catalog_ok (map (rename_entry now k n) rows) \<longleftrightarrow>
     distinct (map ct_id rows) \<and> distinct (map ct_code rows)
     \<and> list_all (\<lambda>c. catalog_entry_ok (rename_entry now k n c)) rows"
  by (simp add: catalog_ok_def comp_def list_all_iff)

lemma upsert_entry_names:
  "name_of (fst (upsert_entry now k n table)) k' = (if k' = k then Some n else name_of (fst table) k')"
  by (auto simp: upsert_entry_def name_of_def entry_of_append entry_of_rename
      split: prod.split option.splits dest: entry_of_Some)

lemma upsert_entry_ids:
  "id_of (fst table) k' = Some i \<Longrightarrow> id_of (fst (upsert_entry now k n table)) k' = Some i"
  by (auto simp: upsert_entry_def id_of_def entry_of_append entry_of_rename split: prod.split option.splits)

lemma upsert_entry_codes:
  "ct_code ` set (fst (upsert_entry now k n table)) = insert k (ct_code ` set (fst table))"
  by (auto simp: upsert_entry_def image_image split: prod.split option.splits dest: entry_of_Some)

lemma upsert_entry_id_set: "ct_id ` set (fst table) \<subseteq> ct_id ` set (fst (upsert_entry now k n table))"
  by (auto simp: upsert_entry_def image_image split: prod.split option.splits)

definition table_ok :: "catalog_entry list \<times> int \<Rightarrow> bool" where
  "table_ok table \<longleftrightarrow> catalog_ok (fst table) \<and> ids_below (snd table) (fst table)"

lemma upsert_entry_ok:
  assumes "table_ok table" and "storable k" and "storable n"
  shows "table_ok (upsert_entry now k n table)"
proof -
  obtain rows next_id where t: "table = (rows, next_id)" by fastforce
  have ok: "catalog_ok rows" "ids_below next_id rows" using assms(1) by (simp_all add: t table_ok_def)
  show ?thesis
  proof (cases "entry_of rows k")
    case None
    then have "k \<notin> ct_code ` set rows" by (simp add: entry_of_None)
    moreover have "next_id \<notin> ct_id ` set rows" using ok(2) by (auto simp: ids_below_def list_all_iff)
    ultimately show ?thesis using None ok assms(2,3)
      by (auto simp: t table_ok_def upsert_entry_def catalog_ok_def catalog_entry_ok_def ids_below_def list_all_iff)
  next
    case (Some c)
    then show ?thesis using ok assms(2,3)
      by (auto simp: t table_ok_def upsert_entry_def catalog_ok_simps)
        (auto simp: catalog_ok_def ids_below_def list_all_iff rename_entry_ok)
  qed
qed

lemma upsert_entries_names:
  "name_of (fst (upsert_entries now source table)) k
     = (case map_of (rev source) k of None \<Rightarrow> name_of (fst table) k | Some n \<Rightarrow> Some n)"
  by (induction now source table rule: upsert_entries.induct)
    (auto simp: upsert_entry_names map_add_def split: option.splits)

lemma upsert_entries_ids:
  "id_of (fst table) k = Some i \<Longrightarrow> id_of (fst (upsert_entries now source table)) k = Some i"
  by (induction now source table rule: upsert_entries.induct) (simp_all add: upsert_entry_ids)

lemma upsert_entries_codes:
  "ct_code ` set (fst (upsert_entries now source table)) = ct_code ` set (fst table) \<union> fst ` set source"
  by (induction now source table rule: upsert_entries.induct) (simp_all add: upsert_entry_codes)

lemma upsert_entries_id_set:
  "ct_id ` set (fst table) \<subseteq> ct_id ` set (fst (upsert_entries now source table))"
proof (induction now source table rule: upsert_entries.induct)
  case (2 now k n source table)
  then show ?case using upsert_entry_id_set [of table now k n] by (simp add: order_trans)
qed simp

lemma upsert_entries_ok:
  "table_ok table \<Longrightarrow> list_all (\<lambda>(k, n). storable k \<and> storable n) source \<Longrightarrow>
     table_ok (upsert_entries now source table)"
  by (induction now source table rule: upsert_entries.induct) (auto simp: upsert_entry_ok)

text \<open>An entry whose code is not among the source keys, or has the name already, is left as it is.\<close>

lemma upsert_entry_unchanged:
  "entry_of (fst table) k' = Some c \<Longrightarrow> k' \<noteq> k \<or> ct_name c = n \<Longrightarrow>
     entry_of (fst (upsert_entry now k n table)) k' = Some c"
proof -
  assume e: "entry_of (fst table) k' = Some c" and k: "k' \<noteq> k \<or> ct_name c = n"
  obtain rows next_id where t: "table = (rows, next_id)" by fastforce
  have c: "ct_code c = k'" using entry_of_Some [OF e] by simp
  have "rename_entry now k n c = c" using k c by (auto simp: rename_entry_def)
  with e t show ?thesis
    by (cases "entry_of rows k") (simp_all add: upsert_entry_def entry_of_append entry_of_rename)
qed

lemma upsert_entries_unchanged:
  "entry_of (fst table) k = Some c \<Longrightarrow> (\<And>n. (k, n) \<in> set source \<Longrightarrow> ct_name c = n) \<Longrightarrow>
     entry_of (fst (upsert_entries now source table)) k = Some c"
proof (induction now source table rule: upsert_entries.induct)
  case (2 now k1 n source table)
  have "k \<noteq> k1 \<or> ct_name c = n" using "2.prems"(2) [of n] by auto
  with upsert_entry_unchanged [OF "2.prems"(1)] 2 show ?case by simp
qed simp

text \<open>New entries have identity values from the sequence, hence new ones.\<close>

lemma upsert_entry_new_id:
  "id_of (fst (upsert_entry now k n table)) k' = Some i \<Longrightarrow> id_of (fst table) k' = Some i \<or> i = snd table"
  by (auto simp: upsert_entry_def id_of_def entry_of_append entry_of_rename
      split: prod.splits option.splits if_splits)

lemma upsert_entries_new_ids:
  "id_of (fst (upsert_entries now source table)) k = Some i \<Longrightarrow>
     id_of (fst table) k = Some i \<or> snd table \<le> i"
proof (induction now source table rule: upsert_entries.induct)
  case (2 now k1 n source table)
  have "snd (upsert_entry now k1 n table) = snd table + 1"
    by (simp add: upsert_entry_def split: prod.split)
  with 2 upsert_entry_new_id [of now k1 n table k i] show ?case by auto
qed simp

lemma id_of_Some_iff: "(\<exists>i. id_of rows k = Some i) \<longleftrightarrow> k \<in> ct_code ` set rows"
  by (metis entry_of_None id_of_def not_None_eq option.map_disc_iff)

lemma id_of_in: "id_of rows k = Some i \<Longrightarrow> i \<in> ct_id ` set rows"
  by (auto simp: id_of_def dest: entry_of_Some)

lemma id_of_unique:
  assumes "catalog_ok rows" and "c \<in> set rows"
  shows "id_of rows (ct_code c) = Some (ct_id c)" and "entry_of rows (ct_code c) = Some c"
proof -
  obtain c' where "entry_of rows (ct_code c) = Some c'"
    using assms(2) entry_of_None [of rows "ct_code c"] by blast
  moreover have "c' = c"
    using entry_of_Some [OF calculation] assms by (auto simp: catalog_ok_def distinct_map inj_on_def)
  ultimately show "id_of rows (ct_code c) = Some (ct_id c)" "entry_of rows (ct_code c) = Some c"
    by (simp_all add: id_of_def)
qed

lemma id_of_inj:
  assumes "catalog_ok rows" and "id_of rows k = Some i" and "id_of rows k' = Some i"
  shows "k = k'"
proof -
  obtain c c' where "c \<in> set rows" "ct_code c = k" "ct_id c = i" "c' \<in> set rows" "ct_code c' = k'" "ct_id c' = i"
    using assms(2,3) by (auto simp: id_of_def dest!: entry_of_Some)
  with assms(1) show ?thesis by (auto simp: catalog_ok_def distinct_map inj_on_def)
qed

lemma filter_code:
  "distinct (map ct_code rows) \<Longrightarrow>
     filter (\<lambda>c. ct_code c = k) rows = (case entry_of rows k of None \<Rightarrow> [] | Some c \<Rightarrow> [c])"
proof (induction rows)
  case (Cons c rows)
  then show ?case
    using entry_of_None [of rows k] by (auto split: option.splits)
qed simp

subsection \<open>The interface both upserts provide\<close>

locale catalog =
  fixes entries :: "db \<Rightarrow> catalog_entry list"
    and next_id :: "sequences \<Rightarrow> int"
    and upsert :: "(pystr \<Rightarrow> pystr \<Rightarrow> bool) \<Rightarrow> int \<Rightarrow> statement"
    and key :: "staging_row \<Rightarrow> pystr"
    and name :: "staging_row \<Rightarrow> pystr"
  assumes upsert_entries: "upsert le rid now d sq = Some (d', sq') \<Longrightarrow>
      (entries d', next_id sq')
        = upsert_entries now (distinct_on le key name (staged d rid)) (entries d, next_id sq)"
    and storable_fields: "staging_row_ok s \<Longrightarrow> storable (key s) \<and> storable (name s)"
begin

lemma upsert_table:
  assumes "upsert le rid now d sq = Some (d', sq')"
  shows "entries d' = fst (upsert_entries now (distinct_on le key name (staged d rid)) (entries d, next_id sq))"
    and "next_id sq' = snd (upsert_entries now (distinct_on le key name (staged d rid)) (entries d, next_id sq))"
  using upsert_entries [OF assms] by (metis fst_conv, metis snd_conv)

lemma upsert_names:
  assumes "upsert le rid now d sq = Some (d', sq')"
  shows "name_of (entries d') k =
    (case latest_name key name (staged d rid) k of None \<Rightarrow> name_of (entries d) k | Some n \<Rightarrow> Some n)"
proof -
  have "map_of (rev (distinct_on le key name rows)) = map_of (distinct_on le key name rows)" for rows
    by (rule map_of_inject_set [THEN iffD2]) (simp_all add: distinct_on_distinct rev_map [symmetric])
  then show ?thesis
    by (simp add: upsert_table(1) [OF assms] upsert_entries_names map_of_distinct_on split: option.split)
qed

lemma upsert_ids:
  assumes "upsert le rid now d sq = Some (d', sq')" and "id_of (entries d) k = Some i"
  shows "id_of (entries d') k = Some i"
  using assms(2) by (simp add: upsert_table(1) [OF assms(1)] upsert_entries_ids)

lemma upsert_codes:
  assumes "upsert le rid now d sq = Some (d', sq')"
  shows "ct_code ` set (entries d') = ct_code ` set (entries d) \<union> key ` set (staged d rid)"
  by (simp add: upsert_table(1) [OF assms] upsert_entries_codes distinct_on_dom)

lemma upsert_new_ids:
  assumes "upsert le rid now d sq = Some (d', sq')" and "id_of (entries d') k = Some i"
  shows "id_of (entries d) k = Some i \<or> next_id sq \<le> i"
  using upsert_entries_new_ids [of now "distinct_on le key name (staged d rid)" "(entries d, next_id sq)" k i]
    assms(2) by (simp add: upsert_table(1) [OF assms(1)])

lemma upsert_covers:
  assumes "upsert le rid now d sq = Some (d', sq')" and "s \<in> set (staged d rid)"
  shows "\<exists>i. id_of (entries d') (key s) = Some i"
  using assms(2) by (simp add: id_of_Some_iff upsert_codes [OF assms(1)])

lemma upsert_id_set:
  assumes "upsert le rid now d sq = Some (d', sq')"
  shows "ct_id ` set (entries d) \<subseteq> ct_id ` set (entries d')"
  using upsert_entries_id_set [of "(entries d, next_id sq)"] by (simp add: upsert_table(1) [OF assms])

lemma upsert_ok:
  assumes "upsert le rid now d sq = Some (d', sq')" and "table_ok (entries d, next_id sq)"
    and "list_all staging_row_ok (db_staging d)"
  shows "table_ok (entries d', next_id sq')"
proof -
  have row: "storable (key s) \<and> storable (name s)" if "s \<in> set (staged d rid)" for s
    using that assms(3) storable_fields by (auto simp: staged_def list_all_iff)
  have "storable k \<and> storable n" if "(k, n) \<in> set (distinct_on le key name (staged d rid))" for k n
  proof -
    have "map_of (distinct_on le key name (staged d rid)) k = Some n"
      using that by (simp add: distinct_on_distinct)
    then obtain s where "latest_row (filter (\<lambda>s. key s = k) (staged d rid)) = Some s" "n = name s"
      by (auto simp: map_of_distinct_on latest_name_def)
    with latest_row_max [of "filter (\<lambda>s. key s = k) (staged d rid)" s] row show ?thesis by auto
  qed
  then show ?thesis
    using upsert_entries_ok [OF assms(2), of "distinct_on le key name (staged d rid)" now]
    by (auto simp: upsert_entries [OF assms(1), symmetric] list_all_iff)
qed

end

interpretation warehouses: catalog db_warehouses sq_warehouses upsert_warehouses
    sg_warehouse_code sg_warehouse_name
  by unfold_locales (auto simp: upsert_warehouses_def staging_row_ok_def split: prod.splits)

interpretation products: catalog db_products sq_products upsert_products sg_sku sg_product_name
  by unfold_locales (auto simp: upsert_products_def staging_row_ok_def split: prod.splits)

text \<open>Both are statements that keep the sequences ahead of the identity values.\<close>

lemma upsert_entries_below:
  "ids_below (snd table) (fst table) \<Longrightarrow>
     ids_below (snd (upsert_entries now source table)) (fst (upsert_entries now source table))
     \<and> snd table \<le> snd (upsert_entries now source table)"
proof (induction now source table rule: upsert_entries.induct)
  case (2 now k n source table)
  let ?t = "upsert_entry now k n table"
  have t: "ids_below (snd ?t) (fst ?t)" "snd table \<le> snd ?t"
    using "2.prems" by (fastforce simp: upsert_entry_def ids_below_def list_all_iff split: prod.split option.split)+
  from "2.IH" [OF t(1)] t(2) show ?case by (simp add: order_trans)
qed simp

lemma statement_ok_upsert_warehouses [intro, simp]: "statement_ok (upsert_warehouses le rid)"
proof (rule statement_okI)
  fix now d sq d' sq'
  assume "sequences_ok d sq" "upsert_warehouses le rid now d sq = Some (d', sq')"
  then show "sequences_ok d' sq' \<and> seq_le sq sq'"
    using upsert_entries_below [of "(db_warehouses d, sq_warehouses sq)" now]
    by (auto simp: upsert_warehouses_def sequences_ok_def seq_le_def ids_below_def
        split: prod.splits) (metis fst_conv snd_conv)+
qed

lemma statement_ok_upsert_products [intro, simp]: "statement_ok (upsert_products le rid)"
proof (rule statement_okI)
  fix now d sq d' sq'
  assume "sequences_ok d sq" "upsert_products le rid now d sq = Some (d', sq')"
  then show "sequences_ok d' sq' \<and> seq_le sq sq'"
    using upsert_entries_below [of "(db_products d, sq_products sq)" now]
    by (auto simp: upsert_products_def sequences_ok_def seq_le_def ids_below_def
        split: prod.splits) (metis fst_conv snd_conv)+
qed

end
