(* ===== verification/ApplyReport.thy ===== *)
theory ApplyReport
  imports Catalog
begin

text \<open>
  \<open>app/services/apply_report.py\<close>: the atomic application of a validated report. The SQL statements
  are functions on the tables; \<open>apply\<close> composes them as the method does, inside one transaction,
  with the lock checks and the step hook between them.
\<close>

datatype apply_step = WAREHOUSES_UPSERTED | PRODUCTS_UPSERTED | EXPLICIT_STOCKS_APPLIED
  | MISSING_STOCKS_ZEROED | BEFORE_REPORT_COMPLETED

datatype counter_kind = Created | Updated | Zeroed

record apply_result =
  ar_report_id :: int
  ar_row_count :: int
  ar_stocks_created :: int
  ar_stocks_updated :: int
  ar_stocks_zeroed :: int

definition classify_stock_change :: "int option \<Rightarrow> int option \<Rightarrow> bool \<Rightarrow> counter_kind option" where
  "classify_stock_change previous_quantity explicit_quantity warehouse_in_report =
     (case explicit_quantity of
        Some q \<Rightarrow>
          if previous_quantity = None then Some Created
          else if previous_quantity \<noteq> Some q then Some Updated
          else None
      | None \<Rightarrow>
          if warehouse_in_report \<and> previous_quantity \<notin> {None, Some 0} then Some Zeroed else None)"

subsection \<open>The statements on stock balances\<close>

text \<open>\<open>staging JOIN warehouses JOIN products\<close>, and the distinct warehouses of the report.\<close>

definition explicit_pairs :: "db \<Rightarrow> int \<Rightarrow> (int \<times> int \<times> int) list" where
  "explicit_pairs d report_id =
     concat (map (\<lambda>s. concat (map (\<lambda>w.
         map (\<lambda>p. (ct_id w, ct_id p, sg_quantity s))
           (filter (\<lambda>p. ct_code p = sg_sku s) (db_products d)))
       (filter (\<lambda>w. ct_code w = sg_warehouse_code s) (db_warehouses d))))
     (staged d report_id))"

definition affected_warehouses :: "db \<Rightarrow> int \<Rightarrow> int list" where
  "affected_warehouses d report_id =
     remdups (concat (map (\<lambda>s.
         map ct_id (filter (\<lambda>w. ct_code w = sg_warehouse_code s) (db_warehouses d)))
       (staged d report_id)))"

definition is_missing :: "db \<Rightarrow> int \<Rightarrow> stock_balance \<Rightarrow> bool" where
  "is_missing d report_id b \<longleftrightarrow>
     sb_quantity b \<noteq> 0
     \<and> \<not> list_ex (\<lambda>(w, p, q). w = sb_warehouse_id b \<and> p = sb_product_id b) (explicit_pairs d report_id)"

text \<open>The quantity of the joined balance, \<open>None\<close> when the left join finds none.\<close>

definition left_join :: "db \<Rightarrow> int \<times> int \<times> int \<Rightarrow> (int option \<times> int) list" where
  "left_join d = (\<lambda>(w, p, q).
     (case filter (\<lambda>b. sb_warehouse_id b = w \<and> sb_product_id b = p) (db_stocks d) of
        [] \<Rightarrow> [(None, q)]
      | bs \<Rightarrow> map (\<lambda>b. (Some (sb_quantity b), q)) bs))"

definition calculate_counters :: "int \<Rightarrow> db \<Rightarrow> int \<times> int \<times> int" where
  "calculate_counters report_id d =
     (let joined = concat (map (left_join d) (explicit_pairs d report_id)) in
      (len (filter (\<lambda>(b, q). b = None) joined),
       len (filter (\<lambda>(b, q). b \<noteq> None \<and> b \<noteq> Some q) joined),
       len (concat (map (\<lambda>b. filter (\<lambda>a. a = sb_warehouse_id b \<and> is_missing d report_id b)
                               (affected_warehouses d report_id)) (db_stocks d)))))"

text \<open>
  \<open>INSERT INTO stock_balances ... ON CONFLICT DO UPDATE\<close>: \<open>touched\<close> are the keys this statement has
  inserted or updated; hitting one of them again is a cardinality violation.
\<close>

definition find_stock :: "stock_balance list \<Rightarrow> int \<Rightarrow> int \<Rightarrow> stock_balance option" where
  "find_stock bs w p = find (\<lambda>b. sb_warehouse_id b = w \<and> sb_product_id b = p) bs"

fun upsert_stocks ::
  "int \<Rightarrow> (int \<times> int \<times> int) list \<Rightarrow> (int \<times> int) list \<Rightarrow> stock_balance list \<Rightarrow> stock_balance list option" where
  "upsert_stocks now [] touched bs = Some bs"
| "upsert_stocks now ((w, p, q) # source) touched bs =
     (case find_stock bs w p of
        None \<Rightarrow>
          upsert_stocks now source ((w, p) # touched)
            (bs @ [\<lparr>sb_warehouse_id = w, sb_product_id = p, sb_quantity = q, sb_created_at = now,
                     sb_updated_at = now\<rparr>])
      | Some b \<Rightarrow>
          if (w, p) \<in> set touched then None
          else if sb_quantity b \<noteq> q then
            upsert_stocks now source ((w, p) # touched)
              (map (\<lambda>b. if sb_warehouse_id b = w \<and> sb_product_id b = p
                        then b\<lparr>sb_quantity := q, sb_updated_at := now\<rparr> else b) bs)
          else upsert_stocks now source touched bs)"

definition apply_explicit_stocks :: "int \<Rightarrow> statement" where
  "apply_explicit_stocks report_id = (\<lambda>now d sq.
     map_option (\<lambda>bs. (d\<lparr>db_stocks := bs\<rparr>, sq))
       (upsert_stocks now (explicit_pairs d report_id) [] (db_stocks d)))"

definition zero_missing_stocks :: "int \<Rightarrow> statement" where
  "zero_missing_stocks report_id = (\<lambda>now d sq.
     Some (d\<lparr>db_stocks := map (\<lambda>b.
         if sb_warehouse_id b \<in> set (affected_warehouses d report_id) \<and> is_missing d report_id b
         then b\<lparr>sb_quantity := 0, sb_updated_at := now\<rparr> else b) (db_stocks d)\<rparr>, sq))"

definition delete_staging :: "int \<Rightarrow> statement" where
  "delete_staging report_id = (\<lambda>now d sq.
     Some (d\<lparr>db_staging := filter (\<lambda>s. sg_report_id s \<noteq> report_id) (db_staging d)\<rparr>, sq))"

text \<open>An \<open>UPDATE reports ... WHERE id = report_id\<close> with a further condition.\<close>

definition update_reports :: "(report \<Rightarrow> bool) \<Rightarrow> (int \<Rightarrow> report \<Rightarrow> report) \<Rightarrow> statement" where
  "update_reports cond change = (\<lambda>now d sq.
     Some (d\<lparr>db_reports := map (\<lambda>r. if cond r then change now r else r) (db_reports d)\<rparr>, sq))"

definition complete_report :: "int \<times> int \<times> int \<Rightarrow> int \<Rightarrow> report \<Rightarrow> report" where
  "complete_report counters now r = (case counters of (stocks_created, stocks_updated, stocks_zeroed) \<Rightarrow>
     r\<lparr>rp_stocks_created := stocks_created, rp_stocks_updated := stocks_updated,
       rp_stocks_zeroed := stocks_zeroed, rp_status := Completed, rp_finished_at := Some now,
       rp_failure_kind := None, rp_failure_message := None\<rparr>)"

subsection \<open>\<open>ApplyReportService.apply\<close>\<close>

definition find_report :: "int \<Rightarrow> db \<Rightarrow> report option" where
  "find_report report_id d = find (\<lambda>r. rp_id r = report_id) (db_reports d)"

definition staging_count :: "int \<Rightarrow> db \<Rightarrow> int" where
  "staging_count report_id d = len (staged d report_id)"

definition run_hook :: "(apply_step \<Rightarrow> ('x, unit) proc) option \<Rightarrow> apply_step \<Rightarrow> ('x, unit) proc" where
  "run_hook after_step step = (case after_step of None \<Rightarrow> ret () | Some hook \<Rightarrow> hook step)"

definition with_collation :: "((pystr \<Rightarrow> pystr \<Rightarrow> bool) \<Rightarrow> ('x, 'a) proc) \<Rightarrow> ('x, 'a) proc" where
  "with_collation f = (\<lambda>w. f (env_collate (w_env w)) w)"

definition not_ready :: "report \<Rightarrow> int \<Rightarrow> bool" where
  "not_ready r count \<longleftrightarrow>
     rp_status r \<noteq> Processing \<or> rp_error_count r \<noteq> 0 \<or> rp_row_count r \<le> 0 \<or> count \<noteq> rp_row_count r"

text \<open>One statement, its hook and the lock check that follows.\<close>

definition apply_stage ::
  "(apply_step \<Rightarrow> ('x, unit) proc) option \<Rightarrow> ('x, unit) proc \<Rightarrow> ('x, unit) proc \<Rightarrow> apply_step \<Rightarrow> ('x, unit) proc" where
  "apply_stage after_step assert_lock_alive statement step =
     then_act statement (then_act (run_hook after_step step) assert_lock_alive)"

text \<open>The completion of the report: the staging rows are deleted and the object's changes flushed.\<close>

definition apply_completion ::
  "(apply_step \<Rightarrow> ('x, unit) proc) option \<Rightarrow> ('x, unit) proc \<Rightarrow> int \<Rightarrow> int \<times> int \<times> int \<Rightarrow> ('x, unit) proc" where
  "apply_completion after_step assert_lock_alive report_id counters =
     then_act (run_hook after_step BEFORE_REPORT_COMPLETED)
     (then_act (execute (delete_staging report_id))
     (then_act (execute (update_reports (\<lambda>r. rp_id r = report_id) (complete_report counters)))
       assert_lock_alive))"

definition apply_steps ::
  "(apply_step \<Rightarrow> ('x, unit) proc) option \<Rightarrow> int \<Rightarrow> ('x, unit) proc \<Rightarrow> ('x, int \<times> int \<times> int) proc" where
  "apply_steps after_step report_id assert_lock_alive =
     (let stage = apply_stage after_step assert_lock_alive in
      then_act (stage (with_collation (\<lambda>le. execute (upsert_warehouses le report_id))) WAREHOUSES_UPSERTED)
     (then_act (stage (with_collation (\<lambda>le. execute (upsert_products le report_id))) PRODUCTS_UPSERTED)
     (bind_act (query (calculate_counters report_id)) (\<lambda>counters.
      then_act (stage (execute (apply_explicit_stocks report_id)) EXPLICIT_STOCKS_APPLIED)
     (then_act (stage (execute (zero_missing_stocks report_id)) MISSING_STOCKS_ZEROED)
     (then_act (apply_completion after_step assert_lock_alive report_id counters)
       (ret counters)))))))"

definition apply_body ::
  "(apply_step \<Rightarrow> ('x, unit) proc) option \<Rightarrow> int \<Rightarrow> ('x, unit) proc \<Rightarrow> ('x, apply_result) proc" where
  "apply_body after_step report_id assert_lock_alive =
     then_act assert_lock_alive
     (bind_act (query (find_report report_id)) (\<lambda>report.
       case report of
         None \<Rightarrow> throw ReportNotReadyForApply
       | Some report \<Rightarrow>
           bind_act (query (staging_count report_id)) (\<lambda>count.
             if not_ready report count then throw ReportNotReadyForApply
             else bind_act (apply_steps after_step report_id assert_lock_alive)
               (\<lambda>(stocks_created, stocks_updated, stocks_zeroed).
                  ret \<lparr>ar_report_id = report_id, ar_row_count = rp_row_count report,
                       ar_stocks_created = stocks_created, ar_stocks_updated = stocks_updated,
                       ar_stocks_zeroed = stocks_zeroed\<rparr>))))"

definition apply_report ::
  "(apply_step \<Rightarrow> ('x, unit) proc) option \<Rightarrow> int \<Rightarrow> ('x, unit) proc \<Rightarrow> ('x, apply_result) proc" where
  "apply_report after_step report_id assert_lock_alive =
     transaction (apply_body after_step report_id assert_lock_alive)"

end
