(* ===== verification/StockSnapshot.thy ===== *)
theory StockSnapshot
  imports ApplyReport
begin

text \<open>
  What applying a report means for the stock, independently of identifiers: a map from warehouse
  code and SKU to a quantity, updated as a snapshot of the report's warehouses. The lemmas relate
  each SQL statement to this map.
\<close>

type_synonym stock_map = "pystr \<times> pystr \<Rightarrow> int option"

definition quantity_of :: "stock_balance list \<Rightarrow> int \<times> int \<Rightarrow> int option" where
  "quantity_of bs = (\<lambda>(w, p). map_option sb_quantity (find_stock bs w p))"

definition abs_stock :: "db \<Rightarrow> stock_map" where
  "abs_stock d = (\<lambda>(c, s).
     (case (id_of (db_warehouses d) c, id_of (db_products d) s) of
        (Some w, Some p) \<Rightarrow> quantity_of (db_stocks d) (w, p)
      | _ \<Rightarrow> None))"

definition reported :: "staging_row list \<Rightarrow> stock_map" where
  "reported rows = map_of (map (\<lambda>s. ((sg_warehouse_code s, sg_sku s), sg_quantity s)) rows)"

definition reported_warehouses :: "staging_row list \<Rightarrow> pystr set" where
  "reported_warehouses rows = sg_warehouse_code ` set rows"

definition snapshot :: "staging_row list \<Rightarrow> stock_map \<Rightarrow> stock_map" where
  "snapshot rows m = (\<lambda>(c, s).
     (case reported rows (c, s) of
        Some q \<Rightarrow> Some q
      | None \<Rightarrow> if c \<in> reported_warehouses rows then map_option (\<lambda>_. 0) (m (c, s)) else m (c, s)))"

definition pair_key :: "staging_row \<Rightarrow> pystr \<times> pystr" where
  "pair_key s = (sg_warehouse_code s, sg_sku s)"

definition no_duplicates :: "staging_row list \<Rightarrow> bool" where
  "no_duplicates rows \<longleftrightarrow> distinct (map pair_key rows)"

text \<open>
  What a snapshot depends on, and that it is idempotent: the stock it leaves has nothing left to change.
\<close>

definition same_rows :: "staging_row list \<Rightarrow> staging_row list \<Rightarrow> bool" where
  "same_rows rows rows' \<longleftrightarrow>
     map (\<lambda>s. (pair_key s, sg_quantity s)) rows = map (\<lambda>s. (pair_key s, sg_quantity s)) rows'"

lemma reported_pairs: "reported rows = map_of (map (\<lambda>s. (pair_key s, sg_quantity s)) rows)"
  by (simp add: reported_def pair_key_def)

lemma same_rows_reported: "same_rows rows rows' \<Longrightarrow> reported rows = reported rows'"
  unfolding reported_pairs same_rows_def by (rule arg_cong)

lemma same_rows_keys:
  assumes "same_rows rows rows'"
  shows "map pair_key rows = map pair_key rows'"
proof -
  have "map pair_key rows = map fst (map (\<lambda>s. (pair_key s, sg_quantity s)) rows)" for rows by simp
  then show ?thesis using assms unfolding same_rows_def by metis
qed

lemma same_rows_warehouses:
  assumes "same_rows rows rows'"
  shows "reported_warehouses rows = reported_warehouses rows'"
proof -
  have "reported_warehouses rows = fst ` set (map pair_key rows)" for rows
    by (simp add: reported_warehouses_def pair_key_def image_image)
  then show ?thesis using same_rows_keys [OF assms] by metis
qed

lemma same_rows_no_duplicates: "same_rows rows rows' \<Longrightarrow> no_duplicates rows = no_duplicates rows'"
  by (simp add: no_duplicates_def same_rows_keys)

lemma snapshot_same_rows: "same_rows rows rows' \<Longrightarrow> snapshot rows = snapshot rows'"
  by (simp add: snapshot_def same_rows_reported same_rows_warehouses fun_eq_iff)

lemma snapshot_idem: "snapshot rows (snapshot rows m) = snapshot rows m"
  by (rule ext) (auto simp: snapshot_def option.map_comp comp_def split: option.split)

subsection \<open>Balances by key\<close>

lemma find_stock_simps [simp]:
  "find_stock [] w p = None"
  "find_stock (b # bs) w p =
     (if sb_warehouse_id b = w \<and> sb_product_id b = p then Some b else find_stock bs w p)"
  by (simp_all add: find_stock_def)

lemma find_stock_append:
  "find_stock (xs @ ys) w p = (case find_stock xs w p of None \<Rightarrow> find_stock ys w p | Some b \<Rightarrow> Some b)"
  by (induction xs) auto

lemma find_stock_Some: "find_stock bs w p = Some b \<Longrightarrow> b \<in> set bs \<and> stock_key b = (w, p)"
  by (induction bs) (auto simp: stock_key_def split: if_splits)

lemma find_stock_None: "find_stock bs w p = None \<longleftrightarrow> (w, p) \<notin> stock_key ` set bs"
  by (induction bs) (auto simp: stock_key_def)

lemma find_stock_map:
  "(\<And>b. sb_warehouse_id (f b) = sb_warehouse_id b \<and> sb_product_id (f b) = sb_product_id b) \<Longrightarrow>
     find_stock (map f bs) w p = map_option f (find_stock bs w p)"
  by (induction bs) auto

lemma find_stock_filter:
  "distinct (map stock_key bs) \<Longrightarrow>
     filter (\<lambda>b. sb_warehouse_id b = w \<and> sb_product_id b = p) bs
       = (case find_stock bs w p of None \<Rightarrow> [] | Some b \<Rightarrow> [b])"
proof (induction bs)
  case (Cons b bs)
  then show ?case
    using find_stock_None [of bs w p] by (auto simp: stock_key_def split: option.splits)
qed simp

lemma quantity_of_in:
  assumes "distinct (map stock_key bs)" and "b \<in> set bs"
  shows "quantity_of bs (stock_key b) = Some (sb_quantity b)"
proof -
  obtain b' where b': "find_stock bs (sb_warehouse_id b) (sb_product_id b) = Some b'"
    using find_stock_None [of bs "sb_warehouse_id b" "sb_product_id b"] assms(2)
    by (force simp: stock_key_def)
  then have "b' = b"
    using find_stock_Some [OF b'] assms by (auto simp: distinct_map inj_on_def stock_key_def)
  with b' show ?thesis by (simp add: quantity_of_def stock_key_def)
qed

subsection \<open>The upsert of explicit quantities\<close>

definition source_map :: "(int \<times> int \<times> int) list \<Rightarrow> int \<times> int \<Rightarrow> int option" where
  "source_map source = map_of (map (\<lambda>(w, p, q). ((w, p), q)) source)"

lemma source_map_simps [simp]:
  "source_map [] k = None"
  "source_map ((w, p, q) # source) k = (if k = (w, p) then Some q else source_map source k)"
  by (auto simp: source_map_def)

text \<open>What the statement makes of the balances: \<open>bs'\<close> holds the source's quantities over those of \<open>bs\<close>.\<close>

definition source_keys :: "(int \<times> int \<times> int) list \<Rightarrow> (int \<times> int) list" where
  "source_keys source = map (\<lambda>(w, p, q). (w, p)) source"

definition upserted ::
  "(int \<times> int \<times> int) list \<Rightarrow> stock_balance list \<Rightarrow> stock_balance list \<Rightarrow> bool" where
  "upserted source bs bs' \<longleftrightarrow>
     (\<forall>k. quantity_of bs' k = (case source_map source k of None \<Rightarrow> quantity_of bs k | Some q \<Rightarrow> Some q))
     \<and> (distinct (map stock_key bs) \<longrightarrow> distinct (map stock_key bs'))
     \<and> stock_key ` set bs' \<subseteq> stock_key ` set bs \<union> set (source_keys source)
     \<and> sb_quantity ` set bs' \<subseteq> sb_quantity ` set bs \<union> (snd \<circ> snd) ` set source"

lemma source_map_None: "source_map source k = None \<longleftrightarrow> k \<notin> set (source_keys source)"
  by (simp add: source_map_def source_keys_def map_of_eq_None_iff) force

lemma upserted_step:
  assumes "upserted source bs1 bs'" and "(w, p) \<notin> set (source_keys source)"
    and "\<And>k. quantity_of bs1 k = (if k = (w, p) then Some q else quantity_of bs k)"
    and "distinct (map stock_key bs) \<Longrightarrow> distinct (map stock_key bs1)"
    and "stock_key ` set bs1 \<subseteq> insert (w, p) (stock_key ` set bs)"
    and "sb_quantity ` set bs1 \<subseteq> insert q (sb_quantity ` set bs)"
  shows "upserted ((w, p, q) # source) bs bs'"
  unfolding upserted_def
proof (intro conjI allI impI)
  fix k
  have "source_map source (w, p) = None" using assms(2) by (simp add: source_map_None)
  then show "quantity_of bs' k =
      (case source_map ((w, p, q) # source) k of None \<Rightarrow> quantity_of bs k | Some q \<Rightarrow> Some q)"
    using assms(1,3) by (cases k) (simp add: upserted_def split: option.split)
next
  assume "distinct (map stock_key bs)"
  then show "distinct (map stock_key bs')" using assms(1,4) by (simp add: upserted_def)
next
  show "stock_key ` set bs' \<subseteq> stock_key ` set bs \<union> set (source_keys ((w, p, q) # source))"
  proof -
    have "set (source_keys ((w, p, q) # source)) = insert (w, p) (set (source_keys source))"
      by (simp add: source_keys_def)
    moreover have "stock_key ` set bs' \<subseteq> stock_key ` set bs1 \<union> set (source_keys source)"
      using assms(1) by (simp add: upserted_def)
    ultimately show ?thesis using assms(5) by blast
  qed
next
  show "sb_quantity ` set bs' \<subseteq> sb_quantity ` set bs \<union> (snd \<circ> snd) ` set ((w, p, q) # source)"
  proof -
    have "sb_quantity ` set bs' \<subseteq> sb_quantity ` set bs1 \<union> (snd \<circ> snd) ` set source"
      using assms(1) by (simp add: upserted_def)
    moreover have "(snd \<circ> snd) ` set ((w, p, q) # source) = insert q ((snd \<circ> snd) ` set source)" by simp
    ultimately show ?thesis using assms(6) by blast
  qed
qed

lemma update_stock_step:
  fixes w p q now :: int
  defines "f \<equiv> \<lambda>b :: stock_balance. if sb_warehouse_id b = w \<and> sb_product_id b = p
    then b\<lparr>sb_quantity := q, sb_updated_at := now\<rparr> else b"
  assumes "find_stock bs w p = Some b0"
  shows "quantity_of (map f bs) k = (if k = (w, p) then Some q else quantity_of bs k)"
    and "map stock_key (map f bs) = map stock_key bs"
    and "sb_quantity ` set (map f bs) \<subseteq> insert q (sb_quantity ` set bs)"
proof -
  obtain w' p' where k: "k = (w', p')" by (cases k)
  have fs: "find_stock (map f bs) w' p' = map_option f (find_stock bs w' p')"
    by (rule find_stock_map) (simp add: f_def)
  have fq: "sb_quantity (f b) = (if (w', p') = (w, p) then q else sb_quantity b)"
    if "find_stock bs w' p' = Some b" for b
    using find_stock_Some [OF that] by (auto simp: f_def stock_key_def)
  show "quantity_of (map f bs) k = (if k = (w, p) then Some q else quantity_of bs k)"
  proof (cases "find_stock bs w' p'")
    case None
    with assms(2) show ?thesis by (auto simp: quantity_of_def k fs)
  next
    case (Some b)
    with fq [OF Some] show ?thesis by (simp add: quantity_of_def k fs)
  qed
  show "map stock_key (map f bs) = map stock_key bs" by (simp add: f_def stock_key_def)
  show "sb_quantity ` set (map f bs) \<subseteq> insert q (sb_quantity ` set bs)" by (auto simp: f_def)
qed

lemma insert_stock_step:
  fixes w p q now :: int and bs :: "stock_balance list"
  assumes "find_stock bs w p = None"
  defines "bs1 \<equiv> bs @ [\<lparr>sb_warehouse_id = w, sb_product_id = p, sb_quantity = q, sb_created_at = now,
      sb_updated_at = now\<rparr>]"
  shows "quantity_of bs1 k = (if k = (w, p) then Some q else quantity_of bs k)"
    and "distinct (map stock_key bs) \<Longrightarrow> distinct (map stock_key bs1)"
    and "stock_key ` set bs1 \<subseteq> insert (w, p) (stock_key ` set bs)"
    and "sb_quantity ` set bs1 \<subseteq> insert q (sb_quantity ` set bs)"
  using assms(1) find_stock_None [of bs w p]
  by (cases k; auto simp: bs1_def quantity_of_def find_stock_append stock_key_def split: option.splits)+

lemma upsert_stocks_spec:
  assumes "distinct (source_keys source)" and "set (source_keys source) \<inter> set touched = {}"
  shows "\<exists>bs'. upsert_stocks now source touched bs = Some bs' \<and> upserted source bs bs'"
  using assms
proof (induction source arbitrary: touched bs)
  case Nil
  then show ?case by (simp add: upserted_def)
next
  case (Cons x source)
  obtain w p q where x: "x = (w, p, q)" by (cases x)
  have d: "distinct (source_keys source)" "(w, p) \<notin> set (source_keys source)" "(w, p) \<notin> set touched"
      "set (source_keys source) \<inter> set ((w, p) # touched) = {}" "set (source_keys source) \<inter> set touched = {}"
    using Cons.prems by (auto simp: x source_keys_def)
  show ?case
  proof (cases "find_stock bs w p")
    case None
    obtain bs' where bs': "upsert_stocks now source ((w, p) # touched) (bs @
          [\<lparr>sb_warehouse_id = w, sb_product_id = p, sb_quantity = q, sb_created_at = now, sb_updated_at = now\<rparr>])
        = Some bs'"
      "upserted source (bs @
          [\<lparr>sb_warehouse_id = w, sb_product_id = p, sb_quantity = q, sb_created_at = now, sb_updated_at = now\<rparr>]) bs'"
      using Cons.IH [OF d(1,4)] by blast
    have "upserted ((w, p, q) # source) bs bs'"
      by (rule upserted_step [OF bs'(2) d(2) insert_stock_step [OF None]])
    with bs' None show ?thesis by (simp add: x)
  next
    case (Some b0)
    show ?thesis
    proof (cases "sb_quantity b0 = q")
      case True
      obtain bs' where bs': "upsert_stocks now source touched bs = Some bs'" "upserted source bs bs'"
        using Cons.IH [OF d(1,5)] by blast
      have "quantity_of bs k = (if k = (w, p) then Some q else quantity_of bs k)" for k
        using Some True by (auto simp: quantity_of_def)
      with bs' d Some True show ?thesis
        by (intro exI [of _ bs']) (auto simp: x intro!: upserted_step)
    next
      case False
      let ?bs1 = "map (\<lambda>b. if sb_warehouse_id b = w \<and> sb_product_id b = p
        then b\<lparr>sb_quantity := q, sb_updated_at := now\<rparr> else b) bs"
      note step = update_stock_step [OF Some, where q = q and now = now]
      obtain bs' where bs': "upsert_stocks now source ((w, p) # touched) ?bs1 = Some bs'"
          "upserted source ?bs1 bs'"
        using Cons.IH [OF d(1,4)] by blast
      have "upserted ((w, p, q) # source) bs bs'"
      proof (rule upserted_step [OF bs'(2) d(2) step(1)])
        show "stock_key ` set ?bs1 \<subseteq> insert (w, p) (stock_key ` set bs)"
          using arg_cong [OF step(2), of set] unfolding list.set_map by blast
        show "distinct (map stock_key ?bs1)" if "distinct (map stock_key bs)"
          using that unfolding step(2) .
      qed (rule step(3))
      with bs' d(3) Some False show ?thesis by (simp add: x)
    qed
  qed
qed

subsection \<open>Resolved rows\<close>

text \<open>
  After the upserts every code of the report is in a catalog, and the joins of the statements
  turn each staging row into exactly one pair of identifiers.
\<close>

definition resolved :: "db \<Rightarrow> int \<Rightarrow> bool" where
  "resolved d rid \<longleftrightarrow>
     catalog_ok (db_warehouses d) \<and> catalog_ok (db_products d)
     \<and> (\<forall>s \<in> set (staged d rid).
          (\<exists>i. id_of (db_warehouses d) (sg_warehouse_code s) = Some i)
          \<and> (\<exists>i. id_of (db_products d) (sg_sku s) = Some i))"

definition warehouse_id :: "db \<Rightarrow> staging_row \<Rightarrow> int" where
  "warehouse_id d s = the (id_of (db_warehouses d) (sg_warehouse_code s))"

definition product_id :: "db \<Rightarrow> staging_row \<Rightarrow> int" where
  "product_id d s = the (id_of (db_products d) (sg_sku s))"

lemma resolved_ids:
  assumes "resolved d rid" and "s \<in> set (staged d rid)"
  shows "id_of (db_warehouses d) (sg_warehouse_code s) = Some (warehouse_id d s)"
    and "id_of (db_products d) (sg_sku s) = Some (product_id d s)"
  using assms by (auto simp: resolved_def warehouse_id_def product_id_def)

lemma concat_map_single: "(\<And>x. x \<in> set xs \<Longrightarrow> f x = [g x]) \<Longrightarrow> concat (map f xs) = map g xs"
  by (induction xs) auto

lemma filter_code_id:
  assumes "catalog_ok rows" and "id_of rows k = Some i"
  shows "\<exists>c. filter (\<lambda>c. ct_code c = k) rows = [c] \<and> ct_id c = i"
  using assms filter_code [of rows k] by (auto simp: catalog_ok_def id_of_def)

lemma explicit_pairs_resolved:
  assumes "resolved d rid"
  shows "explicit_pairs d rid = map (\<lambda>s. (warehouse_id d s, product_id d s, sg_quantity s)) (staged d rid)"
proof -
  have "concat (map (\<lambda>w. map (\<lambda>p. (ct_id w, ct_id p, sg_quantity s))
           (filter (\<lambda>p. ct_code p = sg_sku s) (db_products d)))
       (filter (\<lambda>w. ct_code w = sg_warehouse_code s) (db_warehouses d)))
      = [(warehouse_id d s, product_id d s, sg_quantity s)]"
    if "s \<in> set (staged d rid)" for s
  proof -
    have "catalog_ok (db_warehouses d)" "catalog_ok (db_products d)" using assms by (simp_all add: resolved_def)
    from filter_code_id [OF this(1) resolved_ids(1) [OF assms that]]
      filter_code_id [OF this(2) resolved_ids(2) [OF assms that]]
    show ?thesis by auto
  qed
  then show ?thesis
    unfolding explicit_pairs_def by (rule concat_map_single)
qed

lemma affected_resolved:
  assumes "resolved d rid"
  shows "set (affected_warehouses d rid) = warehouse_id d ` set (staged d rid)"
proof -
  have "map ct_id (filter (\<lambda>w. ct_code w = sg_warehouse_code s) (db_warehouses d)) = [warehouse_id d s]"
    if "s \<in> set (staged d rid)" for s
  proof -
    have "catalog_ok (db_warehouses d)" using assms by (simp add: resolved_def)
    from filter_code_id [OF this resolved_ids(1) [OF assms that]] show ?thesis by auto
  qed
  then show ?thesis by (auto simp: affected_warehouses_def simp del: filter_map)
qed

lemma resolved_inj:
  assumes "resolved d rid" and "s \<in> set (staged d rid)"
    and "id_of (db_warehouses d) c = Some w" and "id_of (db_products d) k = Some p"
  shows "warehouse_id d s = w \<longleftrightarrow> sg_warehouse_code s = c" and "product_id d s = p \<longleftrightarrow> sg_sku s = k"
proof -
  have ok: "catalog_ok (db_warehouses d)" "catalog_ok (db_products d)"
    using assms(1) by (simp_all add: resolved_def)
  show "warehouse_id d s = w \<longleftrightarrow> sg_warehouse_code s = c"
    using resolved_ids(1) [OF assms(1,2)] assms(3) id_of_inj [OF ok(1)] by auto
  show "product_id d s = p \<longleftrightarrow> sg_sku s = k"
    using resolved_ids(2) [OF assms(1,2)] assms(4) id_of_inj [OF ok(2)] by auto
qed

lemma source_map_resolved:
  assumes "resolved d rid" and "id_of (db_warehouses d) c = Some w" and "id_of (db_products d) k = Some p"
  shows "source_map (explicit_pairs d rid) (w, p) = reported (staged d rid) (c, k)"
proof -
  have "source_map (map (\<lambda>s. (warehouse_id d s, product_id d s, sg_quantity s)) rows) (w, p)
      = reported rows (c, k)" if "set rows \<subseteq> set (staged d rid)" for rows
    using that
  proof (induction rows)
    case (Cons s rows)
    then show ?case using resolved_inj [OF assms(1) _ assms(2,3), of s] by (auto simp: reported_def)
  qed (simp add: reported_def)
  then show ?thesis by (simp add: explicit_pairs_resolved [OF assms(1)])
qed

lemma source_keys_resolved:
  assumes "resolved d rid" and "no_duplicates (staged d rid)"
  shows "distinct (source_keys (explicit_pairs d rid))"
proof -
  have "inj_on (\<lambda>s. (warehouse_id d s, product_id d s)) (set (staged d rid))"
  proof (rule inj_onI)
    fix s t
    assume st: "s \<in> set (staged d rid)" "t \<in> set (staged d rid)"
      "(warehouse_id d s, product_id d s) = (warehouse_id d t, product_id d t)"
    then have "pair_key s = pair_key t"
      using resolved_inj [OF assms(1) st(1) resolved_ids [OF assms(1) st(2)]] by (auto simp: pair_key_def)
    with st assms(2) show "s = t" by (auto simp: no_duplicates_def distinct_map inj_on_def)
  qed
  moreover have "distinct (staged d rid)" using assms(2) by (simp add: no_duplicates_def distinct_map)
  ultimately show ?thesis
    by (simp add: explicit_pairs_resolved [OF assms(1)] source_keys_def comp_def distinct_map)
qed

lemma is_missing_resolved:
  "is_missing d rid b \<longleftrightarrow> sb_quantity b \<noteq> 0 \<and> source_map (explicit_pairs d rid) (stock_key b) = None"
  unfolding is_missing_def source_map_None source_keys_def stock_key_def
  by (auto simp: list_ex_iff image_iff split_beta)

subsection \<open>The statements on the abstract stock\<close>

text \<open>The upserts of the catalogs leave the abstract stock as it is.\<close>

definition catalogs_ok :: "db \<Rightarrow> sequences \<Rightarrow> bool" where
  "catalogs_ok d sq \<longleftrightarrow>
     table_ok (db_warehouses d, sq_warehouses sq) \<and> table_ok (db_products d, sq_products sq)"

lemma unknown_id_no_stock:
  assumes "list_all (\<lambda>b. sb_warehouse_id b \<in> W \<and> sb_product_id b \<in> P) bs" and "w \<notin> W \<or> p \<notin> P"
  shows "quantity_of bs (w, p) = None"
  using assms find_stock_None [of bs w p]
  by (fastforce simp: quantity_of_def stock_key_def list_all_iff)

lemma abs_stock_catalog_growth:
  assumes stocks: "list_all (\<lambda>b. sb_warehouse_id b \<in> ct_id ` set (db_warehouses d)
      \<and> sb_product_id b \<in> ct_id ` set (db_products d)) (db_stocks d)"
    and same: "db_stocks d' = db_stocks d"
    and old: "\<And>k i. id_of (db_warehouses d) k = Some i \<Longrightarrow> id_of (db_warehouses d') k = Some i"
      "\<And>k i. id_of (db_products d) k = Some i \<Longrightarrow> id_of (db_products d') k = Some i"
    and new: "\<And>k i. id_of (db_warehouses d') k = Some i \<Longrightarrow> id_of (db_warehouses d) k = Some i
        \<or> i \<notin> ct_id ` set (db_warehouses d)"
      "\<And>k i. id_of (db_products d') k = Some i \<Longrightarrow> id_of (db_products d) k = Some i
        \<or> i \<notin> ct_id ` set (db_products d)"
  shows "abs_stock d' = abs_stock d"
proof
  fix x :: "pystr \<times> pystr"
  obtain c k where x: "x = (c, k)" by (cases x)
  show "abs_stock d' x = abs_stock d x"
  proof (cases "id_of (db_warehouses d) c = None \<or> id_of (db_products d) k = None")
    case False
    then show ?thesis using old same by (auto simp: abs_stock_def x)
  next
    case True
    have "quantity_of (db_stocks d) (w, p) = None"
      if "id_of (db_warehouses d') c = Some w" "id_of (db_products d') k = Some p" for w p
      using True new(1) [OF that(1)] new(2) [OF that(2)] unknown_id_no_stock [OF stocks] by auto
    with True same show ?thesis by (auto simp: abs_stock_def x split: option.splits)
  qed
qed

text \<open>The two statements on balances, on resolved rows, make the snapshot.\<close>

lemma quantity_of_zeroed:
  assumes "\<And>b. f b = (if sb_warehouse_id b \<in> A \<and> miss b then b\<lparr>sb_quantity := 0, sb_updated_at := now\<rparr> else b)"
    and "\<And>b. miss b \<longleftrightarrow> sb_quantity b \<noteq> 0 \<and> keep (stock_key b) = None"
  shows "quantity_of (map f bs) (w, p)
    = (if w \<in> A \<and> keep (w, p) = None then map_option (\<lambda>_. 0) (quantity_of bs (w, p))
       else quantity_of bs (w, p))"
proof -
  have "find_stock (map f bs) w p = map_option f (find_stock bs w p)"
    by (rule find_stock_map) (simp add: assms(1))
  then show ?thesis
    using assms find_stock_Some [of bs w p]
    by (cases "find_stock bs w p") (auto simp: quantity_of_def stock_key_def)
qed

subsection \<open>All statements of an application\<close>

text \<open>The tables after the two upserts.\<close>

lemma upserts_frame:
  assumes "upsert_warehouses le rid now d sq = Some (d1, sq1)" and "upsert_products le rid now d1 sq1 = Some (d2, sq2)"
  shows "db_stocks d2 = db_stocks d" "db_staging d2 = db_staging d" "db_reports d2 = db_reports d"
    "db_errors d2 = db_errors d" "db_warehouses d2 = db_warehouses d1" "db_products d1 = db_products d"
    "sq_warehouses sq2 = sq_warehouses sq1" "sq_products sq1 = sq_products sq"
    "sq_reports sq2 = sq_reports sq" "sq_errors sq2 = sq_errors sq"
    "db_staging d1 = db_staging d" "db_stocks d1 = db_stocks d" "db_reports d1 = db_reports d" "db_errors d1 = db_errors d"
  using assms by (auto simp: upsert_warehouses_def upsert_products_def split: prod.splits)

lemma upserts_total:
  "\<exists>d1 sq1 d2 sq2. upsert_warehouses le rid now d sq = Some (d1, sq1) \<and> upsert_products le rid now d1 sq1 = Some (d2, sq2)"
  by (auto simp: upsert_warehouses_def upsert_products_def split: prod.splits)

lemma staged_cong: "db_staging d' = db_staging d \<Longrightarrow> staged d' rid = staged d rid"
  by (simp add: staged_def)

lemma stocks_ok_ids:
  "stocks_ok d \<Longrightarrow> list_all (\<lambda>b. sb_warehouse_id b \<in> ct_id ` set (db_warehouses d)
      \<and> sb_product_id b \<in> ct_id ` set (db_products d)) (db_stocks d)"
  by (simp add: stocks_ok_def list_all_iff)

lemma upserts_spec:
  assumes u: "upsert_warehouses le rid now d sq = Some (d1, sq1)" "upsert_products le rid now d1 sq1 = Some (d2, sq2)"
    and ok: "constraints_ok d" "catalogs_ok d sq"
  shows "catalogs_ok d1 sq1" "catalogs_ok d2 sq2" "resolved d2 rid" "abs_stock d2 = abs_stock d"
    "constraints_ok d1" "constraints_ok d2"
proof -
  note frame = upserts_frame [OF u]
  have st: "list_all staging_row_ok (db_staging d)"
    using ok(1) by (simp add: constraints_ok_def staging_ok_def list_all_iff)
  have t: "table_ok (db_warehouses d, sq_warehouses sq)" "table_ok (db_products d, sq_products sq)"
    using ok(2) by (simp_all add: catalogs_ok_def)
  have w: "table_ok (db_warehouses d1, sq_warehouses sq1)" by (rule warehouses.upsert_ok [OF u(1) t(1) st])
  have p: "table_ok (db_products d2, sq_products sq2)"
    by (rule products.upsert_ok [OF u(2)]) (use t(2) st frame in simp_all)
  show "catalogs_ok d1 sq1" using w t(2) frame by (simp add: catalogs_ok_def)
  show c2: "catalogs_ok d2 sq2" using w p frame by (simp add: catalogs_ok_def)
  show "resolved d2 rid"
    using c2 warehouses.upsert_covers [OF u(1)] products.upsert_covers [OF u(2)] frame(5)
      staged_cong [OF frame(2), of rid] staged_cong [OF frame(11), of rid]
    by (simp add: resolved_def catalogs_ok_def table_ok_def)
  have stocks: "stocks_ok d" using ok(1) by (simp add: constraints_ok_def)
  show "abs_stock d2 = abs_stock d"
  proof (rule abs_stock_catalog_growth [OF stocks_ok_ids [OF stocks] frame(1)])
    fix k i
    show "id_of (db_warehouses d) k = Some i \<Longrightarrow> id_of (db_warehouses d2) k = Some i"
      using warehouses.upsert_ids [OF u(1)] frame(5) by simp
    show "id_of (db_products d) k = Some i \<Longrightarrow> id_of (db_products d2) k = Some i"
      using products.upsert_ids [OF u(2)] frame(6) by simp
    show "id_of (db_warehouses d2) k = Some i \<Longrightarrow> id_of (db_warehouses d) k = Some i \<or> i \<notin> ct_id ` set (db_warehouses d)"
      using warehouses.upsert_new_ids [OF u(1), of k i] frame(5) t(1)
      by (fastforce simp: table_ok_def ids_below_def list_all_iff)
    show "id_of (db_products d2) k = Some i \<Longrightarrow> id_of (db_products d) k = Some i \<or> i \<notin> ct_id ` set (db_products d)"
      using products.upsert_new_ids [OF u(2), of k i] frame(6,8) t(2)
      by (fastforce simp: table_ok_def ids_below_def list_all_iff)
  qed
  have s1: "stocks_ok d1"
    using stocks warehouses.upsert_id_set [OF u(1)] frame(6,12) by (auto simp: stocks_ok_def list_all_iff)
  show "constraints_ok d1"
    using ok(1) w t(2) s1 frame
    by (simp add: constraints_ok_def table_ok_def reports_ok_def staging_ok_def errors_ok_def)
  have "stocks_ok d2"
    using s1 products.upsert_id_set [OF u(2)] frame by (auto simp: stocks_ok_def list_all_iff)
  then show "constraints_ok d2"
    using ok(1) w p frame
    by (simp add: constraints_ok_def table_ok_def reports_ok_def staging_ok_def errors_ok_def)
qed

text \<open>The explicit quantities, on resolved rows without duplicates.\<close>

lemma explicit_spec:
  assumes "resolved d rid" and "no_duplicates (staged d rid)" and "constraints_ok d"
  shows "\<exists>bs'. apply_explicit_stocks rid now d sq = Some (d\<lparr>db_stocks := bs'\<rparr>, sq)
    \<and> upserted (explicit_pairs d rid) (db_stocks d) bs' \<and> constraints_ok (d\<lparr>db_stocks := bs'\<rparr>)"
proof -
  obtain bs' where bs': "upsert_stocks now (explicit_pairs d rid) [] (db_stocks d) = Some bs'"
      "upserted (explicit_pairs d rid) (db_stocks d) bs'"
    using upsert_stocks_spec [OF source_keys_resolved [OF assms(1,2)], of "[]"] by auto
  have st: "stocks_ok d" using assms(3) by (simp add: constraints_ok_def)
  have rows: "staging_row_ok s" if "s \<in> set (staged d rid)" for s
    using that assms(3) by (auto simp: constraints_ok_def staging_ok_def staged_def list_all_iff)
  have pairs: "(w, p, q) \<in> set (explicit_pairs d rid) \<Longrightarrow>
      w \<in> ct_id ` set (db_warehouses d) \<and> p \<in> ct_id ` set (db_products d) \<and> quantity_ok q" for w p q
    using resolved_ids [OF assms(1)] id_of_in rows
    by (fastforce simp: explicit_pairs_resolved [OF assms(1)] staging_row_ok_def)
  have "quantity_ok (sb_quantity b) \<and> sb_warehouse_id b \<in> ct_id ` set (db_warehouses d)
      \<and> sb_product_id b \<in> ct_id ` set (db_products d)" if b: "b \<in> set bs'" for b
  proof -
    have "stock_key b \<in> stock_key ` set (db_stocks d) \<or> stock_key b \<in> set (source_keys (explicit_pairs d rid))"
      "sb_quantity b \<in> sb_quantity ` set (db_stocks d) \<or> sb_quantity b \<in> (snd \<circ> snd) ` set (explicit_pairs d rid)"
      using bs'(2) b by (auto simp: upserted_def)
    then show ?thesis
      using st pairs by (auto simp: stocks_ok_def stock_key_def source_keys_def list_all_iff)
  qed
  then have "stocks_ok (d\<lparr>db_stocks := bs'\<rparr>)"
    using st bs'(2) by (simp add: stocks_ok_def upserted_def list_all_iff)
  then have "constraints_ok (d\<lparr>db_stocks := bs'\<rparr>)"
    using assms(3) by (simp add: constraints_ok_def reports_ok_def staging_ok_def errors_ok_def)
  with bs' show ?thesis by (auto simp: apply_explicit_stocks_def)
qed

lemma resolved_stocks [simp]: "resolved (d\<lparr>db_stocks := bs\<rparr>) rid \<longleftrightarrow> resolved d rid"
  by (simp add: resolved_def staged_def)

lemma joins_ignore_stocks [simp]:
  "explicit_pairs (d\<lparr>db_stocks := bs\<rparr>) rid = explicit_pairs d rid"
  "affected_warehouses (d\<lparr>db_stocks := bs\<rparr>) rid = affected_warehouses d rid"
  "is_missing (d\<lparr>db_stocks := bs\<rparr>) rid = is_missing d rid"
  "staged (d\<lparr>db_stocks := bs\<rparr>) rid = staged d rid"
  by (simp_all add: explicit_pairs_def affected_warehouses_def is_missing_def staged_def fun_eq_iff)

definition zeroed_stocks :: "db \<Rightarrow> int \<Rightarrow> int \<Rightarrow> stock_balance list \<Rightarrow> stock_balance list" where
  "zeroed_stocks d rid now bs = map (\<lambda>b.
     if sb_warehouse_id b \<in> set (affected_warehouses d rid) \<and> is_missing d rid b
     then b\<lparr>sb_quantity := 0, sb_updated_at := now\<rparr> else b) bs"

lemma zero_missing_eq:
  "zero_missing_stocks rid now d sq = Some (d\<lparr>db_stocks := zeroed_stocks d rid now (db_stocks d)\<rparr>, sq)"
  by (simp add: zero_missing_stocks_def zeroed_stocks_def)

lemma zeroed_constraints:
  assumes "constraints_ok d"
  shows "constraints_ok (d\<lparr>db_stocks := zeroed_stocks d rid now (db_stocks d)\<rparr>)"
proof -
  have keys: "map stock_key (zeroed_stocks d rid now bs) = map stock_key bs" for bs
    by (simp add: zeroed_stocks_def stock_key_def)
  have z: "quantity_ok 0" by (simp add: quantity_ok_def bigint_def POSTGRES_BIGINT_MAX_def)
  have "list_all (\<lambda>b. quantity_ok (sb_quantity b) \<and> sb_warehouse_id b \<in> set (map ct_id (db_warehouses d))
      \<and> sb_product_id b \<in> set (map ct_id (db_products d))) (zeroed_stocks d rid now (db_stocks d))"
    using assms z by (auto simp: constraints_ok_def stocks_ok_def list_all_iff zeroed_stocks_def)
  then have "stocks_ok (d\<lparr>db_stocks := zeroed_stocks d rid now (db_stocks d)\<rparr>)"
    using assms keys [of "db_stocks d"] by (simp add: constraints_ok_def stocks_ok_def)
  then show ?thesis
    using assms by (simp add: constraints_ok_def reports_ok_def staging_ok_def errors_ok_def)
qed

text \<open>Both statements together, on the abstract stock.\<close>

lemma balances_snapshot:
  assumes res: "resolved d rid" and up: "upserted (explicit_pairs d rid) (db_stocks d) bs'"
  shows "abs_stock (d\<lparr>db_stocks := zeroed_stocks d rid now bs'\<rparr>) = snapshot (staged d rid) (abs_stock d)"
proof
  fix x :: "pystr \<times> pystr"
  obtain c k where x: "x = (c, k)" by (cases x)
  let ?d' = "d\<lparr>db_stocks := zeroed_stocks d rid now bs'\<rparr>"
  have unknown: "reported (staged d rid) (c, k) = None"
    if "id_of (db_warehouses d) c = None \<or> id_of (db_products d) k = None"
    using that resolved_ids [OF res] by (auto simp: reported_def map_of_eq_None_iff)
  show "abs_stock ?d' x = snapshot (staged d rid) (abs_stock d) x"
  proof (cases "\<exists>w p. id_of (db_warehouses d) c = Some w \<and> id_of (db_products d) k = Some p")
    case False
    then show ?thesis using unknown
      by (auto simp: abs_stock_def snapshot_def x split: option.splits)
  next
    case True
    then obtain w p where wp: "id_of (db_warehouses d) c = Some w" "id_of (db_products d) k = Some p" by blast
    have aff: "w \<in> set (affected_warehouses d rid) \<longleftrightarrow> c \<in> reported_warehouses (staged d rid)"
      unfolding affected_resolved [OF res] reported_warehouses_def
      using resolved_inj(1) [OF res _ wp] by (auto simp: image_iff)
    have q': "quantity_of bs' (w, p) = (case reported (staged d rid) (c, k) of
        None \<Rightarrow> quantity_of (db_stocks d) (w, p) | Some q \<Rightarrow> Some q)"
      using up source_map_resolved [OF res wp] by (simp add: upserted_def)
    have "quantity_of (zeroed_stocks d rid now bs') (w, p) =
        (if w \<in> set (affected_warehouses d rid) \<and> source_map (explicit_pairs d rid) (w, p) = None
         then map_option (\<lambda>_. 0) (quantity_of bs' (w, p)) else quantity_of bs' (w, p))"
      unfolding zeroed_stocks_def
      by (rule quantity_of_zeroed [where miss = "is_missing d rid"]) (simp_all add: is_missing_resolved)
    then show ?thesis
      using wp aff q' source_map_resolved [OF res wp]
      by (auto simp: abs_stock_def snapshot_def x split: option.splits)
  qed
qed

subsection \<open>The counters\<close>

text \<open>The pairs whose change \<open>classify_stock_change\<close> puts into a class.\<close>

definition stock_changes :: "staging_row list \<Rightarrow> stock_map \<Rightarrow> counter_kind \<Rightarrow> (pystr \<times> pystr) set" where
  "stock_changes rows m kind =
     {x. classify_stock_change (m x) (reported rows x) (fst x \<in> reported_warehouses rows) = Some kind}"

lemma changes_same_rows: "same_rows rows rows' \<Longrightarrow> stock_changes rows m kind = stock_changes rows' m kind"
  by (simp add: stock_changes_def same_rows_reported same_rows_warehouses)

lemma no_changes_after_snapshot: "stock_changes rows (snapshot rows m) kind = {}"
  by (auto simp: stock_changes_def classify_stock_change_def snapshot_def split: option.splits if_splits)

lemma reported_row:
  assumes "no_duplicates rows" and "s \<in> set rows"
  shows "reported rows (pair_key s) = Some (sg_quantity s)"
  using assms unfolding no_duplicates_def pair_key_def [abs_def] reported_def
  by (intro map_of_is_SomeI) (auto simp: comp_def)

lemma reported_Some: "reported rows x = Some q \<Longrightarrow> \<exists>s \<in> set rows. pair_key s = x \<and> sg_quantity s = q"
  by (auto simp: reported_def pair_key_def dest!: map_of_SomeD)

lemma count_rows:
  assumes "no_duplicates rows" and "\<And>x. x \<in> S \<longleftrightarrow> (\<exists>s \<in> set rows. pair_key s = x \<and> P s)"
  shows "length (filter P rows) = card S"
proof -
  have "S = pair_key ` set (filter P rows)"
    by (rule set_eqI) (simp add: assms(2) image_iff, blast)
  moreover have "distinct (map pair_key (filter P rows))"
    using assms(1) by (simp add: no_duplicates_def distinct_map_filter)
  ultimately show ?thesis by (metis distinct_card length_map set_map)
qed

lemma left_join_resolved:
  assumes "distinct (map stock_key (db_stocks d))"
  shows "left_join d (w, p, q) = [(quantity_of (db_stocks d) (w, p), q)]"
  unfolding left_join_def using find_stock_filter [OF assms, of w p]
  by (simp add: quantity_of_def split: option.split)

lemma joined_resolved:
  assumes "resolved d rid" and "distinct (map stock_key (db_stocks d))"
  shows "concat (map (left_join d) (explicit_pairs d rid))
    = map (\<lambda>s. (abs_stock d (pair_key s), sg_quantity s)) (staged d rid)"
proof -
  have "left_join d (warehouse_id d s, product_id d s, sg_quantity s) = [(abs_stock d (pair_key s), sg_quantity s)]"
    if "s \<in> set (staged d rid)" for s
    using resolved_ids [OF assms(1) that] left_join_resolved [OF assms(2)]
    by (simp add: abs_stock_def pair_key_def)
  then show ?thesis
    unfolding explicit_pairs_resolved [OF assms(1)] map_map comp_def by (intro concat_map_single)
qed

lemma counters_created_updated:
  assumes "resolved d rid" and "distinct (map stock_key (db_stocks d))" and nd: "no_duplicates (staged d rid)"
  shows "fst (calculate_counters rid d) = int (card (stock_changes (staged d rid) (abs_stock d) Created))"
    and "fst (snd (calculate_counters rid d)) = int (card (stock_changes (staged d rid) (abs_stock d) Updated))"
proof -
  let ?m = "abs_stock d" and ?rows = "staged d rid"
  have c: "x \<in> stock_changes ?rows ?m Created \<longleftrightarrow> (\<exists>s \<in> set ?rows. pair_key s = x \<and> ?m (pair_key s) = None)" for x
    using reported_row [OF nd] reported_Some [of ?rows x]
    by (fastforce simp: stock_changes_def classify_stock_change_def split: option.splits if_splits)
  have u: "x \<in> stock_changes ?rows ?m Updated \<longleftrightarrow>
      (\<exists>s \<in> set ?rows. pair_key s = x \<and> ?m (pair_key s) \<noteq> None \<and> ?m (pair_key s) \<noteq> Some (sg_quantity s))" for x
    using reported_row [OF nd] reported_Some [of ?rows x]
    by (fastforce simp: stock_changes_def classify_stock_change_def split: option.splits if_splits)
  show "fst (calculate_counters rid d) = int (card (stock_changes ?rows ?m Created))"
    using count_rows [OF nd c]
    by (simp add: calculate_counters_def joined_resolved [OF assms(1,2)] filter_map comp_def)
  show "fst (snd (calculate_counters rid d)) = int (card (stock_changes ?rows ?m Updated))"
    using count_rows [OF nd u]
    by (simp add: calculate_counters_def joined_resolved [OF assms(1,2)] filter_map comp_def)
qed

lemma length_concat_filter:
  assumes "distinct A"
  shows "length (concat (map (\<lambda>b. filter (\<lambda>a. a = f b \<and> P b) A) bs)) = length (filter (\<lambda>b. f b \<in> set A \<and> P b) bs)"
proof -
  have "length (filter (\<lambda>a. a = x \<and> Q) A) = (if x \<in> set A \<and> Q then 1 else 0)" for x Q
    using assms by (induction A) auto
  then show ?thesis by (induction bs) simp_all
qed

text \<open>The balances the zeroing statement counts and changes, and the pairs they stand for.\<close>

definition zeroed_row :: "db \<Rightarrow> int \<Rightarrow> stock_balance \<Rightarrow> bool" where
  "zeroed_row d rid b \<longleftrightarrow> sb_warehouse_id b \<in> set (affected_warehouses d rid) \<and> is_missing d rid b"

definition pair_ids :: "db \<Rightarrow> pystr \<times> pystr \<Rightarrow> int \<times> int" where
  "pair_ids d = (\<lambda>(c, k). (the (id_of (db_warehouses d) c), the (id_of (db_products d) k)))"

lemma affected_iff:
  assumes "resolved d rid" and "id_of (db_warehouses d) c = Some w" and "id_of (db_products d) k = Some p"
  shows "w \<in> set (affected_warehouses d rid) \<longleftrightarrow> c \<in> reported_warehouses (staged d rid)"
  unfolding affected_resolved [OF assms(1)] reported_warehouses_def
  using resolved_inj(1) [OF assms(1) _ assms(2,3)] by (auto simp: image_iff)

lemma zeroed_pair:
  assumes res: "resolved d rid" and z: "(c, k) \<in> stock_changes (staged d rid) (abs_stock d) Zeroed"
  shows "\<exists>w p b. id_of (db_warehouses d) c = Some w \<and> id_of (db_products d) k = Some p
    \<and> b \<in> set (db_stocks d) \<and> stock_key b = (w, p) \<and> zeroed_row d rid b"
proof -
  have m: "abs_stock d (c, k) \<noteq> None" "abs_stock d (c, k) \<noteq> Some 0"
    "c \<in> reported_warehouses (staged d rid)" "reported (staged d rid) (c, k) = None"
    using z by (auto simp: stock_changes_def classify_stock_change_def split: option.splits if_splits)
  then obtain w p b where wp: "id_of (db_warehouses d) c = Some w" "id_of (db_products d) k = Some p"
    "find_stock (db_stocks d) w p = Some b" "sb_quantity b \<noteq> 0"
    by (auto simp: abs_stock_def quantity_of_def split: option.splits)
  have key: "b \<in> set (db_stocks d)" "stock_key b = (w, p)" using find_stock_Some [OF wp(3)] by simp_all
  have "zeroed_row d rid b"
    using key(2) wp(4) affected_iff [OF res wp(1,2)] m(3,4) source_map_resolved [OF res wp(1,2)]
    by (simp add: zeroed_row_def is_missing_resolved stock_key_def)
  with wp key show ?thesis by blast
qed

lemma zeroed_stock:
  assumes res: "resolved d rid" and ok: "constraints_ok d" and b: "b \<in> set (db_stocks d)" "zeroed_row d rid b"
  shows "\<exists>x \<in> stock_changes (staged d rid) (abs_stock d) Zeroed. pair_ids d x = stock_key b"
proof -
  have cat: "catalog_ok (db_warehouses d)" "catalog_ok (db_products d)" using res by (simp_all add: resolved_def)
  obtain cw cp where cp: "cw \<in> set (db_warehouses d)" "ct_id cw = sb_warehouse_id b"
      "cp \<in> set (db_products d)" "ct_id cp = sb_product_id b"
    using stocks_ok_ids [of d] ok b(1) by (fastforce simp: constraints_ok_def list_all_iff)
  then have ids: "id_of (db_warehouses d) (ct_code cw) = Some (sb_warehouse_id b)"
      "id_of (db_products d) (ct_code cp) = Some (sb_product_id b)"
    using id_of_unique(1) [OF cat(1)] id_of_unique(1) [OF cat(2)] by simp_all
  have "quantity_of (db_stocks d) (stock_key b) = Some (sb_quantity b)"
    by (rule quantity_of_in) (use ok b(1) in \<open>simp_all add: constraints_ok_def stocks_ok_def\<close>)
  with ids b(2) affected_iff [OF res ids] source_map_resolved [OF res ids]
  have "(ct_code cw, ct_code cp) \<in> stock_changes (staged d rid) (abs_stock d) Zeroed"
    by (simp add: stock_changes_def classify_stock_change_def zeroed_row_def is_missing_resolved
        abs_stock_def stock_key_def)
  moreover have "pair_ids d (ct_code cw, ct_code cp) = stock_key b"
    using ids by (simp add: stock_key_def pair_ids_def)
  ultimately show ?thesis by blast
qed

lemma counters_zeroed:
  assumes res: "resolved d rid" and ok: "constraints_ok d"
  shows "snd (snd (calculate_counters rid d)) = int (card (stock_changes (staged d rid) (abs_stock d) Zeroed))"
proof -
  let ?Z = "stock_changes (staged d rid) (abs_stock d) Zeroed"
  have dist: "distinct (map stock_key (db_stocks d))" using ok by (simp add: constraints_ok_def stocks_ok_def)
  have cat: "catalog_ok (db_warehouses d)" "catalog_ok (db_products d)" using res by (simp_all add: resolved_def)
  have "inj_on (pair_ids d) ?Z"
  proof (rule inj_onI)
    fix x y
    assume xy: "x \<in> ?Z" "y \<in> ?Z" "pair_ids d x = pair_ids d y"
    obtain c k c' k' where p: "x = (c, k)" "y = (c', k')" by (cases x, cases y) auto
    show "x = y"
      using zeroed_pair [OF res, of c k] zeroed_pair [OF res, of c' k'] xy p
        id_of_inj [OF cat(1), of c _ c'] id_of_inj [OF cat(2), of k _ k']
      by (auto simp: pair_ids_def)
  qed
  moreover have "pair_ids d ` ?Z = stock_key ` set (filter (zeroed_row d rid) (db_stocks d))"
    using zeroed_pair [OF res] zeroed_stock [OF res ok] by (force simp: image_iff pair_ids_def)
  ultimately have "card ?Z = card (stock_key ` set (filter (zeroed_row d rid) (db_stocks d)))"
    by (metis card_image)
  also have "\<dots> = length (filter (zeroed_row d rid) (db_stocks d))"
    using distinct_card [OF distinct_map_filter [OF dist, of "zeroed_row d rid"]] by simp
  also have "\<dots> = length (concat (map (\<lambda>b. filter (\<lambda>a. a = sb_warehouse_id b \<and> is_missing d rid b)
      (affected_warehouses d rid)) (db_stocks d)))"
    unfolding zeroed_row_def [abs_def] by (rule length_concat_filter [symmetric]) (simp add: affected_warehouses_def)
  finally show ?thesis by (simp only: calculate_counters_def Let_def snd_conv)
qed

end
