(* ===== verification/ApplyProperties.thy ===== *)
theory ApplyProperties
  imports StockSnapshot
begin

text \<open>
  The application of a report as a whole: its effect on the tables, its atomicity, and that it
  succeeds when nothing in the environment fails.
\<close>

subsection \<open>The tables an application leaves\<close>

lemma find_report_Some: "find_report rid d = Some r \<Longrightarrow> r \<in> set (db_reports d) \<and> rp_id r = rid"
  by (auto simp: find_report_def find_Some_iff)

lemma report_unique:
  assumes "reports_ok d" and "r \<in> set (db_reports d)" and "r' \<in> set (db_reports d)" and "rp_id r = rp_id r'"
  shows "r = r'"
  using assms by (auto simp: reports_ok_def distinct_map inj_on_def)

lemma find_report_in:
  assumes "reports_ok d" and "r \<in> set (db_reports d)"
  shows "find_report (rp_id r) d = Some r"
proof -
  have "find_report (rp_id r) d \<noteq> None"
    using assms(2) by (auto simp: find_report_def find_None_iff)
  then obtain r' where "find_report (rp_id r) d = Some r'" by blast
  with find_report_Some [OF this] report_unique [OF assms(1)] assms(2) show ?thesis by metis
qed

lemma find_report_update:
  assumes "db_reports d' = map (\<lambda>r. if rp_id r = rid then f r else r) (db_reports d)"
    and "\<And>r. rp_id (f r) = rp_id r"
  shows "find_report rid' d' = map_option (\<lambda>r. if rp_id r = rid then f r else r) (find_report rid' d)"
proof -
  have "find (\<lambda>r. rp_id r = rid') (map (\<lambda>r. if rp_id r = rid then f r else r) rs)
      = map_option (\<lambda>r. if rp_id r = rid then f r else r) (find (\<lambda>r. rp_id r = rid') rs)" for rs
    by (induction rs) (auto simp: assms(2))
  then show ?thesis by (simp add: find_report_def assms(1))
qed

lemma filter_update_others:
  assumes "\<And>r. rp_id (f r) = rp_id r"
  shows "filter (\<lambda>r. rp_id r \<noteq> rid) (map (\<lambda>r. if rp_id r = rid then f r else r) rs)
    = filter (\<lambda>r. rp_id r \<noteq> rid) rs"
  by (induction rs) (auto simp: assms)

lemma rows_ok_cong:
  "db_staging d' = db_staging d \<Longrightarrow> map rp_id (db_reports d') = map rp_id (db_reports d) \<Longrightarrow> staging_ok d' = staging_ok d"
  "db_errors d' = db_errors d \<Longrightarrow> map rp_id (db_reports d') = map rp_id (db_reports d) \<Longrightarrow> errors_ok d' = errors_ok d"
  "db_stocks d' = db_stocks d \<Longrightarrow> db_warehouses d' = db_warehouses d \<Longrightarrow> db_products d' = db_products d \<Longrightarrow>
     stocks_ok d' = stocks_ok d"
  by (simp_all only: staging_ok_def errors_ok_def stocks_ok_def)

text \<open>A change of reports that keeps identity and object, and respects the checks, keeps the constraints.\<close>

lemma update_reports_constraints:
  assumes "constraints_ok d" and "update_reports cond change now d sq = Some (d', sq')"
    and "\<And>r. rp_id (change now r) = rp_id r \<and> object_ref (change now r) = object_ref r"
    and "\<And>r. r \<in> set (db_reports d) \<Longrightarrow> cond r \<Longrightarrow> report_ok (change now r)"
  shows "constraints_ok d'"
proof -
  let ?f = "\<lambda>r. if cond r then change now r else r"
  have d': "d' = d\<lparr>db_reports := map ?f (db_reports d)\<rparr>" using assms(2) by (simp add: update_reports_def)
  have ids: "map rp_id (map ?f rs) = map rp_id rs" and refs: "map object_ref (map ?f rs) = map object_ref rs" for rs
    using assms(3) by simp_all
  have "list_all report_ok (map ?f (db_reports d))"
    using assms(1,4) by (auto simp: constraints_ok_def reports_ok_def list_all_iff)
  moreover have "distinct (map rp_id (map ?f (db_reports d)))" "distinct (map object_ref (map ?f (db_reports d)))"
    using assms(1) unfolding ids refs constraints_ok_def reports_ok_def by simp_all
  ultimately have "reports_ok d'" unfolding d' reports_ok_def by simp
  moreover have "staging_ok d'" "errors_ok d'" "stocks_ok d'"
    using assms(1) rows_ok_cong [of d' d] ids unfolding constraints_ok_def by (simp_all add: d' del: map_map)
  ultimately show ?thesis using assms(1) unfolding d' constraints_ok_def by simp
qed

lemma delete_staging_constraints:
  "constraints_ok d \<Longrightarrow> delete_staging rid now d sq = Some (d', sq') \<Longrightarrow> constraints_ok d'"
  by (auto simp: delete_staging_def constraints_ok_def reports_ok_def stocks_ok_def staging_ok_def
      errors_ok_def list_all_iff distinct_map_filter)

text \<open>What an application makes of the tables, when its statements succeed.\<close>

definition applied :: "int \<Rightarrow> int \<Rightarrow> db \<Rightarrow> db \<Rightarrow> int \<times> int \<times> int \<Rightarrow> bool" where
  "applied rid now d d' counters \<longleftrightarrow>
     abs_stock d' = snapshot (staged d rid) (abs_stock d)
     \<and> counters = (int (card (stock_changes (staged d rid) (abs_stock d) Created)),
                   int (card (stock_changes (staged d rid) (abs_stock d) Updated)),
                   int (card (stock_changes (staged d rid) (abs_stock d) Zeroed)))
     \<and> (\<forall>c. name_of (db_warehouses d') c = (case latest_name sg_warehouse_code sg_warehouse_name (staged d rid) c of
            None \<Rightarrow> name_of (db_warehouses d) c | Some n \<Rightarrow> Some n))
     \<and> (\<forall>c. name_of (db_products d') c = (case latest_name sg_sku sg_product_name (staged d rid) c of
            None \<Rightarrow> name_of (db_products d) c | Some n \<Rightarrow> Some n))
     \<and> db_reports d' = map (\<lambda>r. if rp_id r = rid then complete_report counters now r else r) (db_reports d)
     \<and> db_staging d' = filter (\<lambda>s. sg_report_id s \<noteq> rid) (db_staging d)
     \<and> db_errors d' = db_errors d"

lemma appliedD:
  assumes "applied rid now d d' c"
  shows "abs_stock d' = snapshot (staged d rid) (abs_stock d)"
    and "db_reports d' = map (\<lambda>r. if rp_id r = rid then complete_report c now r else r) (db_reports d)"
    and "db_staging d' = filter (\<lambda>s. sg_report_id s \<noteq> rid) (db_staging d)"
    and "db_errors d' = db_errors d"
  using assms by (simp_all add: applied_def)

lemma complete_report_id [simp]: "rp_id (complete_report c now r) = rp_id r"
  by (simp add: complete_report_def split: prod.split)

lemma applied_report:
  assumes "applied rid now d d' c" and "find_report rid d = Some r"
  shows "find_report rid d' = Some (complete_report c now r)"
  using find_report_update [of d' rid "complete_report c now" d rid] appliedD(2) [OF assms(1)]
    find_report_Some [OF assms(2)] assms(2)
  by simp

lemma abs_stock_cong:
  "db_warehouses d' = db_warehouses d \<Longrightarrow> db_products d' = db_products d \<Longrightarrow> db_stocks d' = db_stocks d \<Longrightarrow>
     abs_stock d' = abs_stock d"
  by (rule ext) (auto simp: abs_stock_def split: option.splits)

lemma calculate_counters_spec:
  assumes "resolved d rid" and "constraints_ok d" and "no_duplicates (staged d rid)"
  shows "calculate_counters rid d =
    (int (card (stock_changes (staged d rid) (abs_stock d) Created)),
     int (card (stock_changes (staged d rid) (abs_stock d) Updated)),
     int (card (stock_changes (staged d rid) (abs_stock d) Zeroed)))"
proof -
  have "distinct (map stock_key (db_stocks d))" using assms(2) by (simp add: constraints_ok_def stocks_ok_def)
  with counters_created_updated [OF assms(1) _ assms(3)] counters_zeroed [OF assms(1,2)]
  show ?thesis by (simp add: prod_eq_iff)
qed

text \<open>
  The intermediate tables are named so that the action below can follow them: each statement
  succeeds and each table but the last is known to satisfy the constraints.
\<close>

lemma apply_tables_run:
  assumes ok: "constraints_ok d" "catalogs_ok d sq" and nd: "no_duplicates (staged d rid)"
  shows "\<exists>d1 sq1 d2 sq2 d3 d4 d5 d6.
    upsert_warehouses le rid now d sq = Some (d1, sq1) \<and> constraints_ok d1
    \<and> upsert_products le rid now d1 sq1 = Some (d2, sq2) \<and> constraints_ok d2
    \<and> apply_explicit_stocks rid now d2 sq2 = Some (d3, sq2) \<and> constraints_ok d3
    \<and> zero_missing_stocks rid now d3 sq2 = Some (d4, sq2) \<and> constraints_ok d4
    \<and> delete_staging rid now d4 sq2 = Some (d5, sq2) \<and> constraints_ok d5
    \<and> update_reports (\<lambda>r. rp_id r = rid) (complete_report (calculate_counters rid d2)) now d5 sq2 = Some (d6, sq2)
    \<and> applied rid now d d6 (calculate_counters rid d2) \<and> catalogs_ok d6 sq2 \<and> db_reports d5 = db_reports d"
proof -
  obtain d1 sq1 d2 sq2 where u: "upsert_warehouses le rid now d sq = Some (d1, sq1)"
      "upsert_products le rid now d1 sq1 = Some (d2, sq2)"
    using upserts_total by blast
  note frame = upserts_frame [OF u] and spec = upserts_spec [OF u ok]
  have st: "staged d2 rid = staged d rid" "staged d1 rid = staged d rid"
    using frame by (simp_all add: staged_def)
  then have nd2: "no_duplicates (staged d2 rid)" using nd by simp
  obtain bs' where e: "apply_explicit_stocks rid now d2 sq2 = Some (d2\<lparr>db_stocks := bs'\<rparr>, sq2)"
      "upserted (explicit_pairs d2 rid) (db_stocks d2) bs'" "constraints_ok (d2\<lparr>db_stocks := bs'\<rparr>)"
    using explicit_spec [OF spec(3) nd2 spec(6)] by blast
  let ?d4 = "d2\<lparr>db_stocks := zeroed_stocks d2 rid now bs'\<rparr>"
  have z: "zero_missing_stocks rid now (d2\<lparr>db_stocks := bs'\<rparr>) sq2 = Some (?d4, sq2)"
    by (simp add: zero_missing_eq zeroed_stocks_def)
  have c4: "constraints_ok ?d4"
    using zeroed_constraints [OF e(3), of rid now] by (simp add: zeroed_stocks_def)
  let ?d5 = "?d4\<lparr>db_staging := filter (\<lambda>s. sg_report_id s \<noteq> rid) (db_staging d2)\<rparr>"
  have del: "delete_staging rid now ?d4 sq2 = Some (?d5, sq2)" by (simp add: delete_staging_def)
  have c5: "constraints_ok ?d5" by (rule delete_staging_constraints [OF c4 del])
  let ?c = "calculate_counters rid d2"
  let ?d6 = "?d5\<lparr>db_reports := map (\<lambda>r. if rp_id r = rid then complete_report ?c now r else r) (db_reports d2)\<rparr>"
  have up: "update_reports (\<lambda>r. rp_id r = rid) (complete_report ?c) now ?d5 sq2 = Some (?d6, sq2)"
    by (simp add: update_reports_def)
  have "abs_stock ?d6 = abs_stock ?d4" by (rule abs_stock_cong) simp_all
  moreover have "abs_stock ?d4 = snapshot (staged d rid) (abs_stock d)"
    using balances_snapshot [OF spec(3) e(2)] st spec(4) by simp
  moreover have "name_of (db_warehouses d2) k = (case latest_name sg_warehouse_code sg_warehouse_name (staged d rid) k of
        None \<Rightarrow> name_of (db_warehouses d) k | Some n \<Rightarrow> Some n)" for k
    using warehouses.upsert_names [OF u(1)] frame(5) by (simp split: option.split)
  moreover have "name_of (db_products d2) k = (case latest_name sg_sku sg_product_name (staged d rid) k of
        None \<Rightarrow> name_of (db_products d) k | Some n \<Rightarrow> Some n)" for k
    using products.upsert_names [OF u(2), of k] frame(6) st(2) by (simp split: option.split)
  ultimately have "applied rid now d ?d6 ?c"
    using calculate_counters_spec [OF spec(3,6) nd2] st spec(4) frame by (simp add: applied_def)
  moreover have "catalogs_ok ?d6 sq2" using spec(2) by (simp add: catalogs_ok_def)
  ultimately show ?thesis
    using u spec(5,6) e z c4 del c5 up frame(3) by (intro exI conjI) (assumption | simp)+
qed

text \<open>The counters fit their columns as soon as the rows they count are fewer than \<open>2^63\<close>.\<close>

lemma changes_rows_card:
  assumes "no_duplicates rows" and "kind \<noteq> Zeroed"
  shows "card (stock_changes rows m kind) \<le> length rows"
proof -
  have "x \<in> pair_key ` set rows" if "x \<in> stock_changes rows m kind" for x
  proof -
    have "reported rows x \<noteq> None"
      using that assms(2) by (auto simp: stock_changes_def classify_stock_change_def split: option.splits if_splits)
    then show ?thesis using reported_Some [of rows x] by blast
  qed
  then have "card (stock_changes rows m kind) \<le> card (pair_key ` set rows)"
    by (intro card_mono) auto
  also have "\<dots> \<le> length rows" by (metis card_length length_map set_map)
  finally show ?thesis .
qed

lemma changes_zeroed_card:
  assumes "constraints_ok d"
  shows "card (stock_changes rows (abs_stock d) Zeroed) \<le> length (db_stocks d)"
proof -
  have cat: "catalog_ok (db_warehouses d)" "catalog_ok (db_products d)"
    using assms by (simp_all add: constraints_ok_def)
  have Z: "\<exists>w p. id_of (db_warehouses d) (fst x) = Some w \<and> id_of (db_products d) (snd x) = Some p
      \<and> (w, p) \<in> stock_key ` set (db_stocks d)"
    if "x \<in> stock_changes rows (abs_stock d) Zeroed" for x
  proof -
    have "abs_stock d x \<noteq> None"
      using that by (auto simp: stock_changes_def classify_stock_change_def split: option.splits if_splits)
    then obtain w p where wp: "id_of (db_warehouses d) (fst x) = Some w" "id_of (db_products d) (snd x) = Some p"
      "find_stock (db_stocks d) w p \<noteq> None"
      by (auto simp: abs_stock_def quantity_of_def split: option.splits prod.splits)
    with find_stock_None [of "db_stocks d" w p] show ?thesis by blast
  qed
  have "inj_on (pair_ids d) (stock_changes rows (abs_stock d) Zeroed)"
  proof (rule inj_onI)
    fix x y
    assume "x \<in> stock_changes rows (abs_stock d) Zeroed" "y \<in> stock_changes rows (abs_stock d) Zeroed"
      "pair_ids d x = pair_ids d y"
    with Z [of x] Z [of y] obtain w p where
      "id_of (db_warehouses d) (fst x) = Some w" "id_of (db_warehouses d) (fst y) = Some w"
      "id_of (db_products d) (snd x) = Some p" "id_of (db_products d) (snd y) = Some p"
      by (cases x; cases y) (auto simp: pair_ids_def)
    then show "x = y" using id_of_inj [OF cat(1)] id_of_inj [OF cat(2)] by (simp add: prod_eq_iff)
  qed
  moreover have "pair_ids d ` stock_changes rows (abs_stock d) Zeroed \<subseteq> stock_key ` set (db_stocks d)"
  proof
    fix i
    assume "i \<in> pair_ids d ` stock_changes rows (abs_stock d) Zeroed"
    then obtain x where x: "x \<in> stock_changes rows (abs_stock d) Zeroed" "i = pair_ids d x" by blast
    from Z [OF x(1)] x(2) show "i \<in> stock_key ` set (db_stocks d)" by (cases x) (auto simp: pair_ids_def)
  qed
  ultimately have "card (stock_changes rows (abs_stock d) Zeroed) \<le> card (stock_key ` set (db_stocks d))"
    by (metis card_inj_on_le finite_imageI finite_set)
  also have "\<dots> \<le> length (db_stocks d)" by (metis card_length length_map set_map)
  finally show ?thesis .
qed

lemma complete_report_fits:
  assumes "constraints_ok d" and "no_duplicates (staged d rid)" and "applied rid now d d' c"
    and "len (staged d rid) \<le> POSTGRES_BIGINT_MAX" and "len (db_stocks d) \<le> POSTGRES_BIGINT_MAX"
    and "r \<in> set (db_reports d)"
  shows "report_ok (complete_report c now r)"
proof -
  have n: "int n \<le> POSTGRES_BIGINT_MAX \<Longrightarrow> 0 \<le> int n \<and> bigint (int n)" for n
    by (simp add: bigint_def POSTGRES_BIGINT_MAX_def)
  have "report_ok r" using assms(1,6) by (simp add: constraints_ok_def reports_ok_def list_all_iff)
  then show ?thesis
    using assms(3) n changes_rows_card [OF assms(2), of Created "abs_stock d"]
      changes_rows_card [OF assms(2), of Updated "abs_stock d"] changes_zeroed_card [OF assms(1), of "staged d rid"]
      assms(4,5)
    by (simp add: applied_def complete_report_def report_ok_def storable_opt_def)
qed

subsection \<open>Running the application\<close>

lemma with_collation_at: "at w now d sq e \<Longrightarrow> with_collation g w = g (env_collate e) w"
  by (simp add: with_collation_def at_def)

text \<open>
  What the method relies on of the callables it is given: they do not touch the session's data.
\<close>

locale apply_guards =
  fixes after_step :: "(apply_step \<Rightarrow> ('x, unit) proc) option" and assert_lock_alive :: "('x, unit) proc"
  assumes silent_alive: "silent assert_lock_alive"
    and silent_hook: "silent (run_hook after_step step)"
begin

lemma stage_Inr:
  assumes "apply_stage after_step assert_lock_alive m step w = (Inr u, w')" and "at w now d sq e"
    and "m w = execute f w" and "f now d sq = Some (d', sq')"
  shows "at w' now d' sq' e \<and> constraints_ok d'"
proof -
  have "then_act (execute f) (then_act (run_hook after_step step) assert_lock_alive) w = (Inr u, w')"
    using assms(1,3) by (simp add: apply_stage_def act_simps)
  from then_execute [OF this assms(2,4)] obtain w1 where
    w1: "at w1 now d' sq' e" "then_act (run_hook after_step step) assert_lock_alive w1 = (Inr u, w')" "constraints_ok d'"
    by blast
  from then_silent [OF w1(2,1) silent_hook] obtain w2 where "at w2 now d' sq' e" "assert_lock_alive w2 = (Inr u, w')"
    by blast
  with w1(3) silent_alive show ?thesis by (auto simp: silent_def dest!: spec [of _ w2])
qed

lemma completion_Inr:
  assumes "apply_completion after_step assert_lock_alive rid c w = (Inr u, w')" and "at w now d sq e"
    and "delete_staging rid now d sq = Some (d1, sq1)"
    and "update_reports (\<lambda>r. rp_id r = rid) (complete_report c) now d1 sq1 = Some (d', sq')"
  shows "at w' now d' sq' e \<and> constraints_ok d'"
proof -
  from then_silent [OF assms(1) [unfolded apply_completion_def] assms(2) silent_hook] obtain w1 where
    w1: "at w1 now d sq e" "then_act (execute (delete_staging rid)) (then_act (execute
        (update_reports (\<lambda>r. rp_id r = rid) (complete_report c))) assert_lock_alive) w1 = (Inr u, w')" by blast
  from then_execute [OF w1(2,1) assms(3)] obtain w2 where
    w2: "at w2 now d1 sq1 e" "then_act (execute
        (update_reports (\<lambda>r. rp_id r = rid) (complete_report c))) assert_lock_alive w2 = (Inr u, w')" by blast
  from then_execute [OF w2(2,1) assms(4)] obtain w3 where
    "at w3 now d' sq' e" "assert_lock_alive w3 = (Inr u, w')" "constraints_ok d'" by blast
  with silent_alive show ?thesis by (auto simp: silent_def dest!: spec [of _ w3])
qed

lemma apply_steps_Inr:
  assumes a: "at w now d sq e" and ok: "constraints_ok d" "catalogs_ok d sq" and nd: "no_duplicates (staged d rid)"
    and run: "apply_steps after_step rid assert_lock_alive w = (Inr c, w')"
  shows "\<exists>d' sq'. at w' now d' sq' e \<and> applied rid now d d' c \<and> constraints_ok d' \<and> catalogs_ok d' sq'"
proof -
  obtain d1 sq1 d2 sq2 d3 d4 d5 d6 where
    t: "upsert_warehouses (env_collate e) rid now d sq = Some (d1, sq1)"
      "upsert_products (env_collate e) rid now d1 sq1 = Some (d2, sq2)"
      "apply_explicit_stocks rid now d2 sq2 = Some (d3, sq2)"
      "zero_missing_stocks rid now d3 sq2 = Some (d4, sq2)"
      "delete_staging rid now d4 sq2 = Some (d5, sq2)"
      "update_reports (\<lambda>r. rp_id r = rid) (complete_report (calculate_counters rid d2)) now d5 sq2 = Some (d6, sq2)"
    and res: "applied rid now d d6 (calculate_counters rid d2)" "catalogs_ok d6 sq2"
    using apply_tables_run [OF ok nd, of "env_collate e" now] by blast
  let ?stage = "apply_stage after_step assert_lock_alive"
  from run obtain u1 w1 u2 w2 c' w3 u3 w4 u4 w5 u5 w6 where
    r: "?stage (with_collation (\<lambda>le. execute (upsert_warehouses le rid))) WAREHOUSES_UPSERTED w = (Inr u1, w1)"
      "?stage (with_collation (\<lambda>le. execute (upsert_products le rid))) PRODUCTS_UPSERTED w1 = (Inr u2, w2)"
      "query (calculate_counters rid) w2 = (Inr c', w3)"
      "?stage (execute (apply_explicit_stocks rid)) EXPLICIT_STOCKS_APPLIED w3 = (Inr u3, w4)"
      "?stage (execute (zero_missing_stocks rid)) MISSING_STOCKS_ZEROED w4 = (Inr u4, w5)"
      "apply_completion after_step assert_lock_alive rid c' w5 = (Inr u5, w6)" "ret c' w6 = (Inr c, w')"
    unfolding apply_steps_def Let_def act_iffs by blast
  have 1: "at w1 now d1 sq1 e" using stage_Inr [OF r(1) a with_collation_at [OF a] t(1)] by simp
  have 2: "at w2 now d2 sq2 e" using stage_Inr [OF r(2) 1 with_collation_at [OF 1] t(2)] by simp
  have 3: "at w3 now d2 sq2 e" "c' = calculate_counters rid d2"
    using query_Inr [OF r(3)] 2 by (auto simp: at_def)
  have 4: "at w4 now d3 sq2 e" using stage_Inr [OF r(4) 3(1) refl t(3)] by simp
  have 5: "at w5 now d4 sq2 e" using stage_Inr [OF r(5) 4 refl t(4)] by simp
  have "at w6 now d6 sq2 e \<and> constraints_ok d6"
    by (rule completion_Inr [OF r(6) 5 t(5)]) (simp add: t(6) 3(2))
  with r(7) 3(2) res show ?thesis by (auto simp: act_simps)
qed

lemma apply_body_Inr:
  assumes a: "at w now d sq e" and ok: "constraints_ok d" "catalogs_ok d sq" and nd: "no_duplicates (staged d rid)"
    and run: "apply_body after_step rid assert_lock_alive w = (Inr res, w')"
  shows "\<exists>r d' sq' created updated zeroed. find_report rid d = Some r \<and> \<not> not_ready r (staging_count rid d)
    \<and> res = \<lparr>ar_report_id = rid, ar_row_count = rp_row_count r, ar_stocks_created = created,
             ar_stocks_updated = updated, ar_stocks_zeroed = zeroed\<rparr>
    \<and> at w' now d' sq' e \<and> applied rid now d d' (created, updated, zeroed) \<and> constraints_ok d' \<and> catalogs_ok d' sq'"
proof -
  from then_silent [OF run [unfolded apply_body_def] a silent_alive] obtain w1 where
    w1: "at w1 now d sq e" "bind_act (query (find_report rid)) (\<lambda>report. case report of
         None \<Rightarrow> throw ReportNotReadyForApply
       | Some report \<Rightarrow> bind_act (query (staging_count rid)) (\<lambda>count.
             if not_ready report count then throw ReportNotReadyForApply
             else bind_act (apply_steps after_step rid assert_lock_alive)
               (\<lambda>(stocks_created, stocks_updated, stocks_zeroed).
                  ret \<lparr>ar_report_id = rid, ar_row_count = rp_row_count report,
                       ar_stocks_created = stocks_created, ar_stocks_updated = stocks_updated,
                       ar_stocks_zeroed = stocks_zeroed\<rparr>))) w1 = (Inr res, w')" by blast
  from bind_query [OF w1(2,1)] obtain w2 r where w2: "at w2 now d sq e" "find_report rid d = Some r"
    "bind_act (query (staging_count rid)) (\<lambda>count.
             if not_ready r count then throw ReportNotReadyForApply
             else bind_act (apply_steps after_step rid assert_lock_alive)
               (\<lambda>(stocks_created, stocks_updated, stocks_zeroed).
                  ret \<lparr>ar_report_id = rid, ar_row_count = rp_row_count r,
                       ar_stocks_created = stocks_created, ar_stocks_updated = stocks_updated,
                       ar_stocks_zeroed = stocks_zeroed\<rparr>)) w2 = (Inr res, w')"
    by (auto simp: act_simps split: option.splits)
  from bind_query [OF w2(3,1)] obtain w3 where w3: "at w3 now d sq e"
    "(if not_ready r (staging_count rid d) then throw ReportNotReadyForApply
      else bind_act (apply_steps after_step rid assert_lock_alive)
               (\<lambda>(stocks_created, stocks_updated, stocks_zeroed).
                  ret \<lparr>ar_report_id = rid, ar_row_count = rp_row_count r,
                       ar_stocks_created = stocks_created, ar_stocks_updated = stocks_updated,
                       ar_stocks_zeroed = stocks_zeroed\<rparr>)) w3 = (Inr res, w')" by blast
  then have ready: "\<not> not_ready r (staging_count rid d)" by (auto simp: act_simps)
  from w3(2) ready obtain w4 c where w4: "apply_steps after_step rid assert_lock_alive w3 = (Inr c, w4)" "w' = w4"
    "res = \<lparr>ar_report_id = rid, ar_row_count = rp_row_count r, ar_stocks_created = fst c,
             ar_stocks_updated = fst (snd c), ar_stocks_zeroed = snd (snd c)\<rparr>"
    by (auto simp: bind_act_Inr_iff ret_def split: prod.splits)
  from apply_steps_Inr [OF w3(1) ok nd w4(1)] w2(2) ready w4(2,3) show ?thesis
    by (metis prod.collapse)
qed

end

text \<open>Guards that, besides, do not raise when nothing fails any more.\<close>

locale steady_guards =
  fixes after_step :: "(apply_step \<Rightarrow> ('x, unit) proc) option" and assert_lock_alive :: "('x, unit) proc"
  assumes steady_alive: "steady assert_lock_alive"
    and steady_hook: "steady (run_hook after_step step)"
begin

lemma calm_stage:
  assumes "calm_at w now d sq e" and "m w = execute f w"
    and "f now d sq = Some (d', sq')" and "constraints_ok d'"
  shows "\<exists>w1. calm_at w1 now d' sq' e \<and> then_act (apply_stage after_step assert_lock_alive m step) rest w = rest w1"
proof -
  have "then_act (apply_stage after_step assert_lock_alive m step) rest w
      = then_act (execute f) (then_act (run_hook after_step step) (then_act assert_lock_alive rest)) w"
    by (simp add: apply_stage_def act_simps assms(2) split: prod.split sum.split)
  moreover from calm_execute [where f = f, OF assms(1,3,4)] obtain w1 where
    w1: "calm_at w1 now d' sq' e" "then_act (execute f) (then_act (run_hook after_step step) (then_act assert_lock_alive rest)) w
      = then_act (run_hook after_step step) (then_act assert_lock_alive rest) w1" by blast
  moreover from calm_steady [OF steady_hook w1(1)] obtain w2 where
    w2: "calm_at w2 now d' sq' e" "then_act (run_hook after_step step) (then_act assert_lock_alive rest) w1
      = then_act assert_lock_alive rest w2" by blast
  moreover from calm_steady [OF steady_alive w2(1)] obtain w3 where
    "calm_at w3 now d' sq' e" "then_act assert_lock_alive rest w2 = rest w3" by blast
  ultimately show ?thesis by auto
qed

lemma calm_completion:
  assumes "calm_at w now d sq e" and "delete_staging rid now d sq = Some (d1, sq1)" and "constraints_ok d1"
    and "update_reports (\<lambda>r. rp_id r = rid) (complete_report c) now d1 sq1 = Some (d', sq')" and "constraints_ok d'"
  shows "\<exists>w1. calm_at w1 now d' sq' e \<and> then_act (apply_completion after_step assert_lock_alive rid c) rest w = rest w1"
proof -
  have "then_act (apply_completion after_step assert_lock_alive rid c) rest w
      = then_act (run_hook after_step BEFORE_REPORT_COMPLETED) (then_act (execute (delete_staging rid))
         (then_act (execute (update_reports (\<lambda>r. rp_id r = rid) (complete_report c)))
           (then_act assert_lock_alive rest))) w"
    by (simp add: apply_completion_def act_simps split: prod.split sum.split)
  moreover from calm_steady [OF steady_hook assms(1)] obtain w1 where
    w1: "calm_at w1 now d sq e" "then_act (run_hook after_step BEFORE_REPORT_COMPLETED) (then_act (execute (delete_staging rid))
         (then_act (execute (update_reports (\<lambda>r. rp_id r = rid) (complete_report c)))
           (then_act assert_lock_alive rest))) w = then_act (execute (delete_staging rid))
         (then_act (execute (update_reports (\<lambda>r. rp_id r = rid) (complete_report c)))
           (then_act assert_lock_alive rest)) w1" by blast
  moreover from calm_execute [where f = "delete_staging rid", OF w1(1) assms(2,3)] obtain w2 where
    w2: "calm_at w2 now d1 sq1 e" "then_act (execute (delete_staging rid))
         (then_act (execute (update_reports (\<lambda>r. rp_id r = rid) (complete_report c)))
           (then_act assert_lock_alive rest)) w1
      = then_act (execute (update_reports (\<lambda>r. rp_id r = rid) (complete_report c))) (then_act assert_lock_alive rest) w2"
    by blast
  moreover from calm_execute [where f = "update_reports (\<lambda>r. rp_id r = rid) (complete_report c)", OF w2(1) assms(4,5)]
  obtain w3 where w3: "calm_at w3 now d' sq' e" "then_act (execute
        (update_reports (\<lambda>r. rp_id r = rid) (complete_report c))) (then_act assert_lock_alive rest) w2
      = then_act assert_lock_alive rest w3" by blast
  moreover from calm_steady [OF steady_alive w3(1)] obtain w4 where
    "calm_at w4 now d' sq' e" "then_act assert_lock_alive rest w3 = rest w4" by blast
  ultimately show ?thesis by auto
qed

lemma calm_apply_steps:
  assumes a: "calm_at w now d sq e" and ok: "constraints_ok d" "catalogs_ok d sq"
    and nd: "no_duplicates (staged d rid)"
    and fits: "len (staged d rid) \<le> POSTGRES_BIGINT_MAX" "len (db_stocks d) \<le> POSTGRES_BIGINT_MAX"
  shows "\<exists>c d' sq' w'. apply_steps after_step rid assert_lock_alive w = (Inr c, w') \<and> calm_at w' now d' sq' e
    \<and> applied rid now d d' c \<and> constraints_ok d' \<and> catalogs_ok d' sq'"
proof -
  obtain d1 sq1 d2 sq2 d3 d4 d5 d6 where
    t: "upsert_warehouses (env_collate e) rid now d sq = Some (d1, sq1)" "constraints_ok d1"
      "upsert_products (env_collate e) rid now d1 sq1 = Some (d2, sq2)" "constraints_ok d2"
      "apply_explicit_stocks rid now d2 sq2 = Some (d3, sq2)" "constraints_ok d3"
      "zero_missing_stocks rid now d3 sq2 = Some (d4, sq2)" "constraints_ok d4"
      "delete_staging rid now d4 sq2 = Some (d5, sq2)" "constraints_ok d5"
      "update_reports (\<lambda>r. rp_id r = rid) (complete_report (calculate_counters rid d2)) now d5 sq2 = Some (d6, sq2)"
    and res: "applied rid now d d6 (calculate_counters rid d2)" "catalogs_ok d6 sq2" "db_reports d5 = db_reports d"
    using apply_tables_run [OF ok nd, of "env_collate e" now] by blast
  have c6: "constraints_ok d6"
    by (rule update_reports_constraints [OF t(10,11)])
      (use complete_report_fits [OF ok(1) nd res(1) fits] res(3) in
        \<open>auto simp: complete_report_def object_ref_def split: prod.splits\<close>)
  let ?m4 = "\<lambda>c. then_act (apply_completion after_step assert_lock_alive rid c) (ret c)"
  let ?m3 = "\<lambda>c. then_act (apply_stage after_step assert_lock_alive (execute (zero_missing_stocks rid)) MISSING_STOCKS_ZEROED) (?m4 c)"
  let ?m2 = "bind_act (query (calculate_counters rid)) (\<lambda>c. then_act
    (apply_stage after_step assert_lock_alive (execute (apply_explicit_stocks rid)) EXPLICIT_STOCKS_APPLIED) (?m3 c))"
  let ?m1 = "then_act (apply_stage after_step assert_lock_alive (with_collation (\<lambda>le. execute (upsert_products le rid))) PRODUCTS_UPSERTED) ?m2"
  have at0: "at w now d sq e" using a by (simp add: calm_at_def)
  obtain w1 where 1: "calm_at w1 now d1 sq1 e" "apply_steps after_step rid assert_lock_alive w = ?m1 w1"
    using calm_stage [where m = "with_collation (\<lambda>le. execute (upsert_warehouses le rid))"
        and f = "upsert_warehouses (env_collate e) rid" and rest = ?m1 and step = WAREHOUSES_UPSERTED, OF a with_collation_at [OF at0] t(1,2)]
    by (auto simp: apply_steps_def Let_def)
  have at1: "at w1 now d1 sq1 e" using 1(1) by (simp add: calm_at_def)
  obtain w2 where 2: "calm_at w2 now d2 sq2 e" "?m1 w1 = ?m2 w2"
    using calm_stage [where m = "with_collation (\<lambda>le. execute (upsert_products le rid))"
        and f = "upsert_products (env_collate e) rid" and rest = ?m2, OF 1(1) with_collation_at [OF at1] t(3,4)] by blast
  obtain w3 where 3: "calm_at w3 now d2 sq2 e" "?m2 w2 = then_act (apply_stage after_step assert_lock_alive
      (execute (apply_explicit_stocks rid)) EXPLICIT_STOCKS_APPLIED) (?m3 (calculate_counters rid d2)) w3"
    using calm_query [OF 2(1)] by blast
  obtain w4 where 4: "calm_at w4 now d3 sq2 e" "then_act (apply_stage after_step assert_lock_alive
      (execute (apply_explicit_stocks rid)) EXPLICIT_STOCKS_APPLIED) (?m3 (calculate_counters rid d2)) w3
      = ?m3 (calculate_counters rid d2) w4"
    using calm_stage [where m = "execute (apply_explicit_stocks rid)" and f = "apply_explicit_stocks rid",
        OF 3(1) refl t(5,6)] by blast
  obtain w5 where 5: "calm_at w5 now d4 sq2 e" "?m3 (calculate_counters rid d2) w4 = ?m4 (calculate_counters rid d2) w5"
    using calm_stage [where m = "execute (zero_missing_stocks rid)" and f = "zero_missing_stocks rid",
        OF 4(1) refl t(7,8)] by blast
  obtain w6 where 6: "calm_at w6 now d6 sq2 e"
      "?m4 (calculate_counters rid d2) w5 = ret (calculate_counters rid d2) w6"
    using calm_completion [OF 5(1) t(9,10,11) c6] by blast
  have "apply_steps after_step rid assert_lock_alive w = (Inr (calculate_counters rid d2), w6)"
    using 1(2) 2(2) 3(2) 4(2) 5(2) 6(2) by (simp add: ret_def)
  with 6(1) res(1,2) c6 show ?thesis by blast
qed

lemma calm_apply_body:
  assumes a: "calm_at w now d sq e" and ok: "constraints_ok d" "catalogs_ok d sq"
    and nd: "no_duplicates (staged d rid)" and r: "find_report rid d = Some r" "\<not> not_ready r (staging_count rid d)"
    and fits: "len (db_stocks d) \<le> POSTGRES_BIGINT_MAX"
  shows "\<exists>res d' sq' w'. apply_body after_step rid assert_lock_alive w = (Inr res, w') \<and> calm_at w' now d' sq' e"
proof -
  have rok: "report_ok r"
    using ok(1) find_report_Some [OF r(1)] by (simp add: constraints_ok_def reports_ok_def list_all_iff)
  then have n: "len (staged d rid) \<le> POSTGRES_BIGINT_MAX"
    using r(2) by (simp add: not_ready_def staging_count_def report_ok_def bigint_def)
  let ?m2 = "\<lambda>r count. if not_ready r count then throw ReportNotReadyForApply
    else bind_act (apply_steps after_step rid assert_lock_alive)
      (\<lambda>(stocks_created, stocks_updated, stocks_zeroed).
         ret \<lparr>ar_report_id = rid, ar_row_count = rp_row_count r, ar_stocks_created = stocks_created,
              ar_stocks_updated = stocks_updated, ar_stocks_zeroed = stocks_zeroed\<rparr>)"
  let ?m1 = "\<lambda>report. case report of None \<Rightarrow> throw ReportNotReadyForApply
    | Some r \<Rightarrow> bind_act (query (staging_count rid)) (?m2 r)"
  obtain w1 where 1: "calm_at w1 now d sq e"
      "apply_body after_step rid assert_lock_alive w = bind_act (query (find_report rid)) ?m1 w1"
    using calm_steady [OF steady_alive a] unfolding apply_body_def by blast
  obtain w2 where 2: "calm_at w2 now d sq e" "bind_act (query (find_report rid)) ?m1 w1 = ?m1 (find_report rid d) w2"
    using calm_query [OF 1(1), of "find_report rid" ?m1] by blast
  obtain w3 where 3: "calm_at w3 now d sq e" "bind_act (query (staging_count rid)) (?m2 r) w2 = ?m2 r (staging_count rid d) w3"
    using calm_query [OF 2(1)] by blast
  obtain c d' sq' w4 where 4: "apply_steps after_step rid assert_lock_alive w3 = (Inr c, w4)" "calm_at w4 now d' sq' e"
    using calm_apply_steps [OF 3(1) ok nd n fits] by blast
  have "?m2 r (staging_count rid d) w3 = (Inr \<lparr>ar_report_id = rid, ar_row_count = rp_row_count r,
      ar_stocks_created = fst c, ar_stocks_updated = fst (snd c), ar_stocks_zeroed = snd (snd c)\<rparr>, w4)"
    using r(2) 4(1) by (simp add: act_simps ret_def split: prod.split)
  with 1(2) 2(2) 3(2) 4(2) r(1) show ?thesis by auto
qed

lemma calm_apply_report:
  assumes "calm_at w now d sq e" and "constraints_ok d" "catalogs_ok d sq"
    and "no_duplicates (staged d rid)" and "find_report rid d = Some r" "\<not> not_ready r (staging_count rid d)"
    and "len (db_stocks d) \<le> POSTGRES_BIGINT_MAX"
  shows "\<exists>res w'. apply_report after_step rid assert_lock_alive w = (Inr res, w') \<and> calm w'"
proof -
  let ?w0 = "w\<lparr>w_now := env_time (w_env w) (w_tick w)\<rparr>"
  have "calm_at ?w0 (env_time e (w_tick w)) d sq e" using assms(1) by (simp add: at_def calm_at_def)
  from calm_apply_body [OF this assms(2-7)] obtain res w1 where
    b: "apply_body after_step rid assert_lock_alive ?w0 = (Inr res, w1)" "calm w1" by (auto simp: calm_at_def)
  then show ?thesis using calm_now [OF b(2)] by (simp add: apply_report_def transaction_def)
qed

end

sublocale steady_guards \<subseteq> apply_guards
  by unfold_locales (use steady_alive steady_hook in \<open>auto simp: steady_def\<close>)

text \<open>Its statements keep the sequences ahead of the identity values; so does the whole.\<close>

lemma statement_ok_stocks [intro, simp]:
  "statement_ok (apply_explicit_stocks rid)" "statement_ok (zero_missing_stocks rid)" "statement_ok (delete_staging rid)"
  by (auto intro!: statement_okI simp: sequences_ok_def apply_explicit_stocks_def zero_missing_stocks_def delete_staging_def)

lemma statement_ok_update_reports [intro]:
  "(\<And>now r. rp_id (change now r) = rp_id r) \<Longrightarrow> statement_ok (update_reports cond change)"
  by (rule statement_okI) (auto simp: sequences_ok_def update_reports_def list_all_iff)

lemma keeps_with_collation [intro]: "(\<And>le. keeps (f le)) \<Longrightarrow> keeps (with_collation f)"
  by (simp add: moves_def with_collation_def)

lemma world_ok_catalogs: "world_ok w \<Longrightarrow> catalogs_ok (w_db w) (w_seq w)"
  by (simp add: world_ok_def constraints_ok_def sequences_ok_def catalogs_ok_def table_ok_def ids_below_def)

context apply_guards begin

lemma keeps_guards: "keeps assert_lock_alive" "keeps (run_hook after_step step)"
  using silent_alive silent_hook by auto

lemma keeps_apply_report: "keeps (apply_report after_step rid assert_lock_alive)"
  unfolding apply_report_def apply_body_def apply_steps_def apply_stage_def apply_completion_def Let_def
  by (auto intro!: keeping.moves_transaction keeping.moves_bind keeping.moves_then keeps_guards keeps_with_collation
      keeping.moves_execute statement_ok_update_reports split: option.split)

text \<open>What a successful application has done, and what a failed one.\<close>

lemma apply_report_Inr:
  assumes "world_ok w" and "no_duplicates (staged (w_db w) rid)"
    and "apply_report after_step rid assert_lock_alive w = (Inr res, w')"
  shows "\<exists>r. find_report rid (w_db w) = Some r \<and> \<not> not_ready r (staging_count rid (w_db w))
    \<and> ar_report_id res = rid \<and> ar_row_count res = rp_row_count r
    \<and> applied rid (env_time (w_env w) (w_tick w)) (w_db w) (w_db w')
        (ar_stocks_created res, ar_stocks_updated res, ar_stocks_zeroed res)"
proof -
  let ?now = "env_time (w_env w) (w_tick w)"
  from transaction_Inr [OF assms(3) [unfolded apply_report_def]] obtain w1 where
    w1: "apply_body after_step rid assert_lock_alive (w\<lparr>w_now := ?now\<rparr>) = (Inr res, w1)" "w' = tick w1" by blast
  have a: "at (w\<lparr>w_now := ?now\<rparr>) ?now (w_db w) (w_seq w) (w_env w)" by (simp add: at_def)
  have c: "constraints_ok (w_db w)" using assms(1) by (simp add: world_ok_def)
  from apply_body_Inr [OF a c world_ok_catalogs [OF assms(1)] assms(2) w1(1)] w1(2)
  show ?thesis by (auto simp: at_def)
qed

lemma apply_report_Inl:
  assumes "world_ok w" and "no_duplicates (staged (w_db w) rid)"
    and "apply_report after_step rid assert_lock_alive w = (Inl e, w')"
  shows "w_db w' = w_db w \<or> e = DatabaseErr
    \<and> (\<exists>c. applied rid (env_time (w_env w) (w_tick w)) (w_db w) (w_db w') c)"
proof -
  let ?now = "env_time (w_env w) (w_tick w)"
  have a: "at (w\<lparr>w_now := ?now\<rparr>) ?now (w_db w) (w_seq w) (w_env w)" by (simp add: at_def)
  have c: "constraints_ok (w_db w)" using assms(1) by (simp add: world_ok_def)
  from transaction_Inl [OF assms(3) [unfolded apply_report_def]]
  consider "w_db w' = w_db w"
    | res w1 where "apply_body after_step rid assert_lock_alive (w\<lparr>w_now := ?now\<rparr>) = (Inr res, w1)"
        "w_db w' = w_db w1" "e = DatabaseErr" by blast
  then show ?thesis
  proof cases
    case 2
    from apply_body_Inr [OF a c world_ok_catalogs [OF assms(1)] assms(2) 2(1)] 2(2,3)
    show ?thesis by (auto simp: at_def)
  qed simp
qed

end

interpretation worker_guards: steady_guards None ensure_lock_connection_alive
  by unfold_locales (simp_all add: run_hook_def)

end
