(* ===== verification/ReportProcessing.thy ===== *)
theory ReportProcessing
  imports ApplyReport CsvValidation
begin

text \<open>
  \<open>app/services/report_processing.py\<close>: claiming the next report, writing the validator's rows and
  issues in batches, finding duplicates in SQL, finishing or failing the report, and the worker
  cycle under the advisory lock. The storage is used through the interface \<open>ObjectStorage\<close> of
  \<open>app/services/storage.py\<close>, here the record \<open>object_storage\<close> of the operations this file calls.
\<close>

datatype worker_cycle_outcome = LOCK_NOT_ACQUIRED | NO_REPORT | VALIDATED | VALIDATION_FAILED
  | PROCESSING_FAILED | WAITING_FOR_APPLY | COMPLETED

record report_source =
  rs_id :: int
  rs_object_bucket :: pystr
  rs_object_key :: pystr

subsection \<open>Statements\<close>

definition staging_values :: "int \<Rightarrow> validated_row \<Rightarrow> staging_row" where
  "staging_values report_id row =
     \<lparr>sg_report_id = report_id, sg_line_number = v_line_number row, sg_warehouse_code = v_warehouse_code row,
      sg_warehouse_name = v_warehouse_name row, sg_sku = v_sku row, sg_product_name = v_product_name row,
      sg_quantity = v_quantity row\<rparr>"

definition insert_staging :: "int \<Rightarrow> validated_row list \<Rightarrow> statement" where
  "insert_staging report_id batch = (\<lambda>now d sq.
     Some (d\<lparr>db_staging := db_staging d @ map (staging_values report_id) batch\<rparr>, sq))"

definition error_row :: "int \<Rightarrow> int \<Rightarrow> int \<Rightarrow> validation_issue \<Rightarrow> report_error" where
  "error_row now report_id i issue =
     \<lparr>er_id = i, er_report_id = report_id, er_line_number = i_line_number issue, er_field_name = i_field_name issue,
      er_code = i_code issue, er_message = i_message issue, er_raw_data = i_raw_data issue, er_created_at = now\<rparr>"

definition insert_errors :: "int \<Rightarrow> validation_issue list \<Rightarrow> statement" where
  "insert_errors report_id batch = (\<lambda>now d sq.
     Some (d\<lparr>db_errors := db_errors d @ map (\<lambda>(k, issue). error_row now report_id (sq_errors sq + int k) issue)
                                           (enumerate 0 batch)\<rparr>,
           sq\<lparr>sq_errors := sq_errors sq + len batch\<rparr>))"

definition delete_errors :: "int \<Rightarrow> statement" where
  "delete_errors report_id = (\<lambda>now d sq.
     Some (d\<lparr>db_errors := filter (\<lambda>e. er_report_id e \<noteq> report_id) (db_errors d)\<rparr>, sq))"

definition errors_of :: "db \<Rightarrow> int \<Rightarrow> report_error list" where
  "errors_of d report_id = filter (\<lambda>e. er_report_id e = report_id) (db_errors d)"

definition stored_error_count :: "int \<Rightarrow> db \<Rightarrow> int" where
  "stored_error_count report_id d = len (errors_of d report_id)"

subsection \<open>\<open>ValidationBatchWriter\<close>\<close>

text \<open>The writer's two batches; its report and batch size are arguments.\<close>

record writer_world = world +
  vb_staging_batch :: "validated_row list"
  vb_error_batch :: "validation_issue list"

type_synonym ('x, 'a) wproc = "('x writer_world_scheme, 'a) action"

definition new_writer :: "('x, unit) wproc" where
  "new_writer = (\<lambda>w. (Inr (), w\<lparr>vb_staging_batch := [], vb_error_batch := []\<rparr>))"

definition write_batch :: "('x, unit) wproc \<Rightarrow> statement \<Rightarrow> ('x, unit) wproc" where
  "write_batch assert_lock_alive stmt = then_act assert_lock_alive (transaction (execute stmt))"

definition flush_staging :: "int \<Rightarrow> ('x, unit) wproc \<Rightarrow> ('x, unit) wproc" where
  "flush_staging report_id assert_lock_alive = (\<lambda>w.
     if vb_staging_batch w = [] then (Inr (), w)
     else write_batch assert_lock_alive (insert_staging report_id (vb_staging_batch w)) (w\<lparr>vb_staging_batch := []\<rparr>))"

definition flush_errors :: "int \<Rightarrow> ('x, unit) wproc \<Rightarrow> ('x, unit) wproc" where
  "flush_errors report_id assert_lock_alive = (\<lambda>w.
     if vb_error_batch w = [] then (Inr (), w)
     else write_batch assert_lock_alive (insert_errors report_id (vb_error_batch w)) (w\<lparr>vb_error_batch := []\<rparr>))"

definition flush_all :: "int \<Rightarrow> ('x, unit) wproc \<Rightarrow> ('x, unit) wproc" where
  "flush_all report_id assert_lock_alive =
     then_act (flush_staging report_id assert_lock_alive) (flush_errors report_id assert_lock_alive)"

definition add_valid_row :: "int \<Rightarrow> int \<Rightarrow> ('x, unit) wproc \<Rightarrow> validated_row \<Rightarrow> ('x, unit) wproc" where
  "add_valid_row report_id batch_size assert_lock_alive row = (\<lambda>w.
     let w = w\<lparr>vb_staging_batch := vb_staging_batch w @ [row]\<rparr> in
     if len (vb_staging_batch w) \<ge> batch_size then flush_staging report_id assert_lock_alive w else (Inr (), w))"

definition add_issue :: "int \<Rightarrow> int \<Rightarrow> ('x, unit) wproc \<Rightarrow> validation_issue \<Rightarrow> ('x, unit) wproc" where
  "add_issue report_id batch_size assert_lock_alive issue = (\<lambda>w.
     let w = w\<lparr>vb_error_batch := vb_error_batch w @ [issue]\<rparr> in
     if len (vb_error_batch w) \<ge> batch_size then flush_errors report_id assert_lock_alive w else (Inr (), w))"

definition add_issues :: "int \<Rightarrow> int \<Rightarrow> ('x, unit) wproc \<Rightarrow> validation_issue list \<Rightarrow> ('x, unit) wproc" where
  "add_issues report_id batch_size assert_lock_alive issues =
     each_act (add_issue report_id batch_size assert_lock_alive) issues"

subsection \<open>\<open>ReportValidator\<close>\<close>

text \<open>
  What the validator uses of the storage: \<open>download_stream\<close> yields the chunks of an object,
  \<open>st_next_chunk\<close> is one \<open>next\<close> on its iterator, which may raise, and \<open>st_close\<close> closes it.
  \<open>st_fetches\<close> says how many chunks a read of the text stream has to fetch.
\<close>

record 'x object_storage =
  st_download_stream :: "pystr \<Rightarrow> pystr \<Rightarrow> ('x, bytes list) wproc"
  st_next_chunk :: "('x, unit) wproc"
  st_close :: "('x, unit) wproc"
  st_fetches :: "nat \<Rightarrow> nat"

text \<open>\<open>before_next_chunk\<close> and \<open>next(chunks)\<close>, as \<open>ChunkIteratorIO.readinto\<close> calls them.\<close>

definition read_chunks :: "'x object_storage \<Rightarrow> ('x, unit) wproc \<Rightarrow> ('x, unit) wproc" where
  "read_chunks storage assert_lock_alive = (\<lambda>w.
     each_act (\<lambda>_. then_act assert_lock_alive (st_next_chunk storage)) [0..<st_fetches storage (w_tick w)] w)"

definition writer_callbacks ::
  "'x object_storage \<Rightarrow> int \<Rightarrow> int \<Rightarrow> ('x, unit) wproc \<Rightarrow> 'x writer_world_scheme callbacks" where
  "writer_callbacks storage report_id batch_size assert_lock_alive =
     \<lparr>cb_read = read_chunks storage assert_lock_alive,
      cb_row = add_valid_row report_id batch_size assert_lock_alive,
      cb_issues = add_issues report_id batch_size assert_lock_alive,
      cb_close = st_close storage\<rparr>"

definition duplicate_raw_value_chars :: "csv_limits \<Rightarrow> int" where
  "duplicate_raw_value_chars lim = max 1 (min (error_raw_value_chars lim) (error_raw_total_chars lim div 4))"

text \<open>\<open>row_number() OVER (PARTITION BY warehouse_code, sku ORDER BY line_number)\<close>\<close>

definition duplicate_rank :: "staging_row list \<Rightarrow> staging_row \<Rightarrow> int" where
  "duplicate_rank rows s =
     1 + len (filter (\<lambda>t. sg_warehouse_code t = sg_warehouse_code s \<and> sg_sku t = sg_sku s
                        \<and> sg_line_number t < sg_line_number s) rows)"

definition duplicate_issue :: "int \<Rightarrow> staging_row \<Rightarrow> validation_issue" where
  "duplicate_issue n s =
     \<lparr>i_line_number = Some (sg_line_number s), i_field_name = Some (lit ''warehouse_code+sku''),
      i_code = lit ''duplicate_warehouse_sku'',
      i_message = lit ''The warehouse_code and sku pair is duplicated in this report'',
      i_raw_data = Some
        [(WAREHOUSE_CODE, JStr (take (nat n) (sg_warehouse_code s))),
         (WAREHOUSE_NAME, JStr (take (nat n) (sg_warehouse_name s))),
         (SKU, JStr (take (nat n) (sg_sku s))),
         (PRODUCT_NAME, JStr (take (nat n) (sg_product_name s))),
         (QUANTITY, JInt (sg_quantity s)),
         (TRUNCATED_KEY, JBool (n < len (sg_warehouse_code s) \<or> n < len (sg_warehouse_name s)
            \<or> n < len (sg_sku s) \<or> n < len (sg_product_name s)))]\<rparr>"

definition duplicate_rows :: "db \<Rightarrow> int \<Rightarrow> staging_row list" where
  "duplicate_rows d report_id = filter (\<lambda>s. duplicate_rank (staged d report_id) s > 1) (staged d report_id)"

definition insert_duplicate_errors :: "int \<Rightarrow> int \<Rightarrow> statement" where
  "insert_duplicate_errors report_id chars = (\<lambda>now d sq.
     insert_errors report_id (map (duplicate_issue chars) (duplicate_rows d report_id)) now d sq)"

definition of_processing :: "int \<Rightarrow> report \<Rightarrow> bool" where
  "of_processing report_id r \<longleftrightarrow> rp_id r = report_id \<and> rp_status r = Processing"

definition validation_failed :: "int \<Rightarrow> int \<Rightarrow> int \<Rightarrow> report \<Rightarrow> report" where
  "validation_failed row_count error_count now r =
     r\<lparr>rp_status := Failed, rp_finished_at := Some now, rp_row_count := row_count, rp_error_count := error_count,
       rp_failure_kind := Some (lit ''validation''),
       rp_failure_message := Some (lit ''Report contains validation errors'')\<rparr>"

definition finalize_validation_failure :: "int \<Rightarrow> int \<Rightarrow> int \<Rightarrow> ('x, unit) proc" where
  "finalize_validation_failure report_id row_count error_count =
     transaction (then_act (execute (delete_staging report_id))
       (execute (update_reports (of_processing report_id) (validation_failed row_count error_count))))"

definition validated :: "int \<Rightarrow> int \<Rightarrow> report \<Rightarrow> report" where
  "validated row_count now r = r\<lparr>rp_row_count := row_count, rp_error_count := 0\<rparr>"

definition count_errors :: "int \<Rightarrow> ('x, int) proc" where
  "count_errors report_id = transaction (query (stored_error_count report_id))"

text \<open>\<open>validate\<close> after the download: the stream, the remaining batches, the duplicates, the verdict.\<close>

definition conclude_validation :: "int \<Rightarrow> ('x, unit) wproc \<Rightarrow> csv_summary \<Rightarrow> ('x, worker_cycle_outcome) wproc" where
  "conclude_validation report_id assert_lock_alive result =
     bind_act (count_errors report_id) (\<lambda>n.
       if n \<noteq> 0 then
         then_act assert_lock_alive
         (then_act (finalize_validation_failure report_id (s_row_count result) n)
           (ret VALIDATION_FAILED))
       else if \<not> s_reached_eof result \<or> s_row_count result = 0 then throw RuntimeErr
       else
         then_act assert_lock_alive
         (then_act (transaction (execute (update_reports (of_processing report_id) (validated (s_row_count result)))))
           (ret VALIDATED)))"

definition validate_chunks ::
  "'x object_storage \<Rightarrow> csv_limits \<Rightarrow> int \<Rightarrow> int \<Rightarrow> ('x, unit) wproc \<Rightarrow> bytes list
     \<Rightarrow> ('x, worker_cycle_outcome) wproc" where
  "validate_chunks storage lim batch_size report_id assert_lock_alive chunks =
     then_act new_writer
     (bind_act (validate_csv_stream (writer_callbacks storage report_id batch_size assert_lock_alive) lim chunks) (\<lambda>result.
      then_act (flush_all report_id assert_lock_alive)
     (then_act assert_lock_alive
     (then_act (transaction (execute (insert_duplicate_errors report_id (duplicate_raw_value_chars lim))))
     (then_act assert_lock_alive
       (conclude_validation report_id assert_lock_alive result))))))"

definition validate_report ::
  "'x object_storage \<Rightarrow> csv_limits \<Rightarrow> int \<Rightarrow> report_source \<Rightarrow> ('x, unit) wproc
     \<Rightarrow> ('x, worker_cycle_outcome) wproc" where
  "validate_report storage lim batch_size report assert_lock_alive =
     then_act assert_lock_alive
     (bind_act (st_download_stream storage (rs_object_bucket report) (rs_object_key report))
       (validate_chunks storage lim batch_size (rs_id report) assert_lock_alive))"

subsection \<open>\<open>ReportProcessor\<close>\<close>

definition report_source_of :: "report \<Rightarrow> report_source" where
  "report_source_of r =
     \<lparr>rs_id = rp_id r, rs_object_bucket = rp_object_bucket r, rs_object_key = rp_object_key r\<rparr>"

text \<open>\<open>ORDER BY created_at, id LIMIT 1\<close>\<close>

definition queue_le :: "report \<Rightarrow> report \<Rightarrow> bool" where
  "queue_le r r' \<longleftrightarrow> rp_created_at r < rp_created_at r' \<or> (rp_created_at r = rp_created_at r' \<and> rp_id r \<le> rp_id r')"

definition unfinished :: "report \<Rightarrow> bool" where
  "unfinished r \<longleftrightarrow> rp_status r = Pending \<or> rp_status r = Processing"

definition next_report :: "db \<Rightarrow> report option" where
  "next_report d = (case sort_by queue_le (filter unfinished (db_reports d)) of [] \<Rightarrow> None | r # _ \<Rightarrow> Some r)"

definition validation_is_complete :: "report \<Rightarrow> ('x, bool) proc" where
  "validation_is_complete report =
     (if rp_row_count report \<le> 0 \<or> rp_error_count report \<noteq> 0 then ret False
      else bind_act (query (staging_count (rp_id report))) (\<lambda>staging_count.
           bind_act (query (stored_error_count (rp_id report))) (\<lambda>stored_error_count.
             ret (staging_count = rp_row_count report \<and> stored_error_count = 0))))"

definition claimed :: "int \<Rightarrow> report \<Rightarrow> report" where
  "claimed now r =
     r\<lparr>rp_status := Processing, rp_processing_started_at := Some now, rp_finished_at := None, rp_row_count := 0,
       rp_error_count := 0, rp_failure_kind := None, rp_failure_message := None\<rparr>"

definition claim_body :: "('x, report_source option \<times> bool) proc" where
  "claim_body =
     bind_act (query next_report) (\<lambda>report.
       case report of
         None \<Rightarrow> ret (None, False)
       | Some report \<Rightarrow>
           bind_act (if rp_status report = Processing then validation_is_complete report else ret False) (\<lambda>complete.
             if complete then ret (Some (report_source_of report), True)
             else
               then_act (execute (delete_staging (rp_id report)))
               (then_act (execute (delete_errors (rp_id report)))
               (then_act (execute (update_reports (\<lambda>r. rp_id r = rp_id report) claimed))
                 (ret (Some (report_source_of report), False))))))"

definition claim_or_recover_next_report :: "('x, report_source option \<times> bool) proc" where
  "claim_or_recover_next_report = transaction claim_body"

definition failure_issue :: "pystr \<Rightarrow> pystr \<Rightarrow> validation_issue" where
  "failure_issue code message =
     \<lparr>i_line_number = None, i_field_name = None, i_code = code, i_message = message, i_raw_data = None\<rparr>"

definition at_least_one :: "int \<Rightarrow> int" where
  "at_least_one n = (if n = 0 then 1 else n)"

definition processing_failed :: "int \<Rightarrow> int \<Rightarrow> report \<Rightarrow> report" where
  "processing_failed error_count now r =
     r\<lparr>rp_status := Failed, rp_finished_at := Some now, rp_error_count := at_least_one error_count,
       rp_failure_kind := Some (lit ''processing''),
       rp_failure_message := Some (lit ''Report processing failed'')\<rparr>"

definition mark_processing_failed :: "int \<Rightarrow> ('x, unit) proc" where
  "mark_processing_failed report_id =
     transaction (then_act (execute (delete_staging report_id))
       (then_act (execute (insert_errors report_id
           [failure_issue (lit ''processing_error'') (lit ''Report processing failed'')]))
       (bind_act (query (stored_error_count report_id)) (\<lambda>n.
         execute (update_reports (of_processing report_id) (processing_failed n))))))"

definition apply_failed :: "int \<Rightarrow> int \<Rightarrow> report \<Rightarrow> report" where
  "apply_failed error_count now r =
     r\<lparr>rp_status := Failed, rp_finished_at := Some now, rp_error_count := at_least_one error_count,
       rp_stocks_created := 0, rp_stocks_updated := 0, rp_stocks_zeroed := 0,
       rp_failure_kind := Some (lit ''processing''),
       rp_failure_message := Some (lit ''Atomic report apply failed'')\<rparr>"

definition mark_apply_failed :: "int \<Rightarrow> ('x, unit) proc" where
  "mark_apply_failed report_id =
     transaction (then_act (execute (delete_staging report_id))
       (then_act (execute (insert_errors report_id
           [failure_issue (lit ''apply_error'') (lit ''Atomic report apply failed'')]))
       (bind_act (query (stored_error_count report_id)) (\<lambda>n.
         execute (update_reports (of_processing report_id) (apply_failed n))))))"

text \<open>The two branches of \<open>process\<close> with their exception handlers.\<close>

definition process_apply ::
  "(apply_step \<Rightarrow> ('x, unit) proc) option \<Rightarrow> ('x, unit) proc \<Rightarrow> int \<Rightarrow> ('x, worker_cycle_outcome) proc" where
  "process_apply hook assert_lock_alive report_id =
     catch_act (then_act (apply_report hook report_id assert_lock_alive) (ret COMPLETED))
       (\<lambda>original_error.
          if original_error = LockConnectionLost then throw original_error
          else then_act
            (catch_act (then_act assert_lock_alive (mark_apply_failed report_id)) (\<lambda>_. throw original_error))
            (ret PROCESSING_FAILED))"

definition process_validation ::
  "'x object_storage \<Rightarrow> csv_limits \<Rightarrow> int \<Rightarrow> ('x, unit) wproc \<Rightarrow> report_source \<Rightarrow> ('x, worker_cycle_outcome) wproc" where
  "process_validation storage lim batch_size assert_lock_alive report =
     catch_act (validate_report storage lim batch_size report assert_lock_alive)
       (\<lambda>e. if e = LockConnectionLost then throw e
            else then_act assert_lock_alive
              (then_act (mark_processing_failed (rs_id report)) (ret PROCESSING_FAILED)))"

definition process_report ::
  "'x object_storage \<Rightarrow> csv_limits \<Rightarrow> int \<Rightarrow> (apply_step \<Rightarrow> ('x, unit) wproc) option \<Rightarrow> ('x, unit) wproc
     \<Rightarrow> ('x, worker_cycle_outcome) wproc" where
  "process_report storage lim batch_size hook assert_lock_alive =
     bind_act claim_or_recover_next_report (\<lambda>(report, ready_for_apply).
       case report of
         None \<Rightarrow> ret NO_REPORT
       | Some report \<Rightarrow>
           if ready_for_apply then process_apply hook assert_lock_alive (rs_id report)
           else process_validation storage lim batch_size assert_lock_alive report)"

subsection \<open>\<open>process_next_report\<close>\<close>

text \<open>
  Opening the connection, \<open>pg_try_advisory_lock\<close> and \<open>pg_advisory_unlock\<close> on it may raise; whether the
  lock is granted is up to the other workers (\<open>granted\<close>). The release's database errors are logged
  and dropped.
\<close>

definition connect :: "('x, unit) proc" where
  "connect = query (\<lambda>_. ())"

definition try_advisory_lock :: "(nat \<Rightarrow> bool) \<Rightarrow> ('x, bool) proc" where
  "try_advisory_lock granted = (\<lambda>w. query (\<lambda>_. granted (w_tick w)) w)"

definition release_lock :: "('x, unit) proc" where
  "release_lock = catch_act (query (\<lambda>_. ())) (\<lambda>e. if e = DatabaseErr then ret () else throw e)"

definition process_next_report ::
  "(nat \<Rightarrow> bool) \<Rightarrow> 'x object_storage \<Rightarrow> csv_limits \<Rightarrow> int \<Rightarrow> (apply_step \<Rightarrow> ('x, unit) wproc) option
     \<Rightarrow> ('x, worker_cycle_outcome) wproc" where
  "process_next_report granted storage lim batch_size hook =
     then_act connect
     (bind_act (try_advisory_lock granted) (\<lambda>acquired.
       if \<not> acquired then ret LOCK_NOT_ACQUIRED
       else finally_act (process_report storage lim batch_size hook ensure_lock_connection_alive)
              release_lock))"

end
