(* ===== verification/ProcessingEffects.thy ===== *)
theory ProcessingEffects
  imports ApplyProperties ReportProcessing
begin

text \<open>
  What the operations of report processing can do to the tables, on every path and in every
  environment: the effects of Sessions are lifted to the validator once, for every relation that
  its statements respect (\<open>report_effect\<close>), and used for three relations: the invariant, the life
  cycle of reports, and the confinement to one report.
\<close>

subsection \<open>Validation as callbacks\<close>

lemma validate_stream_trace:
  assumes "check_limits lim = Inr ()"
  shows "validate_csv_stream cb lim chunks =
    finally_act (then_act (each_act (dispatch cb) (snd (csv_trace lim (text_pieces (nat TEXT_READ_CHARS) (stream_text chunks)))))
      (lift_res (fst (csv_trace lim (text_pieces (nat TEXT_READ_CHARS) (stream_text chunks)))))) (cb_close cb)"
  unfolding validate_csv_stream_def by (rule validate_csv_text_trace) (simp_all add: assms)

lemma validate_stream_bad_limits:
  assumes "check_limits lim = Inl e"
  shows "validate_csv_stream cb lim chunks = throw e"
  by (rule ext) (simp add: validate_csv_stream_def validate_csv_text_def act_simps assms)

context effect begin

lemma moves_stream:
  assumes "moves R (cb_read cb)" and "\<And>r. moves R (cb_row cb r)" and "\<And>is. moves R (cb_issues cb is)"
    and "moves R (cb_close cb)"
  shows "moves R (validate_csv_stream cb lim chunks)"
proof (cases "check_limits lim")
  case (Inl e)
  then show ?thesis by (simp add: validate_stream_bad_limits)
next
  case (Inr u)
  have "moves R (dispatch cb i)" for i using assms by (cases i) simp_all
  then show ?thesis using Inr assms(4) by (auto simp: validate_stream_trace)
qed

end

subsection \<open>Storage\<close>

text \<open>
  What is relied on of the storage: it touches neither the session's data nor the batch writer.
\<close>

definition aloof :: "('x, 'a) wproc \<Rightarrow> bool" where
  "aloof m \<longleftrightarrow> silent m \<and> (\<forall>w. vb_staging_batch (snd (m w)) = vb_staging_batch w
     \<and> vb_error_batch (snd (m w)) = vb_error_batch w)"

definition aloof_storage :: "'x object_storage \<Rightarrow> bool" where
  "aloof_storage st \<longleftrightarrow> (\<forall>b k. aloof (st_download_stream st b k)) \<and> aloof (st_next_chunk st) \<and> aloof (st_close st)"

lemma aloof_silent: "aloof m \<Longrightarrow> silent m"
  by (simp add: aloof_def)

lemma aloof_storageD:
  assumes "aloof_storage st"
  shows "silent (st_download_stream st b k)" "silent (st_next_chunk st)" "silent (st_close st)"
  using assms by (simp_all add: aloof_storage_def aloof_silent)

lemma aloof_lock_check [simp]: "aloof ensure_lock_connection_alive"
  unfolding aloof_def using silent_lock_check
  by (simp add: ensure_lock_connection_alive_def tick_def)

subsection \<open>Effects of the validator\<close>

locale writer_effect = table_effect R for R :: table_relation +
  fixes rid :: int
  assumes inserts_staging: "statement_moves R (insert_staging rid rows)"
    and inserts_errors: "statement_moves R (insert_errors rid issues)"
begin

lemma moves_flush:
  assumes "moves (on_tables R) alive"
  shows "moves (on_tables R) (flush_staging rid alive)" and "moves (on_tables R) (flush_errors rid alive)"
    and "moves (on_tables R) (flush_all rid alive)"
proof -
  have w: "on_tables R v (snd (write_batch alive f v))" if "statement_moves R f" for f and v :: "'a writer_world_scheme"
  proof -
    have "moves (on_tables R) (write_batch alive f)"
      unfolding write_batch_def by (intro moves_then moves_transaction moves_execute assms that)
    then show ?thesis by (simp add: moves_def)
  qed
  show s: "moves (on_tables R) (flush_staging rid alive)"
  proof (rule movesI)
    fix v :: "'a writer_world_scheme"
    show "on_tables R v (snd (flush_staging rid alive v))"
      using w [OF inserts_staging [of "vb_staging_batch v"], of "v\<lparr>vb_staging_batch := []\<rparr>"]
      by (simp add: flush_staging_def on_tables_def table_refl)
  qed
  show e: "moves (on_tables R) (flush_errors rid alive)"
  proof (rule movesI)
    fix v :: "'a writer_world_scheme"
    show "on_tables R v (snd (flush_errors rid alive v))"
      using w [OF inserts_errors [of "vb_error_batch v"], of "v\<lparr>vb_error_batch := []\<rparr>"]
      by (simp add: flush_errors_def on_tables_def table_refl)
  qed
  show "moves (on_tables R) (flush_all rid alive)"
    unfolding flush_all_def by (rule moves_then [OF s e])
qed

lemma moves_add:
  assumes "moves (on_tables R) alive"
  shows "moves (on_tables R) (add_valid_row rid n alive row)" and "moves (on_tables R) (add_issues rid n alive issues)"
proof -
  have f: "on_tables R v (snd (flush_staging rid alive v))" "on_tables R v (snd (flush_errors rid alive v))" for v
    using moves_flush [OF assms] by (simp_all add: moves_def)
  show "moves (on_tables R) (add_valid_row rid n alive row)"
  proof (rule movesI)
    fix v :: "'a writer_world_scheme"
    show "on_tables R v (snd (add_valid_row rid n alive row v))"
      using f(1) [of "v\<lparr>vb_staging_batch := vb_staging_batch v @ [row]\<rparr>"]
      by (simp add: add_valid_row_def Let_def on_tables_def table_refl)
  qed
  have "moves (on_tables R) (add_issue rid n alive issue)" for issue
  proof (rule movesI)
    fix v :: "'a writer_world_scheme"
    show "on_tables R v (snd (add_issue rid n alive issue v))"
      using f(2) [of "v\<lparr>vb_error_batch := vb_error_batch v @ [issue]\<rparr>"]
      by (simp add: add_issue_def Let_def on_tables_def table_refl)
  qed
  then show "moves (on_tables R) (add_issues rid n alive issues)" unfolding add_issues_def by (rule moves_each)
qed

lemma moves_read:
  assumes "moves (on_tables R) alive" and "aloof_storage st"
  shows "moves (on_tables R) (read_chunks st alive)"
proof -
  have "moves (on_tables R) (each_act (\<lambda>_. then_act alive (st_next_chunk st)) xs)" for xs :: "nat list"
    using assms(1) aloof_storageD [OF assms(2)] by auto
  then show ?thesis by (simp add: moves_def read_chunks_def)
qed

lemma moves_writing:
  assumes "moves (on_tables R) alive" and "aloof_storage st"
  shows "moves (on_tables R) (validate_csv_stream (writer_callbacks st rid n alive) lim chunks)"
  by (rule moves_stream)
    (use assms aloof_storageD [OF assms(2)] in \<open>auto simp: writer_callbacks_def intro: moves_read moves_add\<close>)

lemma moves_insert_duplicates:
  "moves (on_tables R) (transaction (execute (insert_duplicate_errors rid k)))"
proof -
  have "statement_moves R (insert_duplicate_errors rid k)"
    using inserts_errors by (auto simp: statement_moves_def insert_duplicate_errors_def)
  then show ?thesis by (intro moves_transaction moves_execute)
qed

end

locale report_effect = writer_effect R rid for R :: table_relation and rid :: int +
  assumes deletes_staging: "statement_moves R (delete_staging rid)"
    and validates: "statement_moves R (update_reports (of_processing rid) (validated n))"
    and fails_validation: "statement_moves R (update_reports (of_processing rid) (validation_failed n m))"
    and fails_processing: "statement_moves R (update_reports (of_processing rid) (processing_failed n))"
    and fails_apply: "statement_moves R (update_reports (of_processing rid) (apply_failed n))"
begin

lemma moves_validate_report:
  assumes alive: "moves (on_tables R) alive" and st: "aloof_storage st" and "rs_id src = rid"
  shows "moves (on_tables R) (validate_report st lim n src alive)"
proof -
  have nw: "moves (on_tables R) new_writer"
    by (simp add: new_writer_def moves_def on_tables_def table_refl)
  have cv: "moves (on_tables R) (conclude_validation rid alive result)" for result
    unfolding conclude_validation_def count_errors_def finalize_validation_failure_def
    using alive deletes_staging validates fails_validation
    by (auto intro!: moves_bind moves_then moves_transaction moves_execute)
  have "moves (on_tables R) (validate_chunks st lim n rid alive chunks)" for chunks
    unfolding validate_chunks_def
    by (intro moves_then moves_bind moves_insert_duplicates moves_writing nw cv alive st moves_flush)
  moreover have "moves (on_tables R) (st_download_stream st b k)" for b k
    by (rule moves_silent [OF aloof_storageD(1) [OF st]])
  ultimately show ?thesis
    unfolding validate_report_def assms(3) by (intro moves_then moves_bind alive)
qed

lemma moves_mark_failed:
  "moves (on_tables R) (mark_processing_failed rid)" "moves (on_tables R) (mark_apply_failed rid)"
  unfolding mark_processing_failed_def mark_apply_failed_def
  by (intro moves_transaction moves_then moves_bind moves_execute moves_query deletes_staging inserts_errors
      fails_processing fails_apply)+

lemma moves_process_validation:
  assumes "moves (on_tables R) alive" and "aloof_storage st" and "rs_id src = rid"
  shows "moves (on_tables R) (process_validation st lim n alive src)"
  unfolding process_validation_def using moves_mark_failed(1) assms
  by (auto intro!: moves_catch moves_then moves_validate_report)

lemma moves_process_apply:
  assumes "moves (on_tables R) alive" and "moves (on_tables R) (apply_report hook rid alive)"
  shows "moves (on_tables R) (process_apply hook alive rid)"
  unfolding process_apply_def using moves_mark_failed(2) assms
  by (auto intro!: moves_catch moves_then)

end

subsection \<open>The invariant\<close>

lemma statement_ok_validator [intro, simp]:
  "statement_ok (insert_staging rid rows)" "statement_ok (delete_errors rid)"
  by (auto intro!: statement_okI simp: sequences_ok_def insert_staging_def delete_errors_def list_all_iff)

lemma statement_ok_insert_errors [intro, simp]: "statement_ok (insert_errors rid issues)"
  by (rule statement_okI)
    (fastforce simp: sequences_ok_def insert_errors_def seq_le_def list_all_iff error_row_def in_set_enumerate_eq)

text \<open>Up to its verdict, a validation changes no report.\<close>

definition same_reports :: table_relation where
  "same_reports d sq d' sq' \<longleftrightarrow> db_reports d' = db_reports d"

interpretation unreported: writer_effect same_reports rid for rid
  by unfold_locales (auto intro!: statement_movesI simp: same_reports_def insert_staging_def insert_errors_def)

interpretation kept: report_effect keeping rid for rid
  by unfold_locales (auto intro!: statement_ok_update_reports
      simp: validated_def validation_failed_def processing_failed_def apply_failed_def)

subsection \<open>The life cycle of reports\<close>

text \<open>
  How one report may evolve: what registration recorded never changes, a finished report never
  changes, and no report becomes pending again.
\<close>

definition report_step :: "report \<Rightarrow> report \<Rightarrow> bool" where
  "report_step r r' \<longleftrightarrow>
     rp_id r' = rp_id r \<and> rp_original_filename r' = rp_original_filename r \<and> object_ref r' = object_ref r
     \<and> rp_size_bytes r' = rp_size_bytes r \<and> rp_checksum_sha256 r' = rp_checksum_sha256 r
     \<and> rp_created_at r' = rp_created_at r
     \<and> (rp_status r = Completed \<or> rp_status r = Failed \<longrightarrow> r' = r)
     \<and> (rp_status r' = Pending \<longrightarrow> r' = r)"

lemma report_step_refl [simp]: "report_step r r"
  by (simp add: report_step_def)

lemma report_step_trans:
  assumes "report_step r r'" and "report_step r' r''"
  shows "report_step r r''"
proof -
  have "r'' = r" if "rp_status r = Completed \<or> rp_status r = Failed"
  proof -
    have "r' = r" using assms(1) that unfolding report_step_def by blast
    with assms(2) that show ?thesis unfolding report_step_def by blast
  qed
  moreover have "r'' = r" if "rp_status r'' = Pending"
  proof -
    have "r'' = r'" using assms(2) that unfolding report_step_def by blast
    with assms(1) that show ?thesis unfolding report_step_def by blast
  qed
  ultimately show ?thesis using assms unfolding report_step_def by (metis (no_types))
qed

text \<open>No report appears or disappears.\<close>

definition progress :: table_relation where
  "progress d sq d' sq' \<longleftrightarrow> list_all2 report_step (db_reports d) (db_reports d')"

lemma progress_step:
  assumes "db_reports d' = map f (db_reports d)" and "\<And>r. r \<in> set (db_reports d) \<Longrightarrow> report_step r (f r)"
  shows "progress d sq d' sq'"
  using assms by (simp add: progress_def list_all2_conv_all_nth)

lemma progress_same: "db_reports d' = db_reports d \<Longrightarrow> progress d sq d' sq'"
  by (simp add: progress_def list_all2_conv_all_nth)

interpretation progress: table_effect progress
proof
  fix d sq d' sq' d'' sq''
  show "progress d sq d sq" by (rule progress_same) simp
  then show "progress d sq d sq'" by (simp add: progress_def)
  assume 1: "progress d sq d' sq'" and 2: "progress d' sq' d'' sq''"
  from 1 2 show "progress d sq d'' sq''"
    unfolding progress_def by (rule list_all2_trans [rotated]) (rule report_step_trans)
qed

lemma progress_update:
  assumes "\<And>now r. cond r \<Longrightarrow> report_step r (change now r)"
  shows "statement_moves progress (update_reports cond change)"
proof (rule statement_movesI)
  fix now d sq d' sq'
  assume "update_reports cond change now d sq = Some (d', sq')"
  then have "db_reports d' = map (\<lambda>r. if cond r then change now r else r) (db_reports d)"
    by (auto simp: update_reports_def)
  then show "progress d sq d' sq'" by (rule progress_step) (simp add: assms)
qed

lemma progress_frame:
  "statement_moves progress (insert_staging rid rows)" "statement_moves progress (insert_errors rid issues)"
  "statement_moves progress (delete_staging rid)" "statement_moves progress (delete_errors rid)"
  by (auto intro!: statement_movesI progress_same
      simp: insert_staging_def insert_errors_def delete_staging_def delete_errors_def)

interpretation cycle: report_effect progress rid for rid
  by unfold_locales (auto intro!: progress_frame progress_update simp: report_step_def of_processing_def object_ref_def
      validated_def validation_failed_def processing_failed_def apply_failed_def)

subsection \<open>Confinement\<close>

text \<open>Everything but the rows of one report is as before.\<close>

definition others_kept :: "int \<Rightarrow> table_relation" where
  "others_kept rid d sq d' sq' \<longleftrightarrow>
     db_warehouses d' = db_warehouses d \<and> db_products d' = db_products d \<and> db_stocks d' = db_stocks d
     \<and> filter (\<lambda>r. rp_id r \<noteq> rid) (db_reports d') = filter (\<lambda>r. rp_id r \<noteq> rid) (db_reports d)
     \<and> filter (\<lambda>s. sg_report_id s \<noteq> rid) (db_staging d') = filter (\<lambda>s. sg_report_id s \<noteq> rid) (db_staging d)
     \<and> filter (\<lambda>e. er_report_id e \<noteq> rid) (db_errors d') = filter (\<lambda>e. er_report_id e \<noteq> rid) (db_errors d)"

interpretation others: table_effect "others_kept rid" for rid
  by unfold_locales (simp_all add: others_kept_def)

lemma others_frame:
  "statement_moves (others_kept rid) (insert_staging rid rows)" "statement_moves (others_kept rid) (insert_errors rid issues)"
  "statement_moves (others_kept rid) (delete_staging rid)" "statement_moves (others_kept rid) (delete_errors rid)"
  by (auto intro!: statement_movesI filter_False
      simp: others_kept_def insert_staging_def insert_errors_def delete_staging_def delete_errors_def
      staging_values_def error_row_def comp_def split_def)

lemma others_update:
  assumes "\<And>now r. rp_id (change now r) = rp_id r" and "\<And>r. cond r \<Longrightarrow> rp_id r = rid"
  shows "statement_moves (others_kept rid) (update_reports cond change)"
proof (rule statement_movesI)
  fix now d sq d' sq'
  assume u: "update_reports cond change now d sq = Some (d', sq')"
  have "filter (\<lambda>r. rp_id r \<noteq> rid) (map (\<lambda>r. if cond r then change now r else r) rs) = filter (\<lambda>r. rp_id r \<noteq> rid) rs" for rs
    by (induction rs) (auto simp: assms)
  with u show "others_kept rid d sq d' sq'" by (auto simp: update_reports_def others_kept_def)
qed

interpretation own: report_effect "others_kept rid" rid for rid
  by unfold_locales (auto intro!: others_frame others_update simp: of_processing_def
      validated_def validation_failed_def processing_failed_def apply_failed_def)

end
