(* ===== verification/ProcessingCycle.thy ===== *)
theory ProcessingCycle
  imports ProcessingEffects
begin

text \<open>
  The worker's cycle: which report a cycle takes, and what a whole cycle can do to the tables,
  whatever fails in between.
\<close>

subsection \<open>Claiming\<close>

text \<open>A report whose validation is complete, so that it only waits to be applied.\<close>

definition ready :: "db \<Rightarrow> report \<Rightarrow> bool" where
  "ready d r \<longleftrightarrow> rp_status r = Processing \<and> 0 < rp_row_count r \<and> rp_error_count r = 0
     \<and> len (staged d (rp_id r)) = rp_row_count r \<and> errors_of d (rp_id r) = []"

definition claimed_db :: "int \<Rightarrow> report \<Rightarrow> db \<Rightarrow> db" where
  "claimed_db now r d = d\<lparr>db_reports := map (\<lambda>r'. if rp_id r' = rp_id r then claimed now r' else r') (db_reports d),
     db_staging := filter (\<lambda>s. sg_report_id s \<noteq> rp_id r) (db_staging d),
     db_errors := filter (\<lambda>e. er_report_id e \<noteq> rp_id r) (db_errors d)\<rparr>"

text \<open>What a claim returns and leaves, as a function of the tables.\<close>

definition claim_result :: "int \<Rightarrow> db \<Rightarrow> (report_source option \<times> bool) \<times> db" where
  "claim_result now d = (case next_report d of
       None \<Rightarrow> ((None, False), d)
     | Some r \<Rightarrow> if ready d r then ((Some (report_source_of r), True), d)
                 else ((Some (report_source_of r), False), claimed_db now r d))"

lemma validation_is_complete_at:
  assumes "bind_act (validation_is_complete r) m w = (Inr x, w')" and "at w now d sq e"
  shows "\<exists>w1. at w1 now d sq e \<and> m (0 < rp_row_count r \<and> rp_error_count r = 0
    \<and> len (staged d (rp_id r)) = rp_row_count r \<and> errors_of d (rp_id r) = []) w1 = (Inr x, w')"
proof (cases "rp_row_count r \<le> 0 \<or> rp_error_count r \<noteq> 0")
  case True
  have "(0 < rp_row_count r \<and> rp_error_count r = 0
    \<and> len (staged d (rp_id r)) = rp_row_count r \<and> errors_of d (rp_id r) = []) = False" using True by auto
  with assms True show ?thesis by (auto simp: validation_is_complete_def act_simps)
next
  case False
  then have c: "(0 < rp_row_count r \<and> rp_error_count r = 0
      \<and> len (staged d (rp_id r)) = rp_row_count r \<and> errors_of d (rp_id r) = [])
    = (staging_count (rp_id r) d = rp_row_count r \<and> stored_error_count (rp_id r) d = 0)"
    by (simp add: staging_count_def stored_error_count_def)
  have run: "bind_act (query (staging_count (rp_id r))) (\<lambda>sc. bind_act (query (stored_error_count (rp_id r)))
      (\<lambda>ec. m (sc = rp_row_count r \<and> ec = 0))) w = (Inr x, w')"
    using assms(1) False by (simp add: validation_is_complete_def bind_act_assoc) (simp add: bind_act_def ret_def)
  from bind_query [OF run assms(2)] obtain w1 where w1: "at w1 now d sq e"
    "bind_act (query (stored_error_count (rp_id r))) (\<lambda>ec. m (staging_count (rp_id r) d = rp_row_count r \<and> ec = 0)) w1
      = (Inr x, w')" by blast
  from bind_query [OF w1(2,1)] show ?thesis unfolding c .
qed

lemma claim_update_at:
  assumes "then_act (execute (delete_staging (rp_id r))) (then_act (execute (delete_errors (rp_id r)))
      (then_act (execute (update_reports (\<lambda>r'. rp_id r' = rp_id r) claimed)) (ret x))) w = (Inr y, w')"
    and "at w now d sq e"
  shows "y = x \<and> w_db w' = claimed_db now r d"
proof -
  from then_execute [OF assms(1,2) delete_staging_def [THEN fun_cong, THEN fun_cong, THEN fun_cong]] obtain w1 where
    w1: "at w1 now (d\<lparr>db_staging := filter (\<lambda>s. sg_report_id s \<noteq> rp_id r) (db_staging d)\<rparr>) sq e"
    "then_act (execute (delete_errors (rp_id r)))
      (then_act (execute (update_reports (\<lambda>r'. rp_id r' = rp_id r) claimed)) (ret x)) w1 = (Inr y, w')" by blast
  from then_execute [OF w1(2,1) delete_errors_def [THEN fun_cong, THEN fun_cong, THEN fun_cong]] obtain w2 where
    w2: "at w2 now (d\<lparr>db_staging := filter (\<lambda>s. sg_report_id s \<noteq> rp_id r) (db_staging d),
        db_errors := filter (\<lambda>e. er_report_id e \<noteq> rp_id r) (db_errors d)\<rparr>) sq e"
    "then_act (execute (update_reports (\<lambda>r'. rp_id r' = rp_id r) claimed)) (ret x) w2 = (Inr y, w')" by auto
  from then_execute [OF w2(2,1) update_reports_def [THEN fun_cong, THEN fun_cong, THEN fun_cong]]
  show ?thesis by (auto simp: at_def act_simps claimed_db_def)
qed

lemma claim_body_Inr:
  assumes "claim_body w = (Inr x, w')"
  shows "(x, w_db w') = claim_result (w_now w) (w_db w)"
proof -
  from bind_query [OF assms [unfolded claim_body_def] at_self] obtain w1 where
    w1: "at w1 (w_now w) (w_db w) (w_seq w) (w_env w)"
    and run: "(case next_report (w_db w) of None \<Rightarrow> ret (None, False)
       | Some report \<Rightarrow>
           bind_act (if rp_status report = Processing then validation_is_complete report else ret False) (\<lambda>complete.
             if complete then ret (Some (report_source_of report), True)
             else
               then_act (execute (delete_staging (rp_id report)))
               (then_act (execute (delete_errors (rp_id report)))
               (then_act (execute (update_reports (\<lambda>r. rp_id r = rp_id report) claimed))
                 (ret (Some (report_source_of report), False)))))) w1 = (Inr x, w')" by blast
  show ?thesis
  proof (cases "next_report (w_db w)")
    case None
    with run w1 show ?thesis by (simp add: claim_result_def act_simps at_def)
  next
    case (Some r)
    let ?rest = "\<lambda>complete. if complete then ret (Some (report_source_of r), True)
             else
               then_act (execute (delete_staging (rp_id r)))
               (then_act (execute (delete_errors (rp_id r)))
               (then_act (execute (update_reports (\<lambda>r'. rp_id r' = rp_id r) claimed))
                 (ret (Some (report_source_of r), False))))"
    have "\<exists>w2. at w2 (w_now w) (w_db w) (w_seq w) (w_env w) \<and> ?rest (ready (w_db w) r) w2 = (Inr x, w')"
    proof (cases "rp_status r = Processing")
      case True
      with run Some have "bind_act (validation_is_complete r) ?rest w1 = (Inr x, w')" by simp
      from validation_is_complete_at [OF this w1] True show ?thesis by (simp add: ready_def)
    next
      case False
      with run Some w1 show ?thesis by (intro exI [of _ w1]) (simp add: ready_def bind_act_def ret_def)
    qed
    then obtain w2 where w2: "at w2 (w_now w) (w_db w) (w_seq w) (w_env w)" "?rest (ready (w_db w) r) w2 = (Inr x, w')"
      by blast
    show ?thesis
    proof (cases "ready (w_db w) r")
      case True
      with w2 Some show ?thesis by (simp add: claim_result_def act_simps at_def)
    next
      case False
      with w2(2) have "then_act (execute (delete_staging (rp_id r))) (then_act (execute (delete_errors (rp_id r)))
        (then_act (execute (update_reports (\<lambda>r'. rp_id r' = rp_id r) claimed)) (ret (Some (report_source_of r), False)))) w2
        = (Inr x, w')" by simp
      from claim_update_at [OF this w2(1)] False Some show ?thesis by (simp add: claim_result_def)
    qed
  qed
qed

lemma claim_Inr:
  assumes "claim_or_recover_next_report w = (Inr x, w')"
  shows "(x, w_db w') = claim_result (env_time (w_env w) (w_tick w)) (w_db w)"
  using transaction_Inr [OF assms [unfolded claim_or_recover_next_report_def]] claim_body_Inr
  by fastforce

lemma claim_Inl:
  assumes "claim_or_recover_next_report w = (Inl e, w')"
  shows "w_db w' = w_db w \<or> w_db w' = snd (claim_result (env_time (w_env w) (w_tick w)) (w_db w))"
proof -
  from transaction_Inl [OF assms [unfolded claim_or_recover_next_report_def]]
  consider "w_db w' = w_db w" | x w1 where
    "claim_body (w\<lparr>w_now := env_time (w_env w) (w_tick w)\<rparr>) = (Inr x, w1)" "w_db w' = w_db w1" by blast
  then show ?thesis
  proof cases
    case (2 x w1)
    from claim_body_Inr [OF 2(1)] have "w_db w1 = snd (claim_result (env_time (w_env w) (w_tick w)) (w_db w))"
      by (simp add: prod_eq_iff)
    with 2(2) show ?thesis by simp
  qed simp
qed

lemma claim_db:
  assumes "claim_or_recover_next_report w = (r, w')"
  shows "w_db w' = w_db w \<or> w_db w' = snd (claim_result (env_time (w_env w) (w_tick w)) (w_db w))"
  using assms claim_Inl claim_Inr [of w] by (cases r) (auto simp: prod_eq_iff)

subsection \<open>The queue\<close>

lemma queue_le_linear: "queue_le r r' \<or> queue_le r' r" and queue_le_trans: "queue_le r r' \<Longrightarrow> queue_le r' r'' \<Longrightarrow> queue_le r r''"
  and queue_le_refl [simp]: "queue_le r r"
  by (auto simp: queue_le_def)

lemma insert_by_sorted:
  assumes "sorted_wrt queue_le rs"
  shows "sorted_wrt queue_le (insert_by queue_le r rs)"
  using assms
proof (induction rs)
  case (Cons r' rs)
  then show ?case using queue_le_linear [of r r'] queue_le_trans [of r r'] by auto
qed simp

lemma sort_by_sorted: "sorted_wrt queue_le (sort_by queue_le rs)"
  unfolding sort_by_def by (induction rs) (simp_all add: insert_by_sorted)

lemma next_report_Some:
  assumes "next_report d = Some r"
  shows "r \<in> set (db_reports d) \<and> unfinished r
    \<and> (\<forall>r' \<in> set (db_reports d). unfinished r' \<longrightarrow> queue_le r r')"
proof -
  obtain rs where q: "sort_by queue_le (filter unfinished (db_reports d)) = r # rs"
    using assms by (auto simp: next_report_def split: list.splits)
  have "set (r # rs) = set (filter unfinished (db_reports d))"
    using set_sort_by [of queue_le "filter unfinished (db_reports d)"] by (simp add: q)
  moreover have "\<forall>r' \<in> set rs. queue_le r r'" using sort_by_sorted [of "filter unfinished (db_reports d)"] by (simp add: q)
  ultimately have "\<forall>r' \<in> set (filter unfinished (db_reports d)). queue_le r r'" "r \<in> set (filter unfinished (db_reports d))"
    by (metis queue_le_refl set_ConsD) (metis \<open>set (r # rs) = set (filter unfinished (db_reports d))\<close> list.set_intros(1))
  then show ?thesis by simp
qed

lemma next_report_None: "next_report d = None \<longleftrightarrow> (\<forall>r \<in> set (db_reports d). \<not> unfinished r)"
proof -
  have "next_report d = None \<longleftrightarrow> set (sort_by queue_le (filter unfinished (db_reports d))) = {}"
    by (simp add: next_report_def split: list.split del: set_sort_by)
  then show ?thesis by (auto simp: filter_empty_conv)
qed

lemma claim_progress:
  assumes "constraints_ok d"
  shows "progress d sq (snd (claim_result now d)) sq'"
proof (cases "next_report d")
  case None
  then show ?thesis by (simp add: claim_result_def progress_same)
next
  case (Some r)
  have "report_step r' (if rp_id r' = rp_id r then claimed now r' else r')" if "r' \<in> set (db_reports d)" for r'
  proof (cases "rp_id r' = rp_id r")
    case True
    have "reports_ok d" "r \<in> set (db_reports d)" using assms next_report_Some [OF Some] by (simp_all add: constraints_ok_def)
    from report_unique [OF this(1) that this(2) True] have "r' = r" .
    moreover have "report_step r (claimed now r)"
    proof -
      have "unfinished r" using next_report_Some [OF Some] by blast
      then show ?thesis by (auto simp: report_step_def claimed_def unfinished_def object_ref_def)
    qed
    ultimately show ?thesis by simp
  qed simp
  then have "progress d sq (claimed_db now r d) sq'"
    by (intro progress_step [where f = "\<lambda>r'. if rp_id r' = rp_id r then claimed now r' else r'"]) (simp_all add: claimed_db_def)
  with Some show ?thesis by (simp add: claim_result_def progress_same)
qed

subsection \<open>The life cycle in an application\<close>

text \<open>An application can do no more to the reports than complete one.\<close>

definition finishing :: "int \<Rightarrow> table_relation" where
  "finishing rid d sq d' sq' \<longleftrightarrow> db_reports d' = db_reports d
     \<or> (\<exists>c now. db_reports d' = map (\<lambda>r. if rp_id r = rid then complete_report c now r else r) (db_reports d))"

lemma complete_twice: "complete_report c' now' (complete_report c now r) = complete_report c' now' r"
  by (simp add: complete_report_def split: prod.split)

interpretation finishing: table_effect "finishing rid" for rid
proof
  fix d sq d' sq' d'' sq''
  show "finishing rid d sq d sq" "finishing rid d sq d sq'" by (simp_all add: finishing_def)
  assume 1: "finishing rid d sq d' sq'" and 2: "finishing rid d' sq' d'' sq''"
  have twice: "map (\<lambda>r. if rp_id r = rid then complete_report c' now' r else r)
      (map (\<lambda>r. if rp_id r = rid then complete_report c now r else r) rs)
    = map (\<lambda>r. if rp_id r = rid then complete_report c' now' r else r) rs" for c' now' c now rs
    by (simp add: complete_twice)
  from 2 consider "db_reports d'' = db_reports d'"
    | c now where "db_reports d'' = map (\<lambda>r. if rp_id r = rid then complete_report c now r else r) (db_reports d')"
    unfolding finishing_def by blast
  then show "finishing rid d sq d'' sq''"
  proof cases
    case 1
    with \<open>finishing rid d sq d' sq'\<close> show ?thesis by (simp add: finishing_def)
  next
    case (2 c now)
    from 1 have "db_reports d'' = map (\<lambda>r. if rp_id r = rid then complete_report c now r else r) (db_reports d)"
      unfolding finishing_def 2 by (elim disjE exE) (simp_all only: twice)
    then show ?thesis unfolding finishing_def by blast
  qed
qed

lemma finishing_frame:
  "statement_moves (finishing rid) (upsert_warehouses le rid')"
  "statement_moves (finishing rid) (upsert_products le rid')"
  "statement_moves (finishing rid) (apply_explicit_stocks rid')"
  "statement_moves (finishing rid) (zero_missing_stocks rid')"
  "statement_moves (finishing rid) (delete_staging rid')"
proof -
  have same: "statement_moves (finishing rid) f"
    if "\<And>now d sq d' sq'. f now d sq = Some (d', sq') \<Longrightarrow> db_reports d' = db_reports d" for f
    using that by (auto intro!: statement_movesI simp: finishing_def)
  show "statement_moves (finishing rid) (upsert_warehouses le rid')"
    by (rule same) (auto simp: upsert_warehouses_def split: prod.splits)
  show "statement_moves (finishing rid) (upsert_products le rid')"
    by (rule same) (auto simp: upsert_products_def split: prod.splits)
  show "statement_moves (finishing rid) (apply_explicit_stocks rid')"
    by (rule same) (auto simp: apply_explicit_stocks_def)
  show "statement_moves (finishing rid) (zero_missing_stocks rid')"
    by (rule same) (auto simp: zero_missing_stocks_def)
  show "statement_moves (finishing rid) (delete_staging rid')"
    by (rule same) (auto simp: delete_staging_def)
qed

lemma finishing_update: "statement_moves (finishing rid) (update_reports (\<lambda>r. rp_id r = rid) (complete_report c))"
proof (rule statement_movesI)
  fix now d sq d' sq'
  assume "update_reports (\<lambda>r. rp_id r = rid) (complete_report c) now d sq = Some (d', sq')"
  then have "db_reports d' = map (\<lambda>r. if rp_id r = rid then complete_report c now r else r) (db_reports d)"
    by (auto simp: update_reports_def)
  then show "finishing rid d sq d' sq'" unfolding finishing_def by blast
qed

lemma moves_with_collation: "(\<And>le. moves R (f le)) \<Longrightarrow> moves R (with_collation f)"
  by (simp add: moves_def with_collation_def)

context apply_guards begin

lemma finishing_apply_steps: "moves (on_tables (finishing rid)) (apply_steps after_step rid assert_lock_alive)"
proof -
  have g: "moves (on_tables (finishing rid)) assert_lock_alive" "moves (on_tables (finishing rid)) (run_hook after_step step)" for step
    using silent_alive silent_hook by auto
  show ?thesis
    unfolding apply_steps_def apply_stage_def apply_completion_def Let_def
    by (intro finishing.moves_bind finishing.moves_then g moves_with_collation finishing.moves_execute
        finishing.moves_query finishing_frame finishing_update finishing.moves_pure)
qed

lemma progress_apply_body:
  assumes "apply_body after_step rid assert_lock_alive w = (Inr res, w')" and "constraints_ok (w_db w)"
  shows "progress (w_db w) sq (w_db w') sq'"
proof -
  have a: "at w (w_now w) (w_db w) (w_seq w) (w_env w)" by (rule at_self)
  from then_silent [OF assms(1) [unfolded apply_body_def] a silent_alive] obtain w1 where
    w1: "w_db w1 = w_db w" and run: "bind_act (query (find_report rid)) (\<lambda>report. case report of
         None \<Rightarrow> throw ReportNotReadyForApply
       | Some report \<Rightarrow> bind_act (query (staging_count rid)) (\<lambda>count.
             if not_ready report count then throw ReportNotReadyForApply
             else bind_act (apply_steps after_step rid assert_lock_alive)
               (\<lambda>(stocks_created, stocks_updated, stocks_zeroed).
                  ret \<lparr>ar_report_id = rid, ar_row_count = rp_row_count report,
                       ar_stocks_created = stocks_created, ar_stocks_updated = stocks_updated,
                       ar_stocks_zeroed = stocks_zeroed\<rparr>))) w1 = (Inr res, w')" by (auto simp: at_def)
  from bind_query [OF run at_self] w1 obtain r w3 where r: "find_report rid (w_db w) = Some r" and w3: "w_db w3 = w_db w"
    "bind_act (query (staging_count rid)) (\<lambda>count.
             if not_ready r count then throw ReportNotReadyForApply
             else bind_act (apply_steps after_step rid assert_lock_alive)
               (\<lambda>(stocks_created, stocks_updated, stocks_zeroed).
                  ret \<lparr>ar_report_id = rid, ar_row_count = rp_row_count r,
                       ar_stocks_created = stocks_created, ar_stocks_updated = stocks_updated,
                       ar_stocks_zeroed = stocks_zeroed\<rparr>)) w3 = (Inr res, w')"
    by (auto simp: at_def act_simps split: option.splits)
  from bind_query [OF w3(2) at_self] obtain w2 where w2: "at w2 (w_now w3) (w_db w3) (w_seq w3) (w_env w3)" and
    "(if not_ready r (staging_count rid (w_db w3)) then throw ReportNotReadyForApply
             else bind_act (apply_steps after_step rid assert_lock_alive)
               (\<lambda>(stocks_created, stocks_updated, stocks_zeroed).
                  ret \<lparr>ar_report_id = rid, ar_row_count = rp_row_count r,
                       ar_stocks_created = stocks_created, ar_stocks_updated = stocks_updated,
                       ar_stocks_zeroed = stocks_zeroed\<rparr>)) w2 = (Inr res, w')" by blast
  then obtain c w4 where ready: "rp_status r = Processing" and steps4: "apply_steps after_step rid assert_lock_alive w2 = (Inr c, w4)"
    and "w' = w4"
    by (cases "not_ready r (staging_count rid (w_db w3))")
      (auto simp: act_simps(2) bind_act_Inr_iff ret_def not_ready_def split: prod.splits)
  then have steps: "apply_steps after_step rid assert_lock_alive w2 = (Inr c, w')" by simp
  have "finishing rid (w_db w) (w_seq w2) (w_db w') (w_seq w')"
    using movesD [OF finishing_apply_steps steps] w2 w3(1) by (simp add: on_tables_def at_def)
  then consider "db_reports (w_db w') = db_reports (w_db w)"
    | c now where "db_reports (w_db w') = map (\<lambda>r. if rp_id r = rid then complete_report c now r else r) (db_reports (w_db w))"
    unfolding finishing_def by blast
  then show ?thesis
  proof cases
    case (2 c now)
    have "reports_ok (w_db w)" using assms(2) by (simp add: constraints_ok_def)
    then have "r' = r" if "r' \<in> set (db_reports (w_db w))" "rp_id r' = rid" for r'
      using report_unique [of "w_db w" r' r] that find_report_Some [OF r] by simp
    then show ?thesis using ready
      by (intro progress_step [OF 2]) (auto simp: report_step_def complete_report_def object_ref_def split: prod.split)
  qed (rule progress_same)
qed

lemma progress_apply:
  assumes "apply_report after_step rid assert_lock_alive w = (r, w')" and "constraints_ok (w_db w)"
  shows "progress (w_db w) (w_seq w) (w_db w') (w_seq w')"
proof -
  obtain r1 w1 where b: "apply_body after_step rid assert_lock_alive (w\<lparr>w_now := env_time (w_env w) (w_tick w)\<rparr>) = (r1, w1)"
    by fastforce
  have "w_db w' = w_db w \<or> (\<exists>res. r1 = Inr res) \<and> w_db w' = w_db w1"
    using assms(1) b by (auto simp: apply_report_def transaction_def split: sum.splits commit_result.splits)
  then show ?thesis
    using progress_apply_body [of rid "w\<lparr>w_now := env_time (w_env w) (w_tick w)\<rparr>" _ w1] b assms(2)
    by (auto simp: progress_same)
qed

end

subsection \<open>A whole cycle\<close>

text \<open>The invariant and the life cycle together, from states that satisfy the invariant.\<close>

definition living :: table_relation where
  "living d sq d' sq' \<longleftrightarrow> (constraints_ok d \<and> sequences_ok d sq \<longrightarrow>
     constraints_ok d' \<and> sequences_ok d' sq' \<and> seq_le sq sq' \<and> progress d sq d' sq')"

interpretation living: table_effect living
proof
  fix d sq d' sq' d'' sq''
  show "living d sq d sq" by (simp add: living_def progress_same)
  show "living d sq d' sq' \<Longrightarrow> living d' sq' d'' sq'' \<Longrightarrow> living d sq d'' sq''"
    by (auto simp: living_def intro: seq_le_trans progress.table_trans)
  show "living d sq d' sq' \<Longrightarrow> living d sq d sq'"
    by (auto simp: living_def progress_same intro: sequences_ok_mono)
qed

lemma livingI:
  assumes "keeps m" and "\<And>w r w'. m w = (r, w') \<Longrightarrow> constraints_ok (w_db w) \<Longrightarrow> progress (w_db w) (w_seq w) (w_db w') (w_seq w')"
  shows "moves (on_tables living) m"
proof (rule moves_impI)
  fix w r w'
  assume run: "m w = (r, w')"
  show "on_tables living w w'"
    using movesD [OF assms(1) run] assms(2) [OF run] by (auto simp: on_tables_def living_def keeping_def)
qed

lemma living_claim: "moves (on_tables living) claim_or_recover_next_report"
proof (rule livingI)
  show "keeps claim_or_recover_next_report"
  proof -
    have v: "keeps (validation_is_complete r)" for r
      unfolding validation_is_complete_def by (auto intro!: keeping.moves_bind)
    have c: "statement_ok (update_reports cond claimed)" for cond
      by (rule statement_ok_update_reports) (simp add: claimed_def)
    show ?thesis
      unfolding claim_or_recover_next_report_def claim_body_def
      by (intro keeping.moves_transaction keeping.moves_bind)
        (auto intro!: keeping.moves_bind keeping.moves_then keeping.moves_execute v c split: option.split)
  qed
  fix w :: "'a world_scheme" and r w'
  assume "claim_or_recover_next_report w = (r, w')" and ok: "constraints_ok (w_db w)"
  with claim_db claim_progress [OF ok] show "progress (w_db w) (w_seq w) (w_db w') (w_seq w')"
    by (metis progress_same)
qed

context apply_guards begin

lemma living_apply: "moves (on_tables living) (apply_report after_step rid assert_lock_alive)"
  by (rule livingI [OF keeps_apply_report progress_apply])

end

text \<open>The validator's branch has both effects as well, so that it lives too.\<close>

lemma living_process_validation:
  assumes "silent alive" and "aloof_storage st"
  shows "moves (on_tables living) (process_validation st lim n alive src)"
proof (rule livingI)
  show "keeps (process_validation st lim n alive src)"
    by (rule kept.moves_process_validation) (use assms in auto)
  fix w :: "'a writer_world_scheme" and r w'
  assume run: "process_validation st lim n alive src w = (r, w')"
  have "moves (on_tables progress) (process_validation st lim n alive src)"
    by (rule cycle.moves_process_validation) (use assms in auto)
  from movesD [OF this run] show "progress (w_db w) (w_seq w) (w_db w') (w_seq w')" by (simp add: on_tables_def)
qed

lemma living_mark_failed: "moves (on_tables living) (mark_apply_failed rid)"
proof (rule livingI)
  show "keeps (mark_apply_failed rid)" by (rule kept.moves_mark_failed)
  fix w :: "'a world_scheme" and r w'
  assume "mark_apply_failed rid w = (r, w')"
  from movesD [OF cycle.moves_mark_failed(2) this] show "progress (w_db w) (w_seq w) (w_db w') (w_seq w')"
    by (simp add: on_tables_def)
qed

locale cycle_parts =
  fixes storage :: "'x object_storage" and hook :: "(apply_step \<Rightarrow> ('x, unit) wproc) option"
  assumes quiet_storage: "aloof_storage storage" and quiet_hook: "silent (run_hook hook step)"

sublocale cycle_parts \<subseteq> apply_guards hook ensure_lock_connection_alive
  by unfold_locales (simp_all add: quiet_hook)

context cycle_parts begin

lemma living_process_report: "moves (on_tables living) (process_report storage lim n hook ensure_lock_connection_alive)"
proof -
  have "moves (on_tables living) (process_apply hook ensure_lock_connection_alive rid)" for rid
    unfolding process_apply_def
    by (auto intro!: living.moves_catch living.moves_then living_apply living_mark_failed)
  then show ?thesis
    unfolding process_report_def using quiet_storage
    by (auto intro!: living.moves_bind living_claim living_process_validation split: option.split)
qed

lemma living_cycle: "moves (on_tables living) (process_next_report granted storage lim n hook)"
proof -
  have "silent (try_advisory_lock granted)"
    using silent_query unfolding try_advisory_lock_def silent_def by blast
  moreover have "moves (on_tables living) release_lock"
    unfolding release_lock_def by (auto intro!: living.moves_catch)
  ultimately show ?thesis
    unfolding process_next_report_def connect_def
    by (auto intro!: living.moves_then living.moves_bind living.moves_finally living_process_report)
qed

end

end
