(* ===== verification/Sha256.thy ===== *)
theory Sha256
  imports Database
begin

text \<open>
  \<open>hashlib.sha256\<close> of the standard library: the digest of the bytes given to \<open>update\<close>, in the order
  of the calls. A checksum object is the list of bytes it has been given. The constants are those of
  FIPS 180-4, in decimal.
\<close>

type_synonym word32 = "32 word"

definition sha_rotr :: "nat \<Rightarrow> word32 \<Rightarrow> word32" where
  "sha_rotr n x = or (drop_bit n x) (push_bit (32 - n) x)"

definition sha_k :: "word32 list" where
  "sha_k = [
    1116352408, 1899447441, 3049323471, 3921009573, 961987163, 1508970993, 2453635748, 2870763221,
    3624381080, 310598401, 607225278, 1426881987, 1925078388, 2162078206, 2614888103, 3248222580,
    3835390401, 4022224774, 264347078, 604807628, 770255983, 1249150122, 1555081692, 1996064986,
    2554220882, 2821834349, 2952996808, 3210313671, 3336571891, 3584528711, 113926993, 338241895,
    666307205, 773529912, 1294757372, 1396182291, 1695183700, 1986661051, 2177026350, 2456956037,
    2730485921, 2820302411, 3259730800, 3345764771, 3516065817, 3600352804, 4094571909, 275423344,
    430227734, 506948616, 659060556, 883997877, 958139571, 1322822218, 1537002063, 1747873779,
    1955562222, 2024104815, 2227730452, 2361852424, 2428436474, 2756734187, 3204031479, 3329325298]"

text \<open>The eight working variables.\<close>

type_synonym sha_state = "word32 \<times> word32 \<times> word32 \<times> word32 \<times> word32 \<times> word32 \<times> word32 \<times> word32"

definition sha_init :: sha_state where
  "sha_init = (
    1779033703, 3144134277, 1013904242, 2773480762, 1359893119, 2600822924, 528734635, 1541459225)"

text \<open>The message schedule, newest word first.\<close>

fun sha_extend :: "nat \<Rightarrow> word32 list \<Rightarrow> word32 list" where
  "sha_extend 0 ws = ws"
| "sha_extend (Suc n) ws =
     (let s0 = xor (xor (sha_rotr 7 (ws ! 14)) (sha_rotr 18 (ws ! 14))) (drop_bit 3 (ws ! 14));
          s1 = xor (xor (sha_rotr 17 (ws ! 1)) (sha_rotr 19 (ws ! 1))) (drop_bit 10 (ws ! 1))
      in sha_extend n ((ws ! 15 + s0 + ws ! 6 + s1) # ws))"

definition sha_round :: "word32 \<times> word32 \<Rightarrow> sha_state \<Rightarrow> sha_state" where
  "sha_round = (\<lambda>(k, w) (a, b, c, d, e, f, g, h).
     let s1 = xor (xor (sha_rotr 6 e) (sha_rotr 11 e)) (sha_rotr 25 e);
         ch = xor (and e f) (and (not e) g);
         t1 = h + s1 + ch + k + w;
         s0 = xor (xor (sha_rotr 2 a) (sha_rotr 13 a)) (sha_rotr 22 a);
         maj = xor (xor (and a b) (and a c)) (and b c)
     in (t1 + s0 + maj, a, b, c, d + t1, e, f, g))"

definition sha_block :: "word32 list \<Rightarrow> sha_state \<Rightarrow> sha_state" where
  "sha_block block st =
     (case (st, fold sha_round (zip sha_k (rev (sha_extend 48 (rev block)))) st) of
        ((a, b, c, d, e, f, g, h), (a', b', c', d', e', f', g', h')) \<Rightarrow>
          (a + a', b + b', c + c', d + d', e + e', f + f', g + g', h + h'))"

text \<open>Padding to whole blocks of 64 bytes, with the bit length in the last eight.\<close>

definition sha_byte :: "int \<Rightarrow> nat \<Rightarrow> byte" where
  "sha_byte n i = word_of_int (n div 256 ^ i)"

definition sha_pad :: "bytes \<Rightarrow> bytes" where
  "sha_pad m = m @ [128] @ replicate ((119 - length m mod 64) mod 64) 0
     @ map (sha_byte (8 * len m)) [7, 6, 5, 4, 3, 2, 1, 0]"

fun sha_words :: "bytes \<Rightarrow> word32 list" where
  "sha_words (a # b # c # d # bs) =
     (word_of_int (((uint a * 256 + uint b) * 256 + uint c) * 256 + uint d)) # sha_words bs"
| "sha_words _ = []"

function sha_blocks :: "word32 list \<Rightarrow> sha_state \<Rightarrow> sha_state" where
  "sha_blocks ws st = (if ws = [] then st else sha_blocks (drop 16 ws) (sha_block (take 16 ws) st))"
  by pat_completeness auto
termination
  by (relation "measure (length \<circ> fst)") auto

declare sha_blocks.simps [simp del]

text \<open>\<open>hexdigest()\<close>\<close>

definition hex_digit :: "int \<Rightarrow> int" where
  "hex_digit d = (if d < 10 then 48 + d else 87 + d)"

definition hex_word :: "word32 \<Rightarrow> pystr" where
  "hex_word w = map (\<lambda>i. hex_digit (uint w div 16 ^ i mod 16)) [7, 6, 5, 4, 3, 2, 1, 0]"

definition sha256_hexdigest :: "bytes \<Rightarrow> pystr" where
  "sha256_hexdigest m =
     (case sha_blocks (sha_words (sha_pad m)) sha_init of
        (a, b, c, d, e, f, g, h) \<Rightarrow> concat (map hex_word [a, b, c, d, e, f, g, h]))"

lemma sha256_abc: "sha256_hexdigest (map of_char ''abc'') =
    lit ''ba7816bf8f01cfea414140de5dae2223b00361a396177a9cb410ff61f20015ad''"
  by code_simp

text \<open>Every digest satisfies the check constraint of the checksum column.\<close>

lemma pad_blocks: "(a + 9 + (119 - a mod 64) mod 64) mod 64 = (0::nat)"
proof -
  define r where "r = a mod 64"
  have r: "r < 64" by (simp add: r_def)
  have "\<exists>k. r + (9 + (119 - r) mod 64) = k * 64"
  proof (cases "r \<le> 55")
    case True
    then have s: "119 - r = (55 - r) + 64" by simp
    have m: "(119 - r) mod 64 = 55 - r" unfolding s mod_add_self2 by (rule mod_less) simp
    have "r + (9 + (119 - r) mod 64) = 1 * 64" unfolding m using True by simp
    then show ?thesis by (rule exI)
  next
    case False
    then have m: "(119 - r) mod 64 = 119 - r" by (intro mod_less) simp
    have "r + (9 + (119 - r) mod 64) = 2 * 64" unfolding m using r by simp
    then show ?thesis by (rule exI)
  qed
  then have "(r + (9 + (119 - r) mod 64)) mod 64 = 0" by (metis mod_mult_self2_is_0)
  moreover have "(a + (9 + (119 - r) mod 64)) mod 64 = (r + (9 + (119 - r) mod 64)) mod 64"
    unfolding r_def by (simp only: mod_add_left_eq)
  ultimately show ?thesis unfolding r_def by (simp only: add.assoc)
qed

lemma sha_pad_blocks: "length (sha_pad m) mod 64 = 0"
proof -
  have "length (sha_pad m) = length m + 9 + (119 - length m mod 64) mod 64"
    by (simp add: sha_pad_def)
  then show ?thesis by (simp only: pad_blocks)
qed

lemma hex_word_ok: "length (hex_word w) = 8" "list_all lower_hex (hex_word w)"
proof -
  have "lower_hex (hex_digit d)" if "0 \<le> d" "d < 16" for d
    using that by (auto simp: lower_hex_def hex_digit_def)
  then show "list_all lower_hex (hex_word w)" by (simp add: hex_word_def)
qed (simp add: hex_word_def)

lemma checksum_ok_sha256 [simp]: "checksum_ok (sha256_hexdigest m)"
  by (simp add: checksum_ok_def sha256_hexdigest_def hex_word_ok split: prod.split)

end
