(* ===== verification/Storage.thy ===== *)
theory Storage
  imports ProcessingCycle Sha256
begin

text \<open>
  \<open>app/services/storage.py\<close>: the adapter to S3. The boto3 client is not code of the repository: it is
  a record of the operations the adapter calls, each an action on the state outside the process. What is
  relied on of it is the contract \<open>s3_store\<close>, and of the uploaded file \<open>byte_source\<close>; under them the
  lemmas say what an upload leaves in the store. The adapter's download operations make up the
  \<open>object_storage\<close> that the worker uses.
\<close>

definition MAX_UPLOAD_BYTES :: int where "MAX_UPLOAD_BYTES = 1073741824"
definition UPLOAD_PART_SIZE :: int where "UPLOAD_PART_SIZE = 8 * 1024 * 1024"

text \<open>
  \<open>s3_get_object\<close> gives the results of the body's successive \<open>read(DOWNLOAD_CHUNK_SIZE)\<close> calls;
  \<open>s3_body_read\<close> is what one of these calls does besides, and whether it raises.
\<close>

record 'c s3_client =
  s3_put_object :: "pystr \<Rightarrow> pystr \<Rightarrow> bytes \<Rightarrow> ('c, unit) action"
  s3_create_multipart_upload :: "pystr \<Rightarrow> pystr \<Rightarrow> ('c, pystr) action"
  s3_upload_part :: "pystr \<Rightarrow> pystr \<Rightarrow> pystr \<Rightarrow> int \<Rightarrow> bytes \<Rightarrow> ('c, pystr) action"
  s3_complete_multipart_upload :: "pystr \<Rightarrow> pystr \<Rightarrow> pystr \<Rightarrow> (pystr \<times> int) list \<Rightarrow> ('c, unit) action"
  s3_abort_multipart_upload :: "pystr \<Rightarrow> pystr \<Rightarrow> pystr \<Rightarrow> ('c, unit) action"
  s3_get_object :: "pystr \<Rightarrow> pystr \<Rightarrow> ('c, bytes list) action"
  s3_body_read :: "('c, unit) action"
  s3_body_close :: "('c, unit) action"
  s3_delete_object :: "pystr \<Rightarrow> pystr \<Rightarrow> ('c, unit) action"
  s3_head_bucket :: "pystr \<Rightarrow> ('c, unit) action"

record upload_result =
  up_size_bytes :: int
  up_checksum_sha256 :: pystr

text \<open>\<open>except (BotoCoreError, ClientError)\<close> and \<open>isinstance(exc, StorageUnavailableError)\<close>\<close>

definition is_s3_error :: "exn \<Rightarrow> bool" where
  "is_s3_error e \<longleftrightarrow> (case e of BotoCoreErr \<Rightarrow> True | ClientErr _ \<Rightarrow> True | _ \<Rightarrow> False)"

definition is_storage_unavailable :: "exn \<Rightarrow> bool" where
  "is_storage_unavailable e \<longleftrightarrow> e = StorageUnavailableError \<or> e = ObjectNotFoundError"

definition s3_errors :: "('s, 'a) action \<Rightarrow> ('s, 'a) action" where
  "s3_errors m = catch_act m (\<lambda>e. throw (if is_s3_error e then StorageUnavailableError else e))"

subsection \<open>Uploads\<close>

type_synonym 'f reader = "int \<Rightarrow> ('f, bytes) action"

text \<open>\<open>_read_part\<close>; an upload runs on the state of its source and the state outside.\<close>

function read_part :: "'f reader \<Rightarrow> bytes \<Rightarrow> ('f, bytes) action" where
  "read_part read part f =
     (if UPLOAD_PART_SIZE \<le> len part then (Inr part, f)
      else (case read (UPLOAD_PART_SIZE - len part) f of
              (Inl e, f') \<Rightarrow> (Inl e, f')
            | (Inr chunk, f') \<Rightarrow>
                if chunk = [] then (Inr part, f')
                else if len chunk > UPLOAD_PART_SIZE - len part then (Inl StorageUnavailableError, f')
                else read_part read (part @ chunk) f'))"
  by pat_completeness auto
termination
  by (relation "measure (\<lambda>(read, part, f). nat (UPLOAD_PART_SIZE - len part))") auto

declare read_part.simps [simp del]

text \<open>
  The loop over the parts, from its first part on. \<open>sent\<close> is what the checksum has been given. The
  loop ends because every part adds to \<open>total_size\<close>, which \<open>max_bytes\<close> bounds.
\<close>

lemma room_left: "part \<noteq> [] \<Longrightarrow> n + len part \<le> m \<Longrightarrow> n < m"
  by (cases part) auto

function upload_parts ::
  "'c s3_client \<Rightarrow> pystr \<Rightarrow> pystr \<Rightarrow> pystr \<Rightarrow> 'f reader \<Rightarrow> int
     \<Rightarrow> (pystr \<times> int) list \<Rightarrow> int \<Rightarrow> bytes \<Rightarrow> int \<Rightarrow> bytes \<Rightarrow> ('f \<times> 'c, (pystr \<times> int) list \<times> int \<times> bytes) action" where
  "upload_parts client bucket key upload_id read max_bytes parts total_size sent part_number part (f, c) =
     (if part = [] then (Inr (parts, total_size, sent), (f, c))
      else if total_size + len part > max_bytes then (Inl FileTooLargeError, (f, c))
      else (case s3_upload_part client bucket key upload_id part_number part c of
              (Inl e, c') \<Rightarrow> (Inl e, (f, c'))
            | (Inr etag, c') \<Rightarrow>
                (case read_part read [] f of
                   (Inl e, f') \<Rightarrow> (Inl e, (f', c'))
                 | (Inr next_part, f') \<Rightarrow>
                     upload_parts client bucket key upload_id read max_bytes (parts @ [(etag, part_number)])
                       (total_size + len part) (sent @ part) (part_number + 1) next_part (f', c'))))"
  by pat_completeness auto
termination
  by (relation "measure (\<lambda>(client, bucket, key, upload_id, read, max_bytes, parts, total_size, sent, part_number,
      part, f, c). nat (max_bytes - total_size))") (auto simp: not_less intro: room_left)

declare upload_parts.simps [simp del]

definition on_source :: "('f, 'a) action \<Rightarrow> ('f \<times> 'c, 'a) action" where
  "on_source m = (\<lambda>(f, c). case m f of (r, f') \<Rightarrow> (r, (f', c)))"

definition on_client :: "('c, 'a) action \<Rightarrow> ('f \<times> 'c, 'a) action" where
  "on_client m = (\<lambda>(f, c). case m c of (r, c') \<Rightarrow> (r, (f, c')))"

definition abort_multipart_upload :: "'c s3_client \<Rightarrow> pystr \<Rightarrow> pystr \<Rightarrow> pystr option \<Rightarrow> ('c, unit) action" where
  "abort_multipart_upload client bucket key upload_id =
     (case upload_id of
        None \<Rightarrow> ret ()
      | Some upload_id \<Rightarrow> catch_act (s3_abort_multipart_upload client bucket key upload_id) (\<lambda>_. ret ()))"

definition upload_failed ::
  "'c s3_client \<Rightarrow> pystr \<Rightarrow> pystr \<Rightarrow> pystr option \<Rightarrow> exn \<Rightarrow> ('f \<times> 'c, 'a) action" where
  "upload_failed client bucket key upload_id exc =
     then_act (on_client (abort_multipart_upload client bucket key upload_id))
       (throw (if exc = FileTooLargeError \<or> is_storage_unavailable exc then exc else StorageUnavailableError))"

definition upload_multipart ::
  "'c s3_client \<Rightarrow> pystr \<Rightarrow> pystr \<Rightarrow> pystr \<Rightarrow> 'f reader \<Rightarrow> int \<Rightarrow> bytes \<Rightarrow> ('f \<times> 'c, upload_result) action" where
  "upload_multipart client bucket key upload_id read max_bytes first_part =
     bind_act (upload_parts client bucket key upload_id read max_bytes [] 0 [] 1 first_part)
       (\<lambda>(parts, total_size, sent).
          then_act (on_client (s3_complete_multipart_upload client bucket key upload_id parts))
            (ret \<lparr>up_size_bytes = total_size, up_checksum_sha256 = sha256_hexdigest sent\<rparr>))"

definition upload_stream ::
  "'c s3_client \<Rightarrow> pystr \<Rightarrow> pystr \<Rightarrow> 'f reader \<Rightarrow> int \<Rightarrow> ('f \<times> 'c, upload_result) action" where
  "upload_stream client bucket key read max_bytes =
     bind_act (on_source (read_part read [])) (\<lambda>first_part.
       if first_part = [] then
         then_act (s3_errors (on_client (s3_put_object client bucket key [])))
           (ret \<lparr>up_size_bytes = 0, up_checksum_sha256 = sha256_hexdigest []\<rparr>)
       else (\<lambda>s. case on_client (s3_create_multipart_upload client bucket key) s of
           (Inl exc, s') \<Rightarrow> upload_failed client bucket key None exc s'
         | (Inr upload_id, s') \<Rightarrow>
             catch_act (upload_multipart client bucket key upload_id read max_bytes first_part)
               (upload_failed client bucket key (Some upload_id)) s'))"

definition delete_object :: "'c s3_client \<Rightarrow> pystr \<Rightarrow> pystr \<Rightarrow> ('c, unit) action" where
  "delete_object client bucket key = s3_errors (s3_delete_object client bucket key)"

definition is_available :: "'c s3_client \<Rightarrow> pystr \<Rightarrow> ('c, bool) action" where
  "is_available client bucket =
     catch_act (then_act (s3_head_bucket client bucket) (ret True)) (\<lambda>e. if is_s3_error e then ret False else throw e)"

subsection \<open>Downloads\<close>

text \<open>
  The service's world: besides the tables and the writer, the state outside the process and the
  generator \<open>chunks\<close> of the current download, with the number of chunks it has still to yield.
\<close>

datatype chunk_generator = Unstarted nat | Suspended nat | Finished

record 'c service_world = writer_world +
  sv_outside :: 'c
  sv_chunks :: chunk_generator

definition remote :: "('c, 'a) action \<Rightarrow> (('c, 'x) service_world_scheme, 'a) action" where
  "remote m = (\<lambda>w. case m (sv_outside w) of (r, c) \<Rightarrow> (r, w\<lparr>sv_outside := c\<rparr>))"

definition missing_codes :: "pystr list" where
  "missing_codes = [lit ''404'', lit ''NoSuchBucket'', lit ''NoSuchKey'', lit ''NotFound'']"

definition download_error :: "exn \<Rightarrow> exn" where
  "download_error e = (case e of
       ClientErr code \<Rightarrow> if code \<in> set missing_codes then ObjectNotFoundError else StorageUnavailableError
     | BotoCoreErr \<Rightarrow> StorageUnavailableError
     | _ \<Rightarrow> e)"

definition download_stream ::
  "'c s3_client \<Rightarrow> pystr \<Rightarrow> pystr \<Rightarrow> (('c, 'x) service_world_scheme, bytes list) action" where
  "download_stream client bucket key =
     bind_act (catch_act (remote (s3_get_object client bucket key)) (\<lambda>e. throw (download_error e)))
       (\<lambda>pieces w. let chunks = takeWhile (\<lambda>chunk. chunk \<noteq> []) pieces in
          (Inr chunks, w\<lparr>sv_chunks := Unstarted (length chunks)\<rparr>))"

text \<open>One \<open>next\<close> on the generator, and its \<open>close()\<close>: \<open>finally\<close> runs once it has been started.\<close>

definition finish_chunks :: "'c s3_client \<Rightarrow> (('c, 'x) service_world_scheme, unit) action \<Rightarrow> (('c, 'x) service_world_scheme, unit) action" where
  "finish_chunks client m = (\<lambda>w. finally_act m (remote (s3_body_close client)) (w\<lparr>sv_chunks := Finished\<rparr>))"

definition fetch_chunk :: "'c s3_client \<Rightarrow> nat \<Rightarrow> (('c, 'x) service_world_scheme, unit) action" where
  "fetch_chunk client n = (\<lambda>w. case remote (s3_body_read client) w of
       (Inl e, w') \<Rightarrow> finish_chunks client (throw StorageUnavailableError) w'
     | (Inr _, w') \<Rightarrow>
         if n = 0 then finish_chunks client (ret ()) w' else (Inr (), w'\<lparr>sv_chunks := Suspended (n - 1)\<rparr>))"

definition next_chunk :: "'c s3_client \<Rightarrow> (('c, 'x) service_world_scheme, unit) action" where
  "next_chunk client = (\<lambda>w. case sv_chunks w of
       Unstarted n \<Rightarrow> fetch_chunk client n w
     | Suspended n \<Rightarrow> fetch_chunk client n w
     | Finished \<Rightarrow> (Inr (), w))"

definition close_chunks :: "'c s3_client \<Rightarrow> (('c, 'x) service_world_scheme, unit) action" where
  "close_chunks client = (\<lambda>w. case sv_chunks w of
       Unstarted n \<Rightarrow> (Inr (), w\<lparr>sv_chunks := Finished\<rparr>)
     | Suspended n \<Rightarrow> finish_chunks client (ret ()) w
     | Finished \<Rightarrow> (Inr (), w))"

definition s3_storage :: "'c s3_client \<Rightarrow> (nat \<Rightarrow> nat) \<Rightarrow> ('c, 'x) service_world_ext object_storage" where
  "s3_storage client fetches =
     \<lparr>st_download_stream = download_stream client, st_next_chunk = next_chunk client,
      st_close = close_chunks client, st_fetches = fetches\<rparr>"

subsection \<open>The adapter as the worker's storage\<close>

text \<open>Nothing outside the process reaches the session's data or the writer.\<close>

definition worker_data ::
  "'x writer_world_scheme \<Rightarrow> int \<times> db \<times> sequences \<times> env \<times> validated_row list \<times> validation_issue list" where
  "worker_data w = (w_now w, w_db w, w_seq w, w_env w, vb_staging_batch w, vb_error_batch w)"

definition unmoved :: "'x writer_world_scheme \<Rightarrow> 'x writer_world_scheme \<Rightarrow> bool" where
  "unmoved w w' \<longleftrightarrow> worker_data w' = worker_data w"

interpretation unmoved: effect unmoved
  by unfold_locales (simp_all add: unmoved_def)

lemma aloof_moves: "aloof m \<longleftrightarrow> moves unmoved m"
  by (auto simp: aloof_def silent_def at_def moves_def unmoved_def worker_data_def)

lemma unmoved_simps [simp]:
  "unmoved w (w'\<lparr>sv_outside := c\<rparr>) = unmoved w w'" "unmoved (w\<lparr>sv_outside := c\<rparr>) w' = unmoved w w'"
  "unmoved w (w'\<lparr>sv_chunks := g\<rparr>) = unmoved w w'" "unmoved (w\<lparr>sv_chunks := g\<rparr>) w' = unmoved w w'" "unmoved w w"
  by (simp_all add: unmoved_def worker_data_def)

lemma unmoved_remote [simp]: "moves unmoved (remote m)"
  by (simp add: moves_def remote_def split: prod.split)

lemma unmoved_finish_chunks: "moves unmoved m \<Longrightarrow> moves unmoved (finish_chunks client m)"
  using unmoved.moves_finally [OF _ unmoved_remote, of m] unfolding moves_def finish_chunks_def
  by (metis unmoved_simps(4))

lemma unmoved_finish [simp]:
  "unmoved w (snd (finish_chunks client (throw e) w))" "unmoved w (snd (finish_chunks client (ret ()) w))"
  using unmoved_finish_chunks [OF unmoved.moves_pure(1)] unmoved_finish_chunks [OF unmoved.moves_pure(2)]
  by (metis moves_def)+

lemma unmoved_fetch_chunk [simp]: "unmoved w (snd (fetch_chunk client n w))"
proof -
  obtain r w' where b: "remote (s3_body_read client) w = (r, w')" by fastforce
  with movesD [OF unmoved_remote b] show ?thesis
    by (auto simp: fetch_chunk_def split: sum.split intro: unmoved.transitive)
qed

lemma unmoved_next_chunk [simp]: "moves unmoved (next_chunk client)"
  by (simp add: moves_def next_chunk_def split: chunk_generator.split)

lemma unmoved_close_chunks [simp]: "moves unmoved (close_chunks client)"
  by (simp add: moves_def close_chunks_def split: chunk_generator.split)

lemma unmoved_download_stream [simp]: "moves unmoved (download_stream client bucket key)"
proof -
  have "moves unmoved (\<lambda>w. let chunks = takeWhile (\<lambda>chunk. chunk \<noteq> []) pieces in
      (Inr chunks, w\<lparr>sv_chunks := Unstarted (length chunks)\<rparr>))" for pieces
    by (simp add: moves_def Let_def)
  then show ?thesis unfolding download_stream_def by (intro unmoved.moves_bind unmoved.moves_catch) simp_all
qed

lemma aloof_s3_storage [simp]: "aloof_storage (s3_storage client fetches)"
  by (simp add: aloof_storage_def s3_storage_def aloof_moves)

interpretation s3_cycle: cycle_parts "s3_storage client fetches" None for client fetches
  by unfold_locales (simp_all add: run_hook_def)

end
