(* ===== verification/StorageContract.thy ===== *)
theory StorageContract
  imports Storage
begin

text \<open>
  What is relied on of the S3 client and of an uploaded file, as the locales \<open>s3_store\<close>,
  \<open>byte_source\<close> and their union \<open>s3_upload\<close>, which \<open>s3_service\<close> extends, and what the adapter's operations then do to the objects in the store. A store in
  memory whose operations fail on a schedule satisfies the contract.
\<close>

subsection \<open>The source of an upload\<close>

locale byte_source =
  fixes read :: "'f reader" and left :: "'f \<Rightarrow> bytes"
  assumes read_next: "0 < n \<Longrightarrow> read n f = (Inr chunk, f') \<Longrightarrow> left f = chunk @ left f' \<and> (chunk = [] \<longrightarrow> left f = [])"
begin

lemma read_part_Inr:
  "read_part read part f = (Inr part', f') \<Longrightarrow> len part \<le> UPLOAD_PART_SIZE \<Longrightarrow>
     \<exists>new. part' = part @ new \<and> left f = new @ left f' \<and> (len part' < UPLOAD_PART_SIZE \<longrightarrow> left f' = [])"
proof (induction "nat (UPLOAD_PART_SIZE - len part)" arbitrary: part f rule: less_induct)
  case less
  show ?case
  proof (cases "UPLOAD_PART_SIZE \<le> len part")
    case True
    then show ?thesis using less.prems by (simp add: read_part.simps [of read part f])
  next
    case False
    then obtain chunk f1 where rd: "read (UPLOAD_PART_SIZE - len part) f = (Inr chunk, f1)"
      using less.prems by (auto simp: read_part.simps [of read part f] split: prod.splits sum.splits)
    then have l: "left f = chunk @ left f1" "chunk = [] \<Longrightarrow> left f = []"
      using read_next [OF _ rd] False by auto
    show ?thesis
    proof (cases "chunk = []")
      case True
      then show ?thesis using less.prems rd l False by (simp add: read_part.simps [of read part f])
    next
      case more: False
      have fits: "len chunk \<le> UPLOAD_PART_SIZE - len part"
        and rest: "read_part read (part @ chunk) f1 = (Inr part', f')"
        using less.prems rd False more by (auto simp: read_part.simps [of read part f] split: if_splits)
      have "nat (UPLOAD_PART_SIZE - len (part @ chunk)) < nat (UPLOAD_PART_SIZE - len part)"
        using False more by (cases chunk) auto
      from less.hyps [OF this rest] fits obtain new where "part' = (part @ chunk) @ new" "left f1 = new @ left f'"
        "len part' < UPLOAD_PART_SIZE \<longrightarrow> left f' = []"
        by auto
      then show ?thesis using l by auto
    qed
  qed
qed

lemma first_part:
  assumes "read_part read [] f = (Inr part, f')"
  shows "left f = part @ left f' \<and> (part = [] \<longrightarrow> left f = [])"
  using read_part_Inr [OF assms] by (auto simp: UPLOAD_PART_SIZE_def)

end

subsection \<open>The store\<close>

text \<open>
  \<open>objects\<close> are the objects the store holds, by bucket and key, and \<open>uploads\<close> the parts of a multipart upload.
  An operation that raises may have taken effect, but only on the object it is about.
\<close>

type_synonym uploaded_part = "pystr \<times> int \<times> bytes"

definition part_listing :: "uploaded_part list \<Rightarrow> (pystr \<times> int) list" where
  "part_listing = map (\<lambda>(etag, n, body). (etag, n))"

definition part_bytes :: "uploaded_part list \<Rightarrow> bytes" where
  "part_bytes ps = concat (map (\<lambda>(etag, n, body). body) ps)"

lemma part_simps [simp]:
  "part_listing [] = []" "part_listing (ps @ qs) = part_listing ps @ part_listing qs"
  "part_listing [(e, n, body)] = [(e, n)]"
  "part_bytes [] = []" "part_bytes (ps @ qs) = part_bytes ps @ part_bytes qs" "part_bytes [(e, n, body)] = body"
  by (simp_all add: part_listing_def part_bytes_def)

locale s3_store =
  fixes client :: "'c s3_client"
    and objects :: "'c \<Rightarrow> pystr \<times> pystr \<Rightarrow> bytes option"
    and uploads :: "'c \<Rightarrow> pystr \<Rightarrow> uploaded_part list"
  assumes put_others: "s3_put_object client b k body c = (r, c') \<Longrightarrow> ref \<noteq> (b, k) \<Longrightarrow> objects c' ref = objects c ref"
    and put_stored: "s3_put_object client b k body c = (Inr u, c') \<Longrightarrow> objects c' (b, k) = Some body"
    and create_objects: "s3_create_multipart_upload client b k c = (r1, c') \<Longrightarrow> objects c' = objects c"
    and create_empty: "s3_create_multipart_upload client b k c = (Inr upload_id, c') \<Longrightarrow> uploads c' upload_id = []"
    and part_objects: "s3_upload_part client b k upload_id n body c = (r1, c') \<Longrightarrow> objects c' = objects c"
    and part_stored: "s3_upload_part client b k upload_id n body c = (Inr etag, c') \<Longrightarrow>
      uploads c' upload_id = uploads c upload_id @ [(etag, n, body)]"
    and complete_others: "s3_complete_multipart_upload client b k upload_id listing c = (r, c') \<Longrightarrow> ref \<noteq> (b, k) \<Longrightarrow>
      objects c' ref = objects c ref"
    and complete_stored: "s3_complete_multipart_upload client b k upload_id listing c = (Inr u, c') \<Longrightarrow>
      listing = part_listing (uploads c upload_id) \<Longrightarrow> objects c' (b, k) = Some (part_bytes (uploads c upload_id))"
    and abort_objects: "s3_abort_multipart_upload client b k upload_id c = (r, c') \<Longrightarrow> objects c' = objects c"
    and delete_others: "s3_delete_object client b k c = (r, c') \<Longrightarrow> ref \<noteq> (b, k) \<Longrightarrow> objects c' ref = objects c ref"
    and delete_gone: "s3_delete_object client b k c = (Inr u, c') \<Longrightarrow> objects c' (b, k) = None"
    and get_objects: "s3_get_object client b k c = (r2, c') \<Longrightarrow> objects c' = objects c"
    and get_found: "s3_get_object client b k c = (Inr pieces, c') \<Longrightarrow>
      objects c (b, k) = Some (concat (takeWhile (\<lambda>chunk. chunk \<noteq> []) pieces))"
    and body_objects: "s3_body_read client c = (r, c') \<Longrightarrow> objects c' = objects c"
      "s3_body_close client c = (r, c') \<Longrightarrow> objects c' = objects c"
    and head_objects: "s3_head_bucket client b c = (r, c') \<Longrightarrow> objects c' = objects c"

locale s3_upload = s3_store client objects uploads + byte_source read left
  for client :: "'c s3_client" and objects uploads and read :: "'f reader" and left
begin

lemma upload_parts_Nil [simp]:
  "upload_parts client b k upload_id read m parts n sent num [] (f, c) = (Inr (parts, n, sent), (f, c))"
  by (simp add: upload_parts.simps)

lemma upload_failed_raises [simp]: "upload_failed client b k upload_id exc s \<noteq> (Inr x, s')"
  by (cases s) (auto simp: upload_failed_def act_simps on_client_def split: prod.split sum.split)

lemma upload_parts_Inr:
  "upload_parts client b k upload_id read m parts n sent num part (f, c) = (Inr (parts', n', sent'), (f', c')) \<Longrightarrow>
     parts = part_listing (uploads c upload_id) \<Longrightarrow> sent = part_bytes (uploads c upload_id) \<Longrightarrow> n = len sent \<Longrightarrow>
     (part = [] \<longrightarrow> left f = []) \<Longrightarrow>
     objects c' = objects c \<and> parts' = part_listing (uploads c' upload_id) \<and> sent' = part_bytes (uploads c' upload_id)
     \<and> sent' = sent @ part @ left f \<and> n' = len sent' \<and> (part \<noteq> [] \<longrightarrow> n' \<le> m)"
proof (induction "nat (m - n)" arbitrary: parts n sent num part f c rule: less_induct)
  case less
  note step = upload_parts.simps [of client b k upload_id read m parts n sent num part f c]
  show ?case
  proof (cases "part = []")
    case True
    with less.prems show ?thesis by auto
  next
    case False
    from less.prems(1) False obtain etag c1 next_part f1 where fits: "n + len part \<le> m"
      and up: "s3_upload_part client b k upload_id num part c = (Inr etag, c1)"
      and rd: "read_part read [] f = (Inr next_part, f1)"
      and rest: "upload_parts client b k upload_id read m (parts @ [(etag, num)]) (n + len part) (sent @ part) (num + 1)
        next_part (f1, c1) = (Inr (parts', n', sent'), (f', c'))"
      by (auto simp: step split: if_splits prod.splits sum.splits)
    have "nat (m - (n + len part)) < nat (m - n)" using False fits by (cases part) auto
    from less.hyps [OF this rest] first_part [OF rd] part_objects [OF up] part_stored [OF up] less.prems(2-4)
    show ?thesis using False fits by (cases "next_part = []") auto
  qed
qed

lemma upload_stream_Inr:
  assumes "upload_stream client b k read m (f, c) = (Inr res, (f', c'))"
  shows "objects c' = (objects c)((b, k) \<mapsto> left f) \<and> up_size_bytes res = len (left f)
    \<and> up_checksum_sha256 res = sha256_hexdigest (left f) \<and> (left f \<noteq> [] \<longrightarrow> len (left f) \<le> m)"
proof -
  from assms obtain part f1 where rd: "read_part read [] f = (Inr part, f1)"
    by (auto simp: upload_stream_def act_simps on_source_def split: prod.splits sum.splits)
  note first = first_part [OF rd]
  have upd: "objects c' = (objects c)((b, k) \<mapsto> x)"
    if "objects c' (b, k) = Some x" "\<And>ref. ref \<noteq> (b, k) \<Longrightarrow> objects c' ref = objects c ref" for x
    using that by (auto simp: fun_eq_iff)
  show ?thesis
  proof (cases "part = []")
    case True
    with assms rd have put0: "then_act (s3_errors (on_client (s3_put_object client b k [])))
        (ret \<lparr>up_size_bytes = 0, up_checksum_sha256 = sha256_hexdigest []\<rparr>) (f1, c) = (Inr res, (f', c'))"
      by (simp add: upload_stream_def act_simps on_source_def)
    obtain r1 c1 where put1: "s3_put_object client b k [] c = (r1, c1)" by fastforce
    with put0 have put: "s3_put_object client b k [] c = (Inr (), c')"
      and res: "res = \<lparr>up_size_bytes = 0, up_checksum_sha256 = sha256_hexdigest []\<rparr>"
      by (cases r1; simp add: act_simps on_client_def s3_errors_def)+
    have "left f = []" using first True by blast
    then show ?thesis using upd [OF put_stored [OF put] put_others [OF put]] res by simp
  next
    case False
    obtain r1 c1 where cr1: "s3_create_multipart_upload client b k c = (r1, c1)" by fastforce
    have run1: "(case (r1, (f1, c1)) of
           (Inl exc, s') \<Rightarrow> upload_failed client b k None exc s'
         | (Inr upload_id, s') \<Rightarrow> catch_act (upload_multipart client b k upload_id read m part)
               (upload_failed client b k (Some upload_id)) s') = (Inr res, (f', c'))"
      using assms rd False cr1 by (simp add: upload_stream_def act_simps on_source_def on_client_def)
    then obtain upload_id where r1: "r1 = Inr upload_id" by (cases r1) simp_all
    obtain r2 s2 where mp: "upload_multipart client b k upload_id read m part (f1, c1) = (r2, s2)" by (rule prod.exhaust)
    with run1 r1 have run: "upload_multipart client b k upload_id read m part (f1, c1) = (Inr res, (f', c'))"
      by (cases r2) (simp_all add: act_simps)
    note cr = cr1 [unfolded r1]
    from run obtain parts n sent f2 c2 u where
      parts: "upload_parts client b k upload_id read m [] 0 [] 1 part (f1, c1) = (Inr (parts, n, sent), (f2, c2))"
      and fin: "s3_complete_multipart_upload client b k upload_id parts c2 = (Inr u, c')"
      and res: "res = \<lparr>up_size_bytes = n, up_checksum_sha256 = sha256_hexdigest sent\<rparr>"
      by (auto simp: upload_multipart_def act_simps on_client_def split: prod.splits sum.splits)
    from upload_parts_Inr [OF parts] create_empty [OF cr] create_objects [OF cr] first False
    have p: "objects c2 = objects c" "parts = part_listing (uploads c2 upload_id)" "sent = part_bytes (uploads c2 upload_id)"
      "sent = left f" "n = len sent" "n \<le> m"
      by auto
    from complete_stored [OF fin p(2)] complete_others [OF fin] p(1,3,4)
    have "objects c' = (objects c)((b, k) \<mapsto> left f)" by (intro upd) auto
    with p res show ?thesis by simp
  qed
qed

text \<open>However an upload ends, no other object changes, and only a completed one changes its own.\<close>

lemma abort_any: "abort_multipart_upload client b k upload_id c = (r, c') \<Longrightarrow> objects c' = objects c"
  using abort_objects by (fastforce simp: abort_multipart_upload_def act_simps split: option.splits prod.splits sum.splits)

lemma upload_failed_objects:
  "upload_failed client b k upload_id exc s = (r, s') \<Longrightarrow> objects (snd s') = objects (snd s)"
  using abort_any [of b k upload_id "snd s"]
  by (cases s) (auto simp: upload_failed_def act_simps on_client_def split: prod.splits sum.splits)

lemma upload_parts_objects:
  "upload_parts client b k upload_id rd m parts n sent num part (f, c) = (r, s') \<Longrightarrow> objects (snd s') = objects c"
proof (induction "nat (m - n)" arbitrary: parts n sent num part f c rule: less_induct)
  case less
  note step = upload_parts.simps [of client b k upload_id rd m parts n sent num part f c]
  show ?case
  proof (cases "part = [] \<or> m < n + len part")
    case True
    then show ?thesis using less.prems by (auto simp: step split: if_splits)
  next
    case False
    obtain r1 c1 r2 f2 where up: "s3_upload_part client b k upload_id num part c = (r1, c1)"
      and rd: "read_part rd [] f = (r2, f2)" by fastforce
    have "nat (m - (n + len part)) < nat (m - n)" using False by (cases part) auto
    with less.hyps [OF this] less.prems False up rd part_objects [OF up] show ?thesis
      by (cases r1; cases r2) (auto simp: step)
  qed
qed

lemma upload_multipart_others:
  assumes "upload_multipart client b k upload_id rd m part s = (r, s')" and "ref \<noteq> (b, k)"
  shows "objects (snd s') ref = objects (snd s) ref"
proof -
  obtain f c where s: "s = (f, c)" by fastforce
  obtain r1 f1 c1 where p: "upload_parts client b k upload_id rd m [] 0 [] 1 part s = (r1, (f1, c1))" by (metis prod.exhaust)
  note o = upload_parts_objects [OF p [unfolded s]]
  show ?thesis
  proof (cases r1)
    case (Inl e)
    with assms(1) p o s show ?thesis by (simp add: upload_multipart_def act_simps) auto
  next
    case (Inr x)
    obtain ps n sent where x: "x = (ps, n, sent)" by (metis prod.exhaust)
    obtain r2 c2 where c2: "s3_complete_multipart_upload client b k upload_id ps c1 = (r2, c2)" by fastforce
    from complete_others [OF c2 assms(2)] assms(1) p o s Inr x c2 show ?thesis
      by (cases r2) (auto simp: upload_multipart_def act_simps on_client_def)
  qed
qed

lemma upload_stream_others:
  assumes "upload_stream client b k rd m s = (r, s')" and "ref \<noteq> (b, k)"
  shows "objects (snd s') ref = objects (snd s) ref"
proof -
  obtain f c where s: "s = (f, c)" by fastforce
  obtain r1 f1 where rd: "read_part rd [] f = (r1, f1)" by fastforce
  show ?thesis
  proof (cases "r1 = Inr [] \<or> (\<exists>e. r1 = Inl e)")
    case True
    obtain r2 c2 where put: "s3_put_object client b k [] c = (r2, c2)" by fastforce
    from True put_others [OF put assms(2)] assms(1) s rd put show ?thesis
      by (cases r2) (auto simp: upload_stream_def act_simps on_source_def on_client_def s3_errors_def)
  next
    case False
    then obtain part where part: "r1 = Inr part" "part \<noteq> []" by (cases r1) auto
    obtain r2 c2 where cr: "s3_create_multipart_upload client b k c = (r2, c2)" by fastforce
    note o = create_objects [OF cr]
    show ?thesis
    proof (cases r2)
      case (Inl e)
      with assms(1) s rd part cr have "upload_failed client b k None e (f1, c2) = (r, s')"
        by (simp add: upload_stream_def act_simps on_source_def on_client_def)
      from upload_failed_objects [OF this] o s show ?thesis by simp
    next
      case (Inr u)
      obtain r3 s3 where mp: "upload_multipart client b k u rd m part (f1, c2) = (r3, s3)" by (rule prod.exhaust)
      with assms(1) s rd part cr Inr have "(case r3 of Inl e \<Rightarrow> upload_failed client b k (Some u) e s3 | Inr x \<Rightarrow> (Inr x, s3)) = (r, s')"
        by (simp add: upload_stream_def act_simps on_source_def on_client_def split: sum.splits)
      with upload_failed_objects [of b k "Some u" _ s3 r s'] upload_multipart_others [OF mp assms(2)] o s show ?thesis
        by (cases r3) auto
    qed
  qed
qed

end

text \<open>What the service relies on besides: a delete that raises has either removed the object or left it alone.\<close>

locale s3_service = s3_upload client objects uploads read left
  for client :: "'c s3_client" and objects uploads and read :: "'f reader" and left +
  assumes delete_partial: "s3_delete_object client b k c = (r, c') \<Longrightarrow>
    objects c' (b, k) = objects c (b, k) \<or> objects c' (b, k) = None"

subsection \<open>A store in memory\<close>

text \<open>
  It keeps objects and multipart uploads, checks the part list on completion as S3 does, and raises
  where \<open>ms_fault\<close> says so.
\<close>

record memory_store =
  ms_objects :: "((pystr \<times> pystr) \<times> bytes) list"
  ms_uploads :: "(pystr \<times> uploaded_part list) list"
  ms_next :: int
  ms_tick :: nat
  ms_fault :: "nat \<Rightarrow> exn option"

definition store_op :: "(memory_store \<Rightarrow> (exn + 'a) \<times> memory_store) \<Rightarrow> (memory_store, 'a) action" where
  "store_op f = (\<lambda>c. case ms_fault c (ms_tick c) of
       Some e \<Rightarrow> (Inl e, c\<lparr>ms_tick := Suc (ms_tick c)\<rparr>)
     | None \<Rightarrow> (case f c of (r, c') \<Rightarrow> (r, c'\<lparr>ms_tick := Suc (ms_tick c)\<rparr>)))"

definition memory_uploads :: "memory_store \<Rightarrow> pystr \<Rightarrow> uploaded_part list" where
  "memory_uploads c upload_id = (case map_of (ms_uploads c) upload_id of None \<Rightarrow> [] | Some ps \<Rightarrow> ps)"

definition memory_objects :: "memory_store \<Rightarrow> pystr \<times> pystr \<Rightarrow> bytes option" where
  "memory_objects c = map_of (ms_objects c)"

definition put_bytes :: "pystr \<times> pystr \<Rightarrow> bytes \<Rightarrow> memory_store \<Rightarrow> (exn + unit) \<times> memory_store" where
  "put_bytes ref body c = (Inr (), c\<lparr>ms_objects := AList.update ref body (ms_objects c)\<rparr>)"

definition set_parts :: "pystr \<Rightarrow> uploaded_part list \<Rightarrow> memory_store \<Rightarrow> memory_store" where
  "set_parts upload_id ps c = c\<lparr>ms_uploads := AList.update upload_id ps (ms_uploads c)\<rparr>"

definition memory_client :: "memory_store s3_client" where
  "memory_client =
     \<lparr>s3_put_object = (\<lambda>b k body. store_op (put_bytes (b, k) body)),
      s3_create_multipart_upload = (\<lambda>b k. store_op (\<lambda>c.
        let upload_id = py_str_int (ms_next c) in (Inr upload_id, set_parts upload_id [] (c\<lparr>ms_next := ms_next c + 1\<rparr>)))),
      s3_upload_part = (\<lambda>b k upload_id n body. store_op (\<lambda>c.
        (Inr (py_str_int n), set_parts upload_id (memory_uploads c upload_id @ [(py_str_int n, n, body)]) c))),
      s3_complete_multipart_upload = (\<lambda>b k upload_id listing. store_op (\<lambda>c.
        if listing = part_listing (memory_uploads c upload_id) then put_bytes (b, k) (part_bytes (memory_uploads c upload_id)) c
        else (Inl (ClientErr (lit ''InvalidPart'')), c))),
      s3_abort_multipart_upload = (\<lambda>b k upload_id. store_op (\<lambda>c. (Inr (), set_parts upload_id [] c))),
      s3_get_object = (\<lambda>b k. store_op (\<lambda>c. (case memory_objects c (b, k) of
          None \<Rightarrow> Inl (ClientErr (lit ''NoSuchKey'')) | Some body \<Rightarrow> Inr [body], c))),
      s3_body_read = store_op (\<lambda>c. (Inr (), c)),
      s3_body_close = store_op (\<lambda>c. (Inr (), c)),
      s3_delete_object = (\<lambda>b k. store_op (\<lambda>c. (Inr (), c\<lparr>ms_objects := AList.delete (b, k) (ms_objects c)\<rparr>))),
      s3_head_bucket = (\<lambda>b. store_op (\<lambda>c. (Inr (), c)))\<rparr>"

text \<open>A file in memory, read as much as is asked for.\<close>

definition read_bytes :: "bytes reader" where
  "read_bytes n f = (if len f \<le> n then (Inr f, []) else (Inr (take (nat n) f), drop (nat n) f))"

interpretation memory: s3_service memory_client memory_objects memory_uploads read_bytes "\<lambda>f. f"
  by unfold_locales
    (auto simp: memory_client_def store_op_def put_bytes_def set_parts_def memory_objects_def memory_uploads_def
      update_conv' delete_conv' read_bytes_def Let_def split: option.splits if_splits prod.splits)

end
