(* ===== verification/Outside.thy ===== *)
theory Outside
  imports StorageContract
begin

text \<open>
  What a worker cycle does to the state outside the process: under the contract of the store it changes
  no object. The effect is lifted through the operations on the database, which do not reach outside.
\<close>

definition same_outside :: "('c \<Rightarrow> 'v) \<Rightarrow> ('c, 'x) service_world_scheme \<Rightarrow> ('c, 'x) service_world_scheme \<Rightarrow> bool" where
  "same_outside V w w' \<longleftrightarrow> V (sv_outside w') = V (sv_outside w) \<and> w_env w' = w_env w"

interpretation outside: effect "same_outside V" for V
  by unfold_locales (simp_all add: same_outside_def)

lemma same_outside_refl [simp]: "same_outside V w w"
  by (simp add: same_outside_def)

lemma same_outside_updates [simp]:
  "same_outside V w (w'\<lparr>w_db := d\<rparr>) = same_outside V w w'"
  "same_outside V w (w'\<lparr>w_db := d, w_seq := sq\<rparr>) = same_outside V w w'"
  "same_outside V w (tick w') = same_outside V w w'"
  "same_outside V (w\<lparr>w_now := n\<rparr>) w' = same_outside V w w'"
  "same_outside V w (w'\<lparr>vb_staging_batch := rows\<rparr>) = same_outside V w w'"
  "same_outside V (w\<lparr>vb_staging_batch := rows\<rparr>) w' = same_outside V w w'"
  "same_outside V w (w'\<lparr>vb_error_batch := issues\<rparr>) = same_outside V w w'"
  "same_outside V (w\<lparr>vb_error_batch := issues\<rparr>) w' = same_outside V w w'"
  "same_outside V w (w'\<lparr>sv_chunks := g\<rparr>) = same_outside V w w'"
  "same_outside V (w\<lparr>sv_chunks := g\<rparr>) w' = same_outside V w w'"
  by (simp_all add: same_outside_def tick_def)

subsection \<open>Operations on the database\<close>

lemma outside_database [simp, intro]:
  "moves (same_outside V) (query f)" "moves (same_outside V) (bound_query numbers texts f)"
  "moves (same_outside V) (execute s)" "moves (same_outside V) ensure_lock_connection_alive"
  by (simp_all add: moves_def query_def bound_query_def execute_def ensure_lock_connection_alive_def split: option.split)

lemma outside_transaction [intro]:
  assumes "moves (same_outside V) body"
  shows "moves (same_outside V) (transaction body)"
proof (rule moves_impI)
  fix w r w'
  assume run: "transaction body w = (r, w')"
  obtain r1 w1 where b: "body (w\<lparr>w_now := env_time (w_env w) (w_tick w)\<rparr>) = (r1, w1)" by fastforce
  from movesD [OF assms b] run b show "same_outside V w w'"
    by (auto simp: transaction_def split: sum.splits commit_result.splits)
qed

lemma outside_with_collation [intro]:
  "(\<And>le. moves (same_outside V) (f le)) \<Longrightarrow> moves (same_outside V) (with_collation f)"
  by (simp add: moves_def with_collation_def)

lemma outside_apply [intro]: "moves (same_outside V) (apply_report None rid ensure_lock_connection_alive)"
  unfolding apply_report_def apply_body_def apply_steps_def apply_stage_def apply_completion_def run_hook_def Let_def
  by (auto intro!: outside_transaction outside.moves_bind outside.moves_then outside_with_collation split: option.split)

lemma outside_claim [intro]: "moves (same_outside V) claim_or_recover_next_report"
  unfolding claim_or_recover_next_report_def claim_body_def validation_is_complete_def
  by (auto intro!: outside_transaction outside.moves_bind outside.moves_then split: option.split)

lemma outside_mark_failed [intro]:
  "moves (same_outside V) (mark_processing_failed rid)" "moves (same_outside V) (mark_apply_failed rid)"
  unfolding mark_processing_failed_def mark_apply_failed_def
  by (auto intro!: outside_transaction outside.moves_bind outside.moves_then)

subsection \<open>The validator over the S3 adapter\<close>

context s3_store begin

lemma outside_remote: "(\<And>c r c'. m c = (r, c') \<Longrightarrow> objects c' = objects c) \<Longrightarrow> moves (same_outside objects) (remote m)"
  by (fastforce simp: moves_def same_outside_def remote_def split: prod.split)

lemma outside_finish_chunks:
  assumes "moves (same_outside objects) m"
  shows "same_outside objects w (snd (finish_chunks client m w))"
proof -
  have "moves (same_outside objects) (finally_act m (remote (s3_body_close client)))"
    using assms body_objects(2) by (intro outside.moves_finally outside_remote)
  then show ?thesis by (simp add: moves_def finish_chunks_def) (metis same_outside_updates(10))
qed

lemma outside_finish [simp]:
  "same_outside objects w (snd (finish_chunks client (ret ()) w))"
  "same_outside objects w (snd (finish_chunks client (throw e) w))"
  by (rule outside_finish_chunks, simp)+

lemma outside_fetch_chunk [simp]: "same_outside objects w (snd (fetch_chunk client n w))"
proof -
  obtain r w' where b: "remote (s3_body_read client) w = (r, w')" by fastforce
  have "same_outside objects w w'" using movesD [OF outside_remote [OF body_objects(1)] b] .
  then show ?thesis using b
    by (auto simp: fetch_chunk_def split: sum.split intro: outside.transitive)
qed

lemma outside_storage:
  "moves (same_outside objects) (st_download_stream (s3_storage client fetches) b k)"
  "moves (same_outside objects) (st_next_chunk (s3_storage client fetches))"
  "moves (same_outside objects) (st_close (s3_storage client fetches))"
proof -
  have "moves (same_outside objects) (\<lambda>w. let chunks = takeWhile (\<lambda>chunk. chunk \<noteq> []) pieces in
      (Inr chunks, w\<lparr>sv_chunks := Unstarted (length chunks)\<rparr>))" for pieces
    by (simp add: moves_def Let_def)
  moreover have "moves (same_outside objects) (remote (s3_get_object client b k))"
    by (rule outside_remote) (rule get_objects)
  ultimately have "moves (same_outside objects) (download_stream client b k)"
    unfolding download_stream_def by (intro outside.moves_bind outside.moves_catch) simp_all
  then show "moves (same_outside objects) (st_download_stream (s3_storage client fetches) b k)"
    by (simp add: s3_storage_def)
  show "moves (same_outside objects) (st_next_chunk (s3_storage client fetches))"
    by (simp add: moves_def s3_storage_def next_chunk_def split: chunk_generator.split)
  show "moves (same_outside objects) (st_close (s3_storage client fetches))"
    by (simp add: moves_def s3_storage_def close_chunks_def split: chunk_generator.split)
qed

lemma outside_write_batch: "same_outside objects w (snd (write_batch ensure_lock_connection_alive s w))"
proof -
  obtain r w' where run: "write_batch ensure_lock_connection_alive s w = (r, w')" by fastforce
  have "moves (same_outside objects) (write_batch ensure_lock_connection_alive s)"
    unfolding write_batch_def by auto
  from movesD [OF this run] run show ?thesis by simp
qed

lemma outside_flush_now:
  "same_outside objects w (snd (flush_staging rid ensure_lock_connection_alive w))"
  "same_outside objects w (snd (flush_errors rid ensure_lock_connection_alive w))"
  using outside_write_batch [of "w\<lparr>vb_staging_batch := []\<rparr>" "insert_staging rid (vb_staging_batch w)"]
    outside_write_batch [of "w\<lparr>vb_error_batch := []\<rparr>" "insert_errors rid (vb_error_batch w)"]
  by (simp_all add: flush_staging_def flush_errors_def)

lemma outside_flush [simp]:
  "moves (same_outside objects) (flush_staging rid ensure_lock_connection_alive)"
  "moves (same_outside objects) (flush_errors rid ensure_lock_connection_alive)"
  by (rule movesI, rule outside_flush_now)+

lemma outside_add_valid_row: "moves (same_outside objects) (add_valid_row rid n ensure_lock_connection_alive row)"
proof (rule movesI)
  fix w
  show "same_outside objects w (snd (add_valid_row rid n ensure_lock_connection_alive row w))"
    using outside_flush_now(1) [of "w\<lparr>vb_staging_batch := vb_staging_batch w @ [row]\<rparr>" rid]
    by (simp add: add_valid_row_def Let_def)
qed

lemma outside_add_issues: "moves (same_outside objects) (add_issues rid n ensure_lock_connection_alive issues)"
proof -
  have "moves (same_outside objects) (add_issue rid n ensure_lock_connection_alive issue)" for issue
  proof (rule movesI)
    fix w
    show "same_outside objects w (snd (add_issue rid n ensure_lock_connection_alive issue w))"
      using outside_flush_now(2) [of "w\<lparr>vb_error_batch := vb_error_batch w @ [issue]\<rparr>" rid]
      by (simp add: add_issue_def Let_def)
  qed
  then show ?thesis unfolding add_issues_def by (rule outside.moves_each)
qed

lemma outside_fetches: "same_outside objects w (snd (each_act (\<lambda>_. then_act ensure_lock_connection_alive
    (st_next_chunk (s3_storage client fetches))) (xs :: nat list) w))"
proof -
  have "moves (same_outside objects) (each_act (\<lambda>_. then_act ensure_lock_connection_alive
      (st_next_chunk (s3_storage client fetches))) xs)"
    using outside_storage(2) by (intro outside.moves_each outside.moves_then) auto
  then show ?thesis unfolding moves_def by (rule spec)
qed

lemma outside_read_chunks: "moves (same_outside objects) (read_chunks (s3_storage client fetches) ensure_lock_connection_alive)"
  by (simp add: moves_def read_chunks_def outside_fetches)

lemma outside_validate_report:
  "moves (same_outside objects) (validate_report (s3_storage client fetches) lim n src ensure_lock_connection_alive)"
proof -
  have new: "moves (same_outside objects) new_writer"
    by (simp add: moves_def new_writer_def same_outside_def)
  have stream: "moves (same_outside objects)
      (validate_csv_stream (writer_callbacks (s3_storage client fetches) rid n ensure_lock_connection_alive) lim chunks)"
    for rid chunks
    by (rule outside.moves_stream)
      (simp_all add: writer_callbacks_def outside_read_chunks outside_add_valid_row outside_add_issues outside_storage)
  have concl: "moves (same_outside objects) (conclude_validation rid ensure_lock_connection_alive res)" for rid res
    unfolding conclude_validation_def count_errors_def finalize_validation_failure_def
    by (auto intro!: outside.moves_bind outside.moves_then outside_transaction)
  show ?thesis
    unfolding validate_report_def validate_chunks_def flush_all_def
    by (intro outside.moves_bind outside.moves_then outside_database outside_storage new stream concl outside_flush
        outside_transaction)
qed

lemma outside_cycle:
  "moves (same_outside objects) (process_next_report granted (s3_storage client fetches) lim n None)"
proof -
  have lock: "moves (same_outside objects) (try_advisory_lock granted)"
    by (simp add: moves_def try_advisory_lock_def query_def)
  have app: "moves (same_outside objects) (process_apply None ensure_lock_connection_alive rid)" for rid
    unfolding process_apply_def by (auto intro!: outside.moves_catch outside.moves_then)
  have val: "moves (same_outside objects)
      (process_validation (s3_storage client fetches) lim n ensure_lock_connection_alive src)" for src
    unfolding process_validation_def
    by (auto intro!: outside.moves_catch outside.moves_then outside_validate_report)
  have "moves (same_outside objects) (process_report (s3_storage client fetches) lim n None ensure_lock_connection_alive)"
    unfolding process_report_def by (auto intro!: outside.moves_bind app val split: option.split)
  then show ?thesis
    unfolding process_next_report_def connect_def release_lock_def
    by (auto intro!: outside.moves_then outside.moves_bind outside.moves_finally outside.moves_catch lock)
qed

text \<open>The chunks of a download are the object.\<close>

lemma download_found:
  assumes "download_stream client b k w = (Inr chunks, w')"
  shows "objects (sv_outside w) (b, k) = Some (concat chunks)"
proof -
  obtain r1 c1 where g: "s3_get_object client b k (sv_outside w) = (r1, c1)" by fastforce
  with assms obtain pieces where "r1 = Inr pieces" "chunks = takeWhile (\<lambda>chunk. chunk \<noteq> []) pieces"
    by (cases r1) (auto simp: download_stream_def remote_def act_simps Let_def)
  with get_found g show ?thesis by blast
qed

end

end
