(* ===== verification/Pages.thy ===== *)
theory Pages
  imports Catalog "HOL-Library.Multiset"
begin

text \<open>
  What the paginated endpoints share: sorting by a total order, \<open>LIMIT\<close> and \<open>OFFSET\<close>, and the page
  that is returned. \<open>ReportPage\<close>, \<open>ReportErrorPage\<close>, \<open>WarehousePage\<close>, \<open>ProductPage\<close> and \<open>StockPage\<close> have the
  same fields.
\<close>

record 'a page =
  pg_items :: "'a list"
  pg_total :: int
  pg_limit :: int
  pg_offset :: int

text \<open>\<open>.limit(limit).offset(offset)\<close>\<close>

definition page_of :: "int \<Rightarrow> int \<Rightarrow> 'a list \<Rightarrow> 'a list" where
  "page_of limit offset rows = take (nat limit) (drop (nat offset) rows)"

text \<open>Consecutive pages of the same rows put together.\<close>

lemma pages_prefix:
  assumes "0 < limit"
  shows "concat (map (\<lambda>i. page_of limit (int i * limit) rows) [0..<k]) = take (k * nat limit) rows"
proof (induction k)
  case (Suc k)
  have "nat (int k * limit) = k * nat limit" using assms by (simp add: nat_mult_distrib)
  moreover have "take (Suc k * nat limit) rows = take (k * nat limit) rows @ take (nat limit) (drop (k * nat limit) rows)"
    using take_add [of "k * nat limit" "nat limit" rows] by (simp add: add.commute)
  ultimately show ?case using Suc by (simp add: page_of_def)
qed simp

lemma pages_cover:
  assumes "0 < limit" and "len rows \<le> int k * limit"
  shows "concat (map (\<lambda>i. page_of limit (int i * limit) rows) [0..<k]) = rows"
proof -
  have "nat (len rows) \<le> nat (int k * limit)" using assms(2) by (rule nat_mono)
  then have "length rows \<le> k * nat limit" using assms(1) by (simp add: nat_mult_distrib)
  then show ?thesis by (simp add: pages_prefix [OF assms(1)])
qed

lemma page_length: "0 \<le> limit \<Longrightarrow> len (page_of limit offset rows) \<le> limit"
  by (simp add: page_of_def)

locale listing_order =
  fixes le :: "'a \<Rightarrow> 'a \<Rightarrow> bool"
  assumes le_linear: "le a b \<or> le b a" and le_trans: "le a b \<Longrightarrow> le b c \<Longrightarrow> le a c"
begin

lemma insert_sorted: "sorted_wrt le xs \<Longrightarrow> sorted_wrt le (insert_by le a xs)"
proof (induction xs)
  case (Cons b xs)
  then show ?case using le_linear [of a b] le_trans [of a b] by auto
qed simp

lemma sort_sorted: "sorted_wrt le (sort_by le xs)"
  unfolding sort_by_def by (induction xs) (simp_all add: insert_sorted)

lemma page_sorted: "sorted_wrt le (page_of limit offset (sort_by le xs))"
  unfolding page_of_def by (intro sorted_wrt_take sorted_wrt_drop sort_sorted)

end

lemma length_sort_by [simp]: "length (sort_by le xs) = length xs"
proof -
  have "length (insert_by le a xs) = Suc (length xs)" for a xs by (induction xs) simp_all
  then show ?thesis unfolding sort_by_def by (induction xs) simp_all
qed

lemma mset_sort_by [simp]: "mset (sort_by le xs) = mset xs"
proof -
  have "mset (insert_by le a xs) = add_mset a (mset xs)" for a xs by (induction xs) simp_all
  then show ?thesis unfolding sort_by_def by (induction xs) simp_all
qed

end
