(* ===== verification/Reports.thy ===== *)
theory Reports
  imports Outside Pages
begin

text \<open>
  \<open>app/services/reports.py\<close>: registering an uploaded file, the queries on reports and their errors, and
  the download of the original file.
\<close>

subsection \<open>File names\<close>

fun py_split :: "int \<Rightarrow> pystr \<Rightarrow> pystr list" where
  "py_split sep [] = [[]]"
| "py_split sep (c # cs) =
     (if c = sep then [] # py_split sep cs
      else (case py_split sep cs of [] \<Rightarrow> [[c]] | part # parts \<Rightarrow> (c # part) # parts))"

text \<open>\<open>PurePosixPath(path).name\<close>: the last component, where empty ones and \<open>.\<close> do not count.\<close>

definition path_name :: "pystr \<Rightarrow> pystr" where
  "path_name path =
     (let parts = filter (\<lambda>part. part \<noteq> [] \<and> part \<noteq> lit ''.'') (py_split 47 path) in
      if parts = [] then [] else last parts)"

definition normalize_original_filename :: "pystr option \<Rightarrow> pystr" where
  "normalize_original_filename filename =
     (let normalized = map (\<lambda>c. if c = 92 then 47 else c) (case filename of None \<Rightarrow> [] | Some name \<Rightarrow> name);
          basename = path_name normalized;
          safe_name = filter (\<lambda>c. 32 \<le> c \<and> c \<noteq> 127) basename
      in if take 255 safe_name = [] then lit ''original.csv'' else take 255 safe_name)"

subsection \<open>Registration\<close>

text \<open>The row that \<open>session.add(report)\<close> and \<open>flush\<close> insert, with the column defaults.\<close>

definition new_report :: "pystr \<Rightarrow> pystr \<Rightarrow> pystr \<Rightarrow> upload_result \<Rightarrow> int \<Rightarrow> int \<Rightarrow> report" where
  "new_report filename bucket key upload now report_id =
     \<lparr>rp_id = report_id, rp_status = Pending, rp_original_filename = filename, rp_object_bucket = bucket,
      rp_object_key = key, rp_size_bytes = up_size_bytes upload,
      rp_checksum_sha256 = Some (up_checksum_sha256 upload), rp_created_at = now,
      rp_processing_started_at = None, rp_finished_at = None, rp_row_count = 0, rp_error_count = 0,
      rp_stocks_created = 0, rp_stocks_updated = 0, rp_stocks_zeroed = 0,
      rp_failure_kind = None, rp_failure_message = None\<rparr>"

definition insert_report :: "(int \<Rightarrow> int \<Rightarrow> report) \<Rightarrow> statement" where
  "insert_report row = (\<lambda>now d sq.
     Some (d\<lparr>db_reports := db_reports d @ [row now (sq_reports sq)]\<rparr>, sq\<lparr>sq_reports := sq_reports sq + 1\<rparr>))"

definition add_report :: "(int \<Rightarrow> int \<Rightarrow> report) \<Rightarrow> ('x, report) proc" where
  "add_report row = (\<lambda>w. case execute (insert_report row) w of
       (Inl e, w') \<Rightarrow> (Inl e, w')
     | (Inr _, w') \<Rightarrow> (Inr (row (w_now w) (sq_reports (w_seq w))), w'))"

text \<open>An action on a source and the state outside, as one on the service's world.\<close>

definition with_source :: "'f \<Rightarrow> ('f \<times> 'c, 'a) action \<Rightarrow> (('c, 'x) service_world_scheme, 'a) action" where
  "with_source f m = (\<lambda>w. case m (f, sv_outside w) of (r, (_, c)) \<Rightarrow> (r, w\<lparr>sv_outside := c\<rparr>))"

definition compensating_delete ::
  "'c s3_client \<Rightarrow> pystr \<Rightarrow> pystr \<Rightarrow> (('c, 'x) service_world_scheme, unit) action" where
  "compensating_delete client bucket object_key =
     catch_act (remote (delete_object client bucket object_key))
       (\<lambda>e. if is_storage_unavailable e then ret () else throw e)"

definition report_object_key :: "pystr \<Rightarrow> pystr" where
  "report_object_key uuid = lit ''reports/'' @ uuid @ lit ''/original.csv''"

text \<open>\<open>uuid\<close> is the text of \<open>uuid4()\<close>; the handler of a failed upload only logs.\<close>

definition register_original ::
  "'c s3_client \<Rightarrow> pystr \<Rightarrow> int \<Rightarrow> pystr \<Rightarrow> 'f reader \<Rightarrow> 'f \<Rightarrow> pystr option
     \<Rightarrow> (('c, 'x) service_world_scheme, report) action" where
  "register_original client bucket max_upload_bytes uuid read source filename =
     (let original_filename = normalize_original_filename filename; object_key = report_object_key uuid in
      bind_act (with_source source (upload_stream client bucket object_key read max_upload_bytes)) (\<lambda>upload.
        catch_act (transaction (add_report (new_report original_filename bucket object_key upload)))
          (\<lambda>_. then_act (compensating_delete client bucket object_key) (throw ReportPersistenceError))))"

subsection \<open>Queries\<close>

text \<open>\<open>ORDER BY created_at DESC, id DESC\<close>, and \<open>ORDER BY line_number ASC NULLS FIRST, id\<close>.\<close>

definition newest_first :: "report \<Rightarrow> report \<Rightarrow> bool" where
  "newest_first r r' \<longleftrightarrow> rp_created_at r' < rp_created_at r \<or> (rp_created_at r = rp_created_at r' \<and> rp_id r' \<le> rp_id r)"

definition error_line_le :: "report_error \<Rightarrow> report_error \<Rightarrow> bool" where
  "error_line_le e e' \<longleftrightarrow>
     (case (er_line_number e, er_line_number e') of
        (None, None) \<Rightarrow> er_id e \<le> er_id e'
      | (None, Some _) \<Rightarrow> True
      | (Some _, None) \<Rightarrow> False
      | (Some n, Some n') \<Rightarrow> n < n' \<or> (n = n' \<and> er_id e \<le> er_id e'))"

interpretation newest: listing_order newest_first
  by unfold_locales (auto simp: newest_first_def)

interpretation error_lines: listing_order error_line_le
  by unfold_locales (auto simp: error_line_le_def split: option.splits)

definition matching_reports :: "report_status option \<Rightarrow> db \<Rightarrow> report list" where
  "matching_reports status d = filter (\<lambda>r. status = None \<or> status = Some (rp_status r)) (db_reports d)"

definition list_reports :: "report_status option \<Rightarrow> int \<Rightarrow> int \<Rightarrow> ('x, report page) proc" where
  "list_reports status limit offset =
     transaction
       (bind_act (bound_query [limit, offset] [] (\<lambda>d. page_of limit offset (sort_by newest_first (matching_reports status d)))) (\<lambda>items.
        bind_act (query (\<lambda>d. len (matching_reports status d))) (\<lambda>total.
          ret \<lparr>pg_items = items, pg_total = total, pg_limit = limit, pg_offset = offset\<rparr>)))"

definition get_report :: "int \<Rightarrow> ('x, report) proc" where
  "get_report report_id =
     transaction (bind_act (bound_query [report_id] [] (find_report report_id))
       (\<lambda>report. case report of None \<Rightarrow> throw ReportNotFoundError | Some report \<Rightarrow> ret report))"

definition list_errors :: "int \<Rightarrow> int \<Rightarrow> int \<Rightarrow> ('x, report_error page) proc" where
  "list_errors report_id limit offset =
     transaction (bind_act (bound_query [report_id] [] (find_report report_id)) (\<lambda>report_exists.
       if report_exists = None then throw ReportNotFoundError
       else
         bind_act (bound_query [report_id] [] (\<lambda>d. len (errors_of d report_id))) (\<lambda>total.
         bind_act (bound_query [report_id, limit, offset] [] (\<lambda>d. page_of limit offset (sort_by error_line_le (errors_of d report_id)))) (\<lambda>items.
           ret \<lparr>pg_items = items, pg_total = total, pg_limit = limit, pg_offset = offset\<rparr>))))"

subsection \<open>Downloads\<close>

text \<open>
  The generator \<open>_logged_chunks\<close>: \<open>yield from\<close> passes on the chunks and exceptions of the adapter's generator, so
  that each \<open>next\<close> on it is one \<open>next_chunk\<close>, and closing it closes the adapter's. It is modelled by what a
  consumer gets that calls \<open>next\<close> at most \<open>n\<close> times and then closes it: the chunks, and how the iteration ended.
  \<open>pieces\<close> are the chunks that the body has still to deliver.
\<close>

datatype stream_end = Exhausted | Raised exn | Closed

fun logged_chunks ::
  "'c s3_client \<Rightarrow> bytes list \<Rightarrow> nat \<Rightarrow> ('c, 'x) service_world_scheme
     \<Rightarrow> (bytes list \<times> stream_end) \<times> ('c, 'x) service_world_scheme" where
  "logged_chunks client pieces 0 w = (case close_chunks client w of (_, w') \<Rightarrow> (([], Closed), w'))"
| "logged_chunks client [] (Suc n) w = (case next_chunk client w of
       (Inl e, w') \<Rightarrow> (([], Raised e), w')
     | (Inr _, w') \<Rightarrow> (([], Exhausted), w'))"
| "logged_chunks client (piece # pieces) (Suc n) w = (case next_chunk client w of
       (Inl e, w') \<Rightarrow> (([], Raised e), w')
     | (Inr _, w') \<Rightarrow> (case logged_chunks client pieces n w' of ((sent, ending), w'') \<Rightarrow> ((piece # sent, ending), w'')))"

text \<open>\<open>ReportDownload\<close>: the report and the generator.\<close>

type_synonym ('c, 'x) chunk_iterator =
  "nat \<Rightarrow> ('c, 'x) service_world_scheme \<Rightarrow> (bytes list \<times> stream_end) \<times> ('c, 'x) service_world_scheme"

definition download_original ::
  "'c s3_client \<Rightarrow> int \<Rightarrow> (('c, 'x) service_world_scheme, report \<times> ('c, 'x) chunk_iterator) action" where
  "download_original client report_id =
     bind_act (get_report report_id) (\<lambda>report.
     bind_act (catch_act (download_stream client (rp_object_bucket report) (rp_object_key report))
         (\<lambda>e. if e = ObjectNotFoundError then throw OriginalObjectMissingError else throw e)) (\<lambda>pieces.
       ret (report, logged_chunks client pieces)))"

end
