(* ===== verification/ReadApi.thy ===== *)
theory ReadApi
  imports Pages ApplyReport "HOL-Library.Sublist"
begin

text \<open>
  \<open>app/services/read_api.py\<close>: the paginated reads of warehouses, products and stock balances. The order
  of texts is the database's collation; \<open>lower\<close> is its function of that name, a parameter.
\<close>

text \<open>An equality filter that is only there when its argument is given.\<close>

definition given :: "'a option \<Rightarrow> 'a \<Rightarrow> bool" where
  "given arg column \<longleftrightarrow> (case arg of None \<Rightarrow> True | Some a \<Rightarrow> column = a)"

text \<open>The value bound to the parameter of such a filter.\<close>

definition bound :: "'a option \<Rightarrow> 'a list" where
  "bound arg = (case arg of None \<Rightarrow> [] | Some a \<Rightarrow> [a])"

text \<open>\<open>column.icontains(query, autoescape=True)\<close>: the query as a substring, without regard to case.\<close>

definition icontains :: "(pystr \<Rightarrow> pystr) \<Rightarrow> pystr \<Rightarrow> pystr \<Rightarrow> bool" where
  "icontains lower column search = sublist (lower search) (lower column)"

text \<open>\<open>ORDER BY code, id\<close>\<close>

definition entry_le :: "(pystr \<Rightarrow> pystr \<Rightarrow> bool) \<Rightarrow> catalog_entry \<Rightarrow> catalog_entry \<Rightarrow> bool" where
  "entry_le le c c' \<longleftrightarrow> (if ct_code c = ct_code c' then ct_id c \<le> ct_id c' else le (ct_code c) (ct_code c'))"

definition matching_entries ::
  "(pystr \<Rightarrow> pystr) \<Rightarrow> pystr option \<Rightarrow> pystr option \<Rightarrow> catalog_entry list \<Rightarrow> catalog_entry list" where
  "matching_entries lower code search = filter (\<lambda>c.
     given code (ct_code c)
     \<and> (case search of None \<Rightarrow> True | Some q \<Rightarrow> icontains lower (ct_code c) q \<or> icontains lower (ct_name c) q))"

definition list_warehouses ::
  "(pystr \<Rightarrow> pystr) \<Rightarrow> pystr option \<Rightarrow> pystr option \<Rightarrow> int \<Rightarrow> int \<Rightarrow> ('x, catalog_entry page) proc" where
  "list_warehouses lower code search limit offset =
     transaction
       (bind_act (bound_query [] (bound code @ bound search) (\<lambda>d. len (matching_entries lower code search (db_warehouses d)))) (\<lambda>total.
        bind_act (with_collation (\<lambda>le. bound_query [limit, offset] (bound code @ bound search) (\<lambda>d.
            page_of limit offset (sort_by (entry_le le) (matching_entries lower code search (db_warehouses d)))))) (\<lambda>items.
          ret \<lparr>pg_items = items, pg_total = total, pg_limit = limit, pg_offset = offset\<rparr>)))"

definition list_products ::
  "(pystr \<Rightarrow> pystr) \<Rightarrow> pystr option \<Rightarrow> pystr option \<Rightarrow> int \<Rightarrow> int \<Rightarrow> ('x, catalog_entry page) proc" where
  "list_products lower sku search limit offset =
     transaction
       (bind_act (bound_query [] (bound sku @ bound search) (\<lambda>d. len (matching_entries lower sku search (db_products d)))) (\<lambda>total.
        bind_act (with_collation (\<lambda>le. bound_query [limit, offset] (bound sku @ bound search) (\<lambda>d.
            page_of limit offset (sort_by (entry_le le) (matching_entries lower sku search (db_products d)))))) (\<lambda>items.
          ret \<lparr>pg_items = items, pg_total = total, pg_limit = limit, pg_offset = offset\<rparr>)))"

text \<open>\<open>session.get(Model, id)\<close>\<close>

definition find_entry :: "int \<Rightarrow> catalog_entry list \<Rightarrow> catalog_entry option" where
  "find_entry i cs = find (\<lambda>c. ct_id c = i) cs"

definition get_warehouse :: "int \<Rightarrow> ('x, catalog_entry) proc" where
  "get_warehouse warehouse_id =
     transaction (bind_act (bound_query [warehouse_id] [] (\<lambda>d. find_entry warehouse_id (db_warehouses d)))
       (\<lambda>warehouse. case warehouse of None \<Rightarrow> throw WarehouseNotFoundError | Some warehouse \<Rightarrow> ret warehouse))"

definition get_product :: "int \<Rightarrow> ('x, catalog_entry) proc" where
  "get_product product_id =
     transaction (bind_act (bound_query [product_id] [] (\<lambda>d. find_entry product_id (db_products d)))
       (\<lambda>product. case product of None \<Rightarrow> throw ProductNotFoundError | Some product \<Rightarrow> ret product))"

subsection \<open>Stock balances\<close>

record stock_read_model =
  sm_warehouse_id :: int
  sm_warehouse_code :: pystr
  sm_warehouse_name :: pystr
  sm_product_id :: int
  sm_sku :: pystr
  sm_product_name :: pystr
  sm_quantity :: int
  sm_created_at :: int
  sm_updated_at :: int

definition stock_row :: "stock_balance \<Rightarrow> catalog_entry \<Rightarrow> catalog_entry \<Rightarrow> stock_read_model" where
  "stock_row b w p =
     \<lparr>sm_warehouse_id = ct_id w, sm_warehouse_code = ct_code w, sm_warehouse_name = ct_name w,
      sm_product_id = ct_id p, sm_sku = ct_code p, sm_product_name = ct_name p,
      sm_quantity = sb_quantity b, sm_created_at = sb_created_at b, sm_updated_at = sb_updated_at b\<rparr>"

lemma stock_row_simps [simp]:
  "sm_warehouse_id (stock_row b w p) = ct_id w" "sm_warehouse_code (stock_row b w p) = ct_code w"
  "sm_product_id (stock_row b w p) = ct_id p" "sm_sku (stock_row b w p) = ct_code p"
  "sm_quantity (stock_row b w p) = sb_quantity b"
  by (simp_all add: stock_row_def)

text \<open>The two joins.\<close>

definition stock_rows :: "db \<Rightarrow> stock_read_model list" where
  "stock_rows d = concat (map (\<lambda>b. concat (map (\<lambda>w. map (stock_row b w)
       (filter (\<lambda>p. ct_id p = sb_product_id b) (db_products d)))
     (filter (\<lambda>w. ct_id w = sb_warehouse_id b) (db_warehouses d)))) (db_stocks d))"

definition matching_stocks ::
  "int option \<Rightarrow> pystr option \<Rightarrow> int option \<Rightarrow> pystr option \<Rightarrow> bool \<Rightarrow> db \<Rightarrow> stock_read_model list" where
  "matching_stocks warehouse_id warehouse_code product_id sku include_zero d = filter (\<lambda>r.
     given warehouse_id (sm_warehouse_id r) \<and> given warehouse_code (sm_warehouse_code r)
     \<and> given product_id (sm_product_id r) \<and> given sku (sm_sku r)
     \<and> (include_zero \<or> sm_quantity r \<noteq> 0)) (stock_rows d)"

text \<open>\<open>ORDER BY warehouses.code, products.sku, warehouses.id, products.id\<close>\<close>

definition stock_le :: "(pystr \<Rightarrow> pystr \<Rightarrow> bool) \<Rightarrow> stock_read_model \<Rightarrow> stock_read_model \<Rightarrow> bool" where
  "stock_le le r r' \<longleftrightarrow>
     (if sm_warehouse_code r = sm_warehouse_code r' then
        if sm_sku r = sm_sku r' then
          if sm_warehouse_id r = sm_warehouse_id r' then sm_product_id r \<le> sm_product_id r'
          else sm_warehouse_id r \<le> sm_warehouse_id r'
        else le (sm_sku r) (sm_sku r')
      else le (sm_warehouse_code r) (sm_warehouse_code r'))"

definition list_stocks ::
  "int option \<Rightarrow> pystr option \<Rightarrow> int option \<Rightarrow> pystr option \<Rightarrow> bool \<Rightarrow> int \<Rightarrow> int
     \<Rightarrow> ('x, stock_read_model page) proc" where
  "list_stocks warehouse_id warehouse_code product_id sku include_zero limit offset =
     (let rows = matching_stocks warehouse_id warehouse_code product_id sku include_zero;
          numbers = bound warehouse_id @ bound product_id; texts = bound warehouse_code @ bound sku in
      transaction
        (bind_act (bound_query numbers texts (\<lambda>d. len (rows d))) (\<lambda>total.
         bind_act (with_collation (\<lambda>le. bound_query (numbers @ [limit, offset]) texts (\<lambda>d. page_of limit offset (sort_by (stock_le le) (rows d))))) (\<lambda>items.
           ret \<lparr>pg_items = items, pg_total = total, pg_limit = limit, pg_offset = offset\<rparr>))))"

subsection \<open>Orders\<close>

text \<open>A collation of the database is a linear order.\<close>

definition collation :: "(pystr \<Rightarrow> pystr \<Rightarrow> bool) \<Rightarrow> bool" where
  "collation le \<longleftrightarrow> (\<forall>a b. le a b \<or> le b a) \<and> (\<forall>a b c. le a b \<longrightarrow> le b c \<longrightarrow> le a c)
     \<and> (\<forall>a b. le a b \<longrightarrow> le b a \<longrightarrow> a = b)"

text \<open>Sorting by a key, and by the rest where the keys are equal.\<close>

lemma lexicographic_order:
  assumes linear: "\<And>x y. le x y \<or> le y x" and tran: "\<And>x y z. le x y \<Longrightarrow> le y z \<Longrightarrow> le x z"
    and antisym: "\<And>x y. le x y \<Longrightarrow> le y x \<Longrightarrow> x = y" and rest: "listing_order rest"
  shows "listing_order (\<lambda>a b. if key a = key b then rest a b else le (key a) (key b))"
proof
  fix a b c
  show "(if key a = key b then rest a b else le (key a) (key b)) \<or> (if key b = key a then rest b a else le (key b) (key a))"
    using linear listing_order.le_linear [OF rest] by auto
  assume ab: "if key a = key b then rest a b else le (key a) (key b)"
    and bc: "if key b = key c then rest b c else le (key b) (key c)"
  show "if key a = key c then rest a c else le (key a) (key c)"
  proof (cases "key a = key b \<or> key b = key c")
    case True
    then show ?thesis using ab bc listing_order.le_trans [OF rest, of a b c] by (auto split: if_splits)
  next
    case False
    then have "le (key a) (key b)" "le (key b) (key c)" using ab bc by simp_all
    moreover from this False have "key a \<noteq> key c" using antisym by metis
    ultimately show ?thesis using tran by simp
  qed
qed

lemma listing_int: "listing_order (\<lambda>a b. f a \<le> (f b :: int))"
  by unfold_locales auto

lemma text_order:
  assumes "collation le" and "listing_order rest"
  shows "listing_order (\<lambda>a b. if key a = key b then rest a b else le (key a) (key b))"
  by (rule lexicographic_order [OF _ _ _ assms(2)]) (use assms(1) in \<open>unfold collation_def, blast\<close>)+

lemma int_order:
  assumes "listing_order rest"
  shows "listing_order (\<lambda>a b. if key a = key b then rest a b else key a \<le> (key b :: int))"
  by (rule lexicographic_order [OF _ _ _ assms]) auto

lemma listing_entry_le:
  assumes "collation le"
  shows "listing_order (entry_le le)"
  unfolding entry_le_def [abs_def] by (rule text_order [OF assms listing_int])

lemma listing_stock_le:
  assumes "collation le"
  shows "listing_order (stock_le le)"
  unfolding stock_le_def [abs_def] by (rule text_order [OF assms text_order [OF assms int_order [OF listing_int]]])

text \<open>A page of a listing that takes the number of rows and then a page of the sorted rows.\<close>

lemma listing_page:
  assumes "transaction
       (bind_act (bound_query ns ts (\<lambda>d. len (rows d))) (\<lambda>total.
        bind_act (with_collation (\<lambda>le. bound_query ns' ts' (\<lambda>d. page_of limit offset (sort_by (order le) (rows d))))) (\<lambda>items.
          ret \<lparr>pg_items = items, pg_total = total, pg_limit = limit, pg_offset = offset\<rparr>))) w = (Inr page, w')"
  shows "page = \<lparr>pg_items = page_of limit offset (sort_by (order (env_collate (w_env w))) (rows (w_db w))),
      pg_total = len (rows (w_db w)), pg_limit = limit, pg_offset = offset\<rparr> \<and> w_db w' = w_db w"
  using assms
  by (auto simp: transaction_def act_simps bound_query_def query_def with_collation_def
      split: prod.splits sum.splits commit_result.splits if_splits)

end
