(* ===== verification/Http.thy ===== *)
theory Http
  imports Reports ReadApi
begin

text \<open>
  The HTTP interface: the exceptions of \<open>app/errors.py\<close> and their handlers (\<open>app/api/errors.py\<close>), the response
  models of \<open>app/schemas.py\<close>, and the endpoints of \<open>app/api\<close> with the constraints on their
  parameters. Routing, parsing and serialisation are the framework's; an endpoint is an action from
  parsed parameters to a response.
\<close>

subsection \<open>Errors\<close>

text \<open>\<open>status_code\<close>, \<open>code\<close> and \<open>public_message\<close> of a \<open>ServiceError\<close>; \<open>None\<close> for other exceptions.\<close>

definition service_error :: "exn \<Rightarrow> (int \<times> string \<times> string) option" where
  "service_error e = (case e of
       FileTooLargeError \<Rightarrow> Some (413, ''file_too_large'', ''The uploaded file exceeds the maximum allowed size'')
     | StorageUnavailableError \<Rightarrow> Some (503, ''storage_unavailable'', ''Object storage is temporarily unavailable'')
     | DependencyUnavailableError \<Rightarrow>
         Some (503, ''dependency_unavailable'', ''A required service is temporarily unavailable'')
     | ObjectNotFoundError \<Rightarrow> Some (503, ''object_not_found'', ''The requested object was not found'')
     | ReportNotFoundError \<Rightarrow> Some (404, ''report_not_found'', ''Report not found'')
     | WarehouseNotFoundError \<Rightarrow> Some (404, ''warehouse_not_found'', ''Warehouse not found'')
     | ProductNotFoundError \<Rightarrow> Some (404, ''product_not_found'', ''Product not found'')
     | ReportPersistenceError \<Rightarrow> Some (500, ''internal_error'', ''An internal error occurred'')
     | OriginalObjectMissingError \<Rightarrow>
         Some (500, ''original_object_missing'', ''The original report file is unavailable'')
     | _ \<Rightarrow> None)"

text \<open>A response: the model with its status code, or \<open>error_response\<close>.\<close>

datatype 'a response = Success int 'a | ErrorResponse int string string

definition service_error_handler :: "exn \<Rightarrow> 'a response" where
  "service_error_handler exc = (case service_error exc of
       None \<Rightarrow> ErrorResponse 500 ''internal_error'' ''An internal error occurred''
     | Some (status, code, message) \<Rightarrow> ErrorResponse status code message)"

definition validation_error_handler :: "'a response" where
  "validation_error_handler = ErrorResponse 422 ''validation_error'' ''Request validation failed''"

text \<open>An \<open>HTTPException\<close> of the framework: its status and its detail, if that is a string.\<close>

definition http_error_handler :: "int \<times> string option \<Rightarrow> 'a response" where
  "http_error_handler exc = ErrorResponse (fst exc) ''http_error'' (case snd exc of Some detail \<Rightarrow> detail | None \<Rightarrow> ''Request failed'')"

definition unexpected_error_handler :: "exn \<Rightarrow> 'a response" where
  "unexpected_error_handler exc = ErrorResponse 500 ''internal_error'' ''An internal error occurred''"

text \<open>\<open>ERROR_HANDLERS\<close>: the handler of the exception's closest registered class.\<close>

definition handle_exception :: "exn \<Rightarrow> 'a response" where
  "handle_exception exc =
     (if service_error exc \<noteq> None then service_error_handler exc else unexpected_error_handler exc)"

text \<open>A request whose parameters are valid or not, and the endpoint's function.\<close>

definition endpoint :: "bool \<Rightarrow> int \<Rightarrow> ('s, 'a) action \<Rightarrow> 's \<Rightarrow> 'a response \<times> 's" where
  "endpoint valid status f = (\<lambda>w.
     if \<not> valid then (validation_error_handler, w)
     else (case f w of (Inl e, w') \<Rightarrow> (handle_exception e, w') | (Inr a, w') \<Rightarrow> (Success status a, w')))"

definition then_return :: "('s, 'a) action \<Rightarrow> ('a \<Rightarrow> 'b) \<Rightarrow> ('s, 'b) action" where
  "then_return m f = bind_act m (\<lambda>a. ret (f a))"

subsection \<open>Response models\<close>

record report_summary =
  sr_id :: int
  sr_status :: report_status
  sr_original_filename :: pystr
  sr_size_bytes :: int
  sr_checksum_sha256 :: "pystr option"
  sr_created_at :: int

record report_details = report_summary +
  sr_processing_started_at :: "int option"
  sr_finished_at :: "int option"
  sr_row_count :: int
  sr_error_count :: int
  sr_stocks_created :: int
  sr_stocks_updated :: int
  sr_stocks_zeroed :: int
  sr_failure_kind :: "pystr option"
  sr_failure_message :: "pystr option"

definition summary_of :: "report \<Rightarrow> report_summary" where
  "summary_of r = \<lparr>sr_id = rp_id r, sr_status = rp_status r, sr_original_filename = rp_original_filename r,
     sr_size_bytes = rp_size_bytes r, sr_checksum_sha256 = rp_checksum_sha256 r, sr_created_at = rp_created_at r\<rparr>"

definition details_of :: "report \<Rightarrow> report_details" where
  "details_of r = report_summary.extend (summary_of r)
     (report_details.fields (rp_processing_started_at r) (rp_finished_at r) (rp_row_count r) (rp_error_count r)
       (rp_stocks_created r) (rp_stocks_updated r) (rp_stocks_zeroed r) (rp_failure_kind r) (rp_failure_message r))"

text \<open>\<open>WarehouseResponse\<close> and \<open>ProductResponse\<close> have the columns of their tables, \<open>StockResponse\<close> those of
  \<open>StockReadModel\<close>.\<close>

record report_error_response =
  re_id :: int
  re_line_number :: "int option"
  re_field_name :: "pystr option"
  re_code :: pystr
  re_message :: pystr
  re_raw_data :: "json pydict option"
  re_created_at :: int

definition error_response_of :: "report_error \<Rightarrow> report_error_response" where
  "error_response_of e = \<lparr>re_id = er_id e, re_line_number = er_line_number e, re_field_name = er_field_name e,
     re_code = er_code e, re_message = er_message e, re_raw_data = er_raw_data e, re_created_at = er_created_at e\<rparr>"

definition list_response :: "('a \<Rightarrow> 'b) \<Rightarrow> 'a page \<Rightarrow> 'b page" where
  "list_response f p = \<lparr>pg_items = map f (pg_items p), pg_total = pg_total p, pg_limit = pg_limit p, pg_offset = pg_offset p\<rparr>"

subsection \<open>\<open>Content-Disposition\<close>\<close>

definition ascii_alnum :: "int \<Rightarrow> bool" where
  "ascii_alnum c \<longleftrightarrow> (48 \<le> c \<and> c \<le> 57) \<or> (65 \<le> c \<and> c \<le> 90) \<or> (97 \<le> c \<and> c \<le> 122)"

text \<open>\<open>urllib.parse.quote(text, safe="")\<close>; a surrogate cannot be encoded.\<close>

definition quote_safe :: "int \<Rightarrow> bool" where
  "quote_safe c \<longleftrightarrow> ascii_alnum c \<or> c \<in> {95, 46, 45, 126}"

definition upper_hex_digit :: "int \<Rightarrow> int" where
  "upper_hex_digit d = (if d < 10 then 48 + d else 55 + d)"

definition quote_byte :: "byte \<Rightarrow> pystr" where
  "quote_byte b = (if quote_safe (uint b) then [uint b]
     else [37, upper_hex_digit (uint b div 16), upper_hex_digit (uint b mod 16)])"

definition quote_text :: "pystr \<Rightarrow> exn + pystr" where
  "quote_text text = (if list_all is_scalar text then Inr (concat (map quote_byte (encode_utf8 text))) else Inl ValueErr)"

definition content_disposition :: "pystr \<Rightarrow> exn + pystr" where
  "content_disposition filename =
     (let ascii_fallback = map (\<lambda>c. if ascii_alnum c \<or> c \<in> {46, 95, 45} then c else 95) filename;
          ascii_fallback = (if ascii_fallback = [] then lit ''original.csv'' else ascii_fallback)
      in res_bind (quote_text filename) (\<lambda>encoded_filename.
        Inr (lit ''attachment; filename='' @ [34] @ ascii_fallback @ [34] @ lit ''; filename*=UTF-8'' @ [39, 39]
          @ encoded_filename)))"

subsection \<open>Endpoints\<close>

text \<open>\<open>Query(ge=1, le=200)\<close> and \<open>Query(ge=0)\<close>, \<open>Path(gt=0)\<close>.\<close>

definition valid_page :: "int \<Rightarrow> int \<Rightarrow> bool" where
  "valid_page limit offset \<longleftrightarrow> 1 \<le> limit \<and> limit \<le> 200 \<and> 0 \<le> offset"

definition positive_opt :: "int option \<Rightarrow> bool" where
  "positive_opt n \<longleftrightarrow> (case n of None \<Rightarrow> True | Some n \<Rightarrow> 0 < n)"

definition api_create_report ::
  "'c s3_client \<Rightarrow> pystr \<Rightarrow> pystr \<Rightarrow> 'f reader \<Rightarrow> 'f \<Rightarrow> (('c, 'x) service_world_scheme, unit) action \<Rightarrow> pystr option
     \<Rightarrow> ('c, 'x) service_world_scheme \<Rightarrow> report_summary response \<times> ('c, 'x) service_world_scheme" where
  "api_create_report client bucket uuid read source close_file filename =
     endpoint True 202 (then_return
       (finally_act (register_original client bucket MAX_UPLOAD_BYTES uuid read source filename) close_file) summary_of)"

definition api_list_reports ::
  "report_status option \<Rightarrow> int \<Rightarrow> int \<Rightarrow> 'x world_scheme \<Rightarrow> report_summary page response \<times> 'x world_scheme" where
  "api_list_reports report_status limit offset =
     endpoint (valid_page limit offset) 200
       (then_return (list_reports report_status limit offset) (list_response summary_of))"

definition api_get_report :: "int \<Rightarrow> 'x world_scheme \<Rightarrow> report_details response \<times> 'x world_scheme" where
  "api_get_report report_id = endpoint (0 < report_id) 200 (then_return (get_report report_id) details_of)"

definition api_list_report_errors ::
  "int \<Rightarrow> int \<Rightarrow> int \<Rightarrow> 'x world_scheme \<Rightarrow> report_error_response page response \<times> 'x world_scheme" where
  "api_list_report_errors report_id limit offset =
     endpoint (0 < report_id \<and> valid_page limit offset) 200
       (then_return (list_errors report_id limit offset) (list_response error_response_of))"

text \<open>
  The streamed response: the headers, which are computed and sent before the first chunk is asked for, the chunks
  that were sent, and how the iteration over them ended. The server asks for at most \<open>patience\<close> chunks: if the
  client has gone by then, the iterator is closed.
\<close>

record original_response =
  or_content_disposition :: pystr
  or_content_length :: pystr
  or_sent :: "bytes list"
  or_ending :: stream_end

definition api_download_original ::
  "'c s3_client \<Rightarrow> nat \<Rightarrow> int \<Rightarrow> ('c, 'x) service_world_scheme \<Rightarrow> original_response response \<times> ('c, 'x) service_world_scheme" where
  "api_download_original client patience report_id =
     endpoint (0 < report_id) 200 (bind_act (download_original client report_id) (\<lambda>(report, chunks).
       bind_act (lift_res (content_disposition (rp_original_filename report))) (\<lambda>disposition w.
         case chunks patience w of ((sent, ending), w') \<Rightarrow>
           (Inr \<lparr>or_content_disposition = disposition, or_content_length = py_str_int (rp_size_bytes report),
                or_sent = sent, or_ending = ending\<rparr>, w'))))"

definition api_list_warehouses ::
  "(pystr \<Rightarrow> pystr) \<Rightarrow> pystr option \<Rightarrow> pystr option \<Rightarrow> int \<Rightarrow> int \<Rightarrow> 'x world_scheme
     \<Rightarrow> catalog_entry page response \<times> 'x world_scheme" where
  "api_list_warehouses lower code search limit offset =
     endpoint (valid_page limit offset) 200 (list_warehouses lower code search limit offset)"

definition api_get_warehouse :: "int \<Rightarrow> 'x world_scheme \<Rightarrow> catalog_entry response \<times> 'x world_scheme" where
  "api_get_warehouse w_id = endpoint (0 < w_id) 200 (get_warehouse w_id)"

definition api_list_products ::
  "(pystr \<Rightarrow> pystr) \<Rightarrow> pystr option \<Rightarrow> pystr option \<Rightarrow> int \<Rightarrow> int \<Rightarrow> 'x world_scheme
     \<Rightarrow> catalog_entry page response \<times> 'x world_scheme" where
  "api_list_products lower sku search limit offset =
     endpoint (valid_page limit offset) 200 (list_products lower sku search limit offset)"

definition api_get_product :: "int \<Rightarrow> 'x world_scheme \<Rightarrow> catalog_entry response \<times> 'x world_scheme" where
  "api_get_product p_id = endpoint (0 < p_id) 200 (get_product p_id)"

definition api_list_stocks ::
  "int option \<Rightarrow> pystr option \<Rightarrow> int option \<Rightarrow> pystr option \<Rightarrow> bool \<Rightarrow> int \<Rightarrow> int \<Rightarrow> 'x world_scheme
     \<Rightarrow> stock_read_model page response \<times> 'x world_scheme" where
  "api_list_stocks w_id w_code p_id sku include_zero limit offset =
     endpoint (positive_opt w_id \<and> positive_opt p_id \<and> valid_page limit offset) 200
       (list_stocks w_id w_code p_id sku include_zero limit offset)"

text \<open>\<open>/health/live\<close> answers without looking at anything.\<close>

definition api_live :: "'s \<Rightarrow> unit response \<times> 's" where
  "api_live = endpoint True 200 (ret ())"

text \<open>\<open>/health/ready\<close>: the database and the bucket can be reached.\<close>

definition api_ready :: "'c s3_client \<Rightarrow> pystr \<Rightarrow> ('c, 'x) service_world_scheme \<Rightarrow> unit response \<times> ('c, 'x) service_world_scheme" where
  "api_ready client bucket =
     endpoint True 200
       (then_act (catch_act (then_act (query (\<lambda>_. ())) (query (\<lambda>_. ())))
           (\<lambda>e. throw (if e = DatabaseErr then DependencyUnavailableError else e)))
         (bind_act (remote (is_available client bucket)) (\<lambda>available.
           if available then ret () else throw DependencyUnavailableError)))"

end
