(* ===== verification/Registration.thy ===== *)
theory Registration
  imports Reports
begin

text \<open>
  What \<open>register_original\<close> does to the tables and the store, under the contract of the store and of the
  uploaded file.
\<close>

text \<open>The insertion.\<close>

lemma add_report_Inr:
  assumes "transaction (add_report row) w = (Inr r, w')"
  shows "r = row (env_time (w_env w) (w_tick w)) (sq_reports (w_seq w))
    \<and> w_db w' = (w_db w)\<lparr>db_reports := db_reports (w_db w) @ [r]\<rparr> \<and> constraints_ok (w_db w')
    \<and> w_seq w' = (w_seq w)\<lparr>sq_reports := sq_reports (w_seq w) + 1\<rparr>"
  using assms
  by (auto simp: transaction_def add_report_def insert_report_def execute_def
      split: prod.splits sum.splits commit_result.splits if_splits)

lemma add_report_Inl:
  assumes "transaction (add_report row) w = (Inl e, w')" and "\<forall>n. env_commit (w_env w) n \<noteq> Unacknowledged"
  shows "w_db w' = w_db w"
  using assms
  by (auto simp: transaction_def add_report_def insert_report_def execute_def
      split: prod.splits sum.splits commit_result.splits if_splits)

text \<open>The one way in which it fails and the row is there: its commit took effect without being acknowledged.\<close>

lemma add_report_lost:
  assumes "transaction (add_report row) w = (Inl e, w')"
  shows "w_db w' = w_db w
    \<or> w_db w' = (w_db w)\<lparr>db_reports := db_reports (w_db w) @ [row (env_time (w_env w) (w_tick w)) (sq_reports (w_seq w))]\<rparr>
      \<and> env_commit (w_env w) (Suc (w_tick w)) = Unacknowledged \<and> w_tick w' = Suc (Suc (w_tick w))"
  using assms
  by (auto simp: transaction_def add_report_def insert_report_def execute_def
      split: prod.splits sum.splits commit_result.splits if_splits)

lemma statement_ok_insert_report:
  assumes "\<And>now i. rp_id (row now i) = i"
  shows "statement_ok (insert_report row)"
  by (rule statement_okI) (fastforce simp: insert_report_def sequences_ok_def seq_le_def list_all_iff assms)

lemma keeps_add_report:
  assumes "\<And>now i. rp_id (row now i) = i"
  shows "keeps (transaction (add_report row))"
proof -
  have "on_tables keeping w (snd (add_report row w))" for w :: "'a world_scheme"
    using keeping.moves_execute [OF statement_ok_insert_report [of row, OF assms], unfolded moves_def, rule_format, of w]
    by (auto simp: add_report_def split: prod.split sum.split)
  then show ?thesis by (intro keeping.moves_transaction) (simp add: moves_def)
qed

lemma outside_add_report: "moves (same_outside V) (transaction (add_report row))"
proof -
  have "same_outside V w (snd (add_report row w))" for w :: "('a, 'b) service_world_scheme"
    using outside_database(3) [of V "insert_report row", unfolded moves_def, rule_format, of w]
    by (auto simp: add_report_def split: prod.split sum.split)
  then show ?thesis by (intro outside_transaction) (simp add: moves_def)
qed

text \<open>The delete that compensates for it.\<close>

lemma with_source_run:
  "with_source f m w = (fst (m (f, sv_outside w)), w\<lparr>sv_outside := snd (snd (m (f, sv_outside w)))\<rparr>)"
  by (simp add: with_source_def split_def)

context s3_store begin

lemma compensating_delete_others:
  assumes "compensating_delete client b k w = (r, w')"
  shows "worker_data w' = worker_data w \<and> (\<forall>ref. ref \<noteq> (b, k) \<longrightarrow> objects (sv_outside w') ref = objects (sv_outside w) ref)"
proof -
  obtain r1 c1 where del: "s3_delete_object client b k (sv_outside w) = (r1, c1)" by fastforce
  have "w' = w\<lparr>sv_outside := c1\<rparr>"
    using assms del
    by (cases r1) (auto simp: compensating_delete_def delete_object_def s3_errors_def remote_def act_simps split: if_splits)
  with delete_others [OF del] show ?thesis by (simp add: worker_data_def)
qed

lemma compensating_delete_gone:
  assumes "compensating_delete client b k w = (r, w')" and "s3_delete_object client b k (sv_outside w) = (Inr u, c)"
  shows "r = Inr () \<and> objects (sv_outside w') (b, k) = None"
  using assms delete_gone [OF assms(2)]
  by (auto simp: compensating_delete_def delete_object_def s3_errors_def remote_def act_simps)

end

subsection \<open>Registration as a whole\<close>

context s3_upload begin

text \<open>A registration that returns: the object is the file, and the report describes it.\<close>

lemma register_Inr:
  assumes "register_original client b m uuid read f filename w = (Inr r, w')"
  shows "objects (sv_outside w') = (objects (sv_outside w))((b, report_object_key uuid) \<mapsto> left f)
    \<and> r = new_report (normalize_original_filename filename) b (report_object_key uuid)
        \<lparr>up_size_bytes = len (left f), up_checksum_sha256 = sha256_hexdigest (left f)\<rparr>
        (env_time (w_env w) (w_tick w)) (sq_reports (w_seq w))
    \<and> w_db w' = (w_db w)\<lparr>db_reports := db_reports (w_db w) @ [r]\<rparr> \<and> constraints_ok (w_db w')
    \<and> (left f \<noteq> [] \<longrightarrow> len (left f) \<le> m)"
proof -
  let ?key = "report_object_key uuid" and ?name = "normalize_original_filename filename"
  obtain r1 f1 c1 where up: "upload_stream client b ?key read m (f, sv_outside w) = (r1, (f1, c1))" by (metis prod.exhaust)
  note run = assms [unfolded register_original_def Let_def bind_act_def with_source_run up]
  show ?thesis
  proof (cases r1)
    case (Inl e)
    with run show ?thesis by simp
  next
    case (Inr res)
    let ?w1 = "w\<lparr>sv_outside := c1\<rparr>"
    obtain r2 w2 where tr: "transaction (add_report (new_report ?name b ?key res)) ?w1 = (r2, w2)" by fastforce
    have "r2 = Inr r \<and> w2 = w'"
      using run Inr tr by (cases r2) (auto simp: act_simps split: prod.splits sum.splits)
    then have tr: "transaction (add_report (new_report ?name b ?key res)) ?w1 = (Inr r, w')" using tr by simp
    have "sv_outside w' = c1" using movesD [OF outside_add_report [of "\<lambda>c. c"] tr] by (simp add: same_outside_def)
    note u = upload_stream_Inr [OF up [unfolded Inr]]
    then have res: "res = \<lparr>up_size_bytes = len (left f), up_checksum_sha256 = sha256_hexdigest (left f)\<rparr>"
      by (cases res) simp
    have "r = new_report ?name b ?key res (env_time (w_env w) (w_tick w)) (sq_reports (w_seq w))"
      and "w_db w' = (w_db w)\<lparr>db_reports := db_reports (w_db w) @ [r]\<rparr>"
      using add_report_Inr [OF tr] by simp_all
    moreover have "constraints_ok (w_db w')" using add_report_Inr [OF tr] by blast
    ultimately show ?thesis using u res \<open>sv_outside w' = c1\<close> by blast
  qed
qed

text \<open>However it ends: no other object changes, and the invariants of the tables hold.\<close>

lemma register_others:
  assumes "register_original client b m uuid rd f filename w = (r, w')" and "ref \<noteq> (b, report_object_key uuid)"
  shows "objects (sv_outside w') ref = objects (sv_outside w) ref"
proof -
  let ?key = "report_object_key uuid"
  obtain r1 f1 c1 where up: "upload_stream client b ?key rd m (f, sv_outside w) = (r1, (f1, c1))" by (metis prod.exhaust)
  note run = assms(1) [unfolded register_original_def Let_def bind_act_def with_source_run up]
  have o: "objects c1 ref = objects (sv_outside w) ref" using upload_stream_others [OF up assms(2)] by simp
  show ?thesis
  proof (cases r1)
    case (Inl e)
    with run o show ?thesis by auto
  next
    case (Inr res)
    let ?tr = "transaction (add_report (new_report (normalize_original_filename filename) b ?key res))"
    obtain r2 w2 where tr: "?tr (w\<lparr>sv_outside := c1\<rparr>) = (r2, w2)" by fastforce
    have c: "sv_outside w2 = c1" using movesD [OF outside_add_report [of "\<lambda>c. c"] tr] by (simp add: same_outside_def)
    obtain r3 w3 where cd: "compensating_delete client b ?key w2 = (r3, w3)" by fastforce
    have "w' = w2 \<or> w' = w3" using run Inr tr cd by (cases r2; cases r3) (auto simp: act_simps)
    moreover have "objects (sv_outside w3) ref = objects (sv_outside w2) ref"
      using compensating_delete_others [OF cd] assms(2) by blast
    ultimately show ?thesis using c o by auto
  qed
qed

text \<open>A registration that fails after the upload takes the object away again.\<close>

lemma register_cleanup:
  assumes "upload_stream client b (report_object_key uuid) rd m (f, sv_outside w) = (Inr res, s1)"
    and "register_original client b m uuid rd f filename w = (Inl e, w')"
    and "\<And>c. \<exists>c'. s3_delete_object client b (report_object_key uuid) c = (Inr (), c')"
  shows "e = ReportPersistenceError \<and> objects (sv_outside w') (b, report_object_key uuid) = None"
proof -
  let ?key = "report_object_key uuid"
  note run = assms(2) [unfolded register_original_def Let_def bind_act_def with_source_run assms(1)]
  let ?tr = "transaction (add_report (new_report (normalize_original_filename filename) b ?key res))"
  obtain r2 w2 where tr: "?tr (w\<lparr>sv_outside := snd s1\<rparr>) = (r2, w2)" by fastforce
  obtain r3 w3 where cd: "compensating_delete client b ?key w2 = (r3, w3)" by fastforce
  obtain c' where "s3_delete_object client b ?key (sv_outside w2) = (Inr (), c')" using assms(3) by blast
  from compensating_delete_gone [OF cd this] run tr cd show ?thesis
    by (cases r2) (auto simp: act_simps)
qed

end

text \<open>
  A registration that raises: either the tables are as before, or its commit took effect without being acknowledged.
  Then the report is registered, and its original is the file or gone, as the compensating delete went.
\<close>

context s3_service begin

lemma compensating_delete_partial:
  assumes "compensating_delete client b k w = (r, w')"
  shows "objects (sv_outside w') (b, k) = objects (sv_outside w) (b, k) \<or> objects (sv_outside w') (b, k) = None"
proof -
  obtain r1 c1 where del: "s3_delete_object client b k (sv_outside w) = (r1, c1)" by fastforce
  have "w' = w\<lparr>sv_outside := c1\<rparr>"
    using assms del
    by (cases r1) (auto simp: compensating_delete_def delete_object_def s3_errors_def remote_def act_simps split: if_splits)
  with delete_partial [OF del] show ?thesis by simp
qed

lemma register_lost:
  assumes "register_original client b m uuid read f filename w = (Inl e, w')"
  shows "w_db w' = w_db w
    \<or> (\<exists>rep now i k. w_db w' = (w_db w)\<lparr>db_reports := db_reports (w_db w) @ [rep]\<rparr>
        \<and> rep = new_report (normalize_original_filename filename) b (report_object_key uuid)
            \<lparr>up_size_bytes = len (left f), up_checksum_sha256 = sha256_hexdigest (left f)\<rparr> now i
        \<and> (objects (sv_outside w') (b, report_object_key uuid) = Some (left f)
            \<or> objects (sv_outside w') (b, report_object_key uuid) = None)
        \<and> w_tick w \<le> k \<and> k < w_tick w' \<and> env_commit (w_env w) k = Unacknowledged)"
proof -
  let ?key = "report_object_key uuid" and ?name = "normalize_original_filename filename"
  obtain r1 f1 c1 where up: "upload_stream client b ?key read m (f, sv_outside w) = (r1, (f1, c1))" by (metis prod.exhaust)
  note run = assms [unfolded register_original_def Let_def bind_act_def with_source_run up]
  show ?thesis
  proof (cases r1)
    case (Inl e)
    with run show ?thesis by auto
  next
    case (Inr res)
    let ?row = "new_report ?name b ?key res" and ?w1 = "w\<lparr>sv_outside := c1\<rparr>"
    obtain r2 w2 where tr: "transaction (add_report ?row) ?w1 = (r2, w2)" by fastforce
    obtain r3 w3 where cd: "compensating_delete client b ?key w2 = (r3, w3)" by fastforce
    have "(\<exists>e2. r2 = Inl e2) \<and> w' = w3" using run Inr tr cd by (cases r2; cases r3) (auto simp: act_simps)
    then obtain e2 where tr2: "transaction (add_report ?row) ?w1 = (Inl e2, w2)" and w': "w' = w3" using tr by blast
    have outside: "sv_outside w2 = c1" using movesD [OF outside_add_report [of "\<lambda>c. c"] tr2] by (simp add: same_outside_def)
    have data: "worker_data w3 = worker_data w2" using compensating_delete_others [OF cd] by blast
    have ticks: "w_tick w3 = w_tick w2"
      using cd by (auto simp: compensating_delete_def delete_object_def remote_def act_simps split: prod.splits sum.splits if_splits)
    note u = upload_stream_Inr [OF up [unfolded Inr]]
    then have res: "res = \<lparr>up_size_bytes = len (left f), up_checksum_sha256 = sha256_hexdigest (left f)\<rparr>"
      by (cases res) simp
    have gone: "objects (sv_outside w') (b, ?key) = Some (left f) \<or> objects (sv_outside w') (b, ?key) = None"
      using compensating_delete_partial [OF cd] u by (simp add: outside w')
    have same: "w_db w' = w_db w2" "w_tick w' = w_tick w2" using data ticks by (simp_all add: worker_data_def w')
    from add_report_lost [OF tr2] show ?thesis
    proof (elim disjE conjE)
      assume "w_db w2 = w_db ?w1"
      then show ?thesis using same by simp
    next
      assume "w_db w2 = (w_db ?w1)\<lparr>db_reports := db_reports (w_db ?w1) @ [?row (env_time (w_env ?w1) (w_tick ?w1)) (sq_reports (w_seq ?w1))]\<rparr>"
        and "env_commit (w_env ?w1) (Suc (w_tick ?w1)) = Unacknowledged" and "w_tick w2 = Suc (Suc (w_tick ?w1))"
      then show ?thesis
        using gone same unfolding res
        by (intro disjI2 exI [of _ "?row (env_time (w_env w) (w_tick w)) (sq_reports (w_seq w))"]
            exI [of _ "env_time (w_env w) (w_tick w)"] exI [of _ "sq_reports (w_seq w)"] exI [of _ "Suc (w_tick w)"]) (simp add: res)
    qed
  qed
qed

end

lemma aloof_compensating_delete: "aloof (compensating_delete client b k)"
  unfolding compensating_delete_def aloof_moves by (auto intro!: unmoved.moves_catch)

lemma keeps_with_source: "keeps (with_source f m)"
  by (simp add: moves_def with_source_run on_tables_def keeping.table_refl)

lemma keeps_register: "keeps (register_original client b m uuid rd f filename)"
proof -
  have "keeps (compensating_delete client b k)" for k
    by (intro keeping.moves_silent aloof_silent aloof_compensating_delete)
  then show ?thesis
    unfolding register_original_def Let_def
    by (intro keeping.moves_bind keeping.moves_catch keeping.moves_then keeps_with_source keeps_add_report)
      (simp_all add: new_report_def)
qed

lemma env_remote [simp]: "w_env (snd (remote m w)) = w_env w"
  by (simp add: remote_def split: prod.split)

lemma env_register:
  assumes "register_original client b m uuid rd f filename w = (r, w')"
  shows "w_env w' = w_env w"
proof -
  have "moves (same_outside (\<lambda>_. ())) (register_original client b m uuid rd f filename)"
    unfolding register_original_def compensating_delete_def Let_def
    by (intro outside.moves_bind outside.moves_catch outside.moves_then outside_add_report)
      (auto simp: moves_def same_outside_def with_source_run act_simps)
  from movesD [OF this assms] show ?thesis by (simp add: same_outside_def)
qed

text \<open>A registration that raises, when every commit is acknowledged, leaves the tables as they were.\<close>

lemma register_Inl:
  assumes "register_original client b m uuid rd f filename w = (Inl e, w')"
    and "\<forall>n. env_commit (w_env w) n \<noteq> Unacknowledged"
  shows "w_db w' = w_db w"
proof -
  let ?key = "report_object_key uuid"
  obtain r1 f1 c1 where up: "upload_stream client b ?key rd m (f, sv_outside w) = (r1, (f1, c1))" by (metis prod.exhaust)
  note run = assms(1) [unfolded register_original_def Let_def bind_act_def with_source_run up]
  show ?thesis
  proof (cases r1)
    case (Inl e)
    with run show ?thesis by auto
  next
    case (Inr res)
    let ?tr = "transaction (add_report (new_report (normalize_original_filename filename) b ?key res))"
    obtain r2 w2 where tr: "?tr (w\<lparr>sv_outside := c1\<rparr>) = (r2, w2)" by fastforce
    obtain r3 w3 where cd: "compensating_delete client b ?key w2 = (r3, w3)" by fastforce
    have "(\<exists>e2. r2 = Inl e2) \<and> w' = w3" using run Inr tr cd by (cases r2; cases r3) (auto simp: act_simps)
    moreover have "w_db w3 = w_db w2"
      using aloof_silent [OF aloof_compensating_delete] cd unfolding silent_def at_def by (metis snd_conv)
    ultimately show ?thesis using add_report_Inl [of _ "w\<lparr>sv_outside := c1\<rparr>" _ w2] tr assms(2) by auto
  qed
qed

end
