(* ===== verification/ValidationRun.thy ===== *)
theory ValidationRun
  imports ProcessingCycle CsvOutcome
begin

text \<open>
  A validation run that returns: what it has stored is exactly what the reference outcome of the
  file says, independent of batches, reads and chunks; and its verdict follows from it.
\<close>

subsection \<open>The writer's view of a report\<close>

definition issue_of :: "report_error \<Rightarrow> validation_issue" where
  "issue_of e = \<lparr>i_line_number = er_line_number e, i_field_name = er_field_name e, i_code = er_code e,
     i_message = er_message e, i_raw_data = er_raw_data e\<rparr>"

text \<open>The rows and issues of a report, those stored and those still in a batch.\<close>

definition rows_in :: "int \<Rightarrow> 'x writer_world_scheme \<Rightarrow> staging_row list" where
  "rows_in rid w = staged (w_db w) rid @ map (staging_values rid) (vb_staging_batch w)"

definition issues_in :: "int \<Rightarrow> 'x writer_world_scheme \<Rightarrow> validation_issue list" where
  "issues_in rid w = map issue_of (errors_of (w_db w) rid) @ vb_error_batch w"

definition writes :: "int \<Rightarrow> ('x, 'a) wproc \<Rightarrow> validated_row list \<Rightarrow> validation_issue list \<Rightarrow> bool" where
  "writes rid m rows issues \<longleftrightarrow> (\<forall>w a w'. m w = (Inr a, w') \<longrightarrow>
     rows_in rid w' = rows_in rid w @ map (staging_values rid) rows \<and> issues_in rid w' = issues_in rid w @ issues)"

lemma writesI:
  "(\<And>w a w'. m w = (Inr a, w') \<Longrightarrow> rows_in rid w' = rows_in rid w @ map (staging_values rid) rows
     \<and> issues_in rid w' = issues_in rid w @ issues) \<Longrightarrow> writes rid m rows issues"
  by (simp add: writes_def)

lemma writesD:
  "writes rid m rows issues \<Longrightarrow> m w = (Inr a, w') \<Longrightarrow>
     rows_in rid w' = rows_in rid w @ map (staging_values rid) rows \<and> issues_in rid w' = issues_in rid w @ issues"
  by (simp add: writes_def)

lemma writes_ret: "writes rid (ret a) [] []"
  by (rule writesI) (simp add: act_simps)

lemma writes_aloof:
  assumes "aloof m"
  shows "writes rid m [] []"
proof (rule writesI)
  fix w a w'
  assume "m w = (Inr a, w')"
  then have "at w' (w_now w) (w_db w) (w_seq w) (w_env w)"
    using assms at_self [of w] unfolding aloof_def silent_def by (metis snd_conv)
  moreover have "vb_staging_batch w' = vb_staging_batch w \<and> vb_error_batch w' = vb_error_batch w"
    using assms \<open>m w = (Inr a, w')\<close> unfolding aloof_def by (metis snd_conv)
  ultimately show "rows_in rid w' = rows_in rid w @ map (staging_values rid) [] \<and> issues_in rid w' = issues_in rid w @ []"
    by (simp add: rows_in_def issues_in_def at_def)
qed

lemma writes_then:
  assumes "writes rid m rows issues" and "writes rid n rows' issues'"
  shows "writes rid (then_act m n) (rows @ rows') (issues @ issues')"
proof (rule writesI)
  fix w a w'
  assume "then_act m n w = (Inr a, w')"
  then obtain b w1 where "m w = (Inr b, w1)" "n w1 = (Inr a, w')" by (auto simp: then_act_Inr_iff)
  with writesD [OF assms(1)] writesD [OF assms(2)] show "rows_in rid w' = rows_in rid w @ map (staging_values rid) (rows @ rows')
    \<and> issues_in rid w' = issues_in rid w @ issues @ issues'" by fastforce
qed

lemma writes_each:
  "(\<And>x. writes rid (f x) (rs x) (is x)) \<Longrightarrow> writes rid (each_act f xs) (concat (map rs xs)) (concat (map is xs))"
  by (induction xs) (simp_all add: writes_ret writes_then)

subsection \<open>Batches\<close>

lemma transaction_execute_Inr:
  assumes "transaction (execute f) w = (Inr u, w')"
  shows "\<exists>sq. f (env_time (w_env w) (w_tick w)) (w_db w) (w_seq w) = Some (w_db w', sq) \<and> constraints_ok (w_db w')
    \<and> vb_staging_batch w' = vb_staging_batch w \<and> vb_error_batch w' = vb_error_batch w"
proof -
  from transaction_Inr [OF assms] obtain w1 where
    w1: "execute f (w\<lparr>w_now := env_time (w_env w) (w_tick w)\<rparr>) = (Inr u, w1)" "w' = tick w1" by blast
  from execute_Inr [OF w1(1)] obtain sq where
    "f (env_time (w_env w) (w_tick w)) (w_db w) (w_seq w) = Some (w_db w1, sq)" "constraints_ok (w_db w1)"
    and w1': "w1 = (tick (w\<lparr>w_now := env_time (w_env w) (w_tick w)\<rparr>))\<lparr>w_db := w_db w1, w_seq := sq\<rparr>" by auto
  moreover have "vb_staging_batch w1 = vb_staging_batch w \<and> vb_error_batch w1 = vb_error_batch w"
    by (subst (1 2) w1') (simp add: tick_def)
  moreover have "vb_staging_batch w' = vb_staging_batch w1 \<and> vb_error_batch w' = vb_error_batch w1"
    by (simp add: w1(2) tick_def)
  ultimately show ?thesis using w1(2) by auto
qed

lemma aloof_Inr:
  assumes "aloof m" and "m w = (r, w')"
  shows "w_db w' = w_db w" "vb_staging_batch w' = vb_staging_batch w" "vb_error_batch w' = vb_error_batch w"
    "w_seq w' = w_seq w" "w_env w' = w_env w"
proof -
  have "at w' (w_now w) (w_db w) (w_seq w) (w_env w)"
    using assms at_self [of w] unfolding aloof_def silent_def by (metis snd_conv)
  then show "w_db w' = w_db w" "w_seq w' = w_seq w" "w_env w' = w_env w" by (simp_all add: at_def)
  show "vb_staging_batch w' = vb_staging_batch w" "vb_error_batch w' = vb_error_batch w"
    using assms unfolding aloof_def by (metis snd_conv)+
qed

lemma write_batch_Inr:
  assumes "aloof alive" and "write_batch alive f w = (Inr u, w')"
  shows "\<exists>now sq sq'. f now (w_db w) sq = Some (w_db w', sq') \<and> constraints_ok (w_db w')
    \<and> vb_staging_batch w' = vb_staging_batch w \<and> vb_error_batch w' = vb_error_batch w"
proof -
  obtain a w1 where "alive w = (Inr a, w1)" "transaction (execute f) w1 = (Inr u, w')"
    using assms(2) by (auto simp: write_batch_def then_act_Inr_iff)
  with aloof_Inr [OF assms(1) this(1)] transaction_execute_Inr [OF this(2)] show ?thesis by metis
qed

lemma insert_rows_of:
  "insert_staging rid rows now d sq = Some (d', sq') \<Longrightarrow>
     staged d' rid = staged d rid @ map (staging_values rid) rows \<and> errors_of d' rid = errors_of d rid"
  by (auto simp: insert_staging_def staged_def errors_of_def staging_values_def filter_map comp_def)

lemma issue_of_error_row [simp]: "issue_of (error_row now rid i issue) = issue"
  by (simp add: issue_of_def error_row_def)

lemma insert_errors_of:
  "insert_errors rid issues now d sq = Some (d', sq') \<Longrightarrow>
     map issue_of (errors_of d' rid) = map issue_of (errors_of d rid) @ issues \<and> staged d' rid = staged d rid"
proof -
  assume i: "insert_errors rid issues now d sq = Some (d', sq')"
  have "map issue_of (filter (\<lambda>e. er_report_id e = rid)
      (map (\<lambda>(k, issue). error_row now rid (sq_errors sq + int k) issue) kis)) = map snd kis" for kis
    by (induction kis) (auto simp: error_row_def issue_of_def)
  with i show ?thesis by (auto simp: insert_errors_def errors_of_def staged_def)
qed

lemma flush_staging_Inr:
  assumes "aloof alive" and "flush_staging rid alive w = (Inr u, w')"
  shows "rows_in rid w' = rows_in rid w \<and> issues_in rid w' = issues_in rid w \<and> vb_staging_batch w' = []
    \<and> vb_error_batch w' = vb_error_batch w"
proof (cases "vb_staging_batch w = []")
  case False
  with assms(2) have "write_batch alive (insert_staging rid (vb_staging_batch w)) (w\<lparr>vb_staging_batch := []\<rparr>) = (Inr u, w')"
    by (simp add: flush_staging_def)
  from write_batch_Inr [OF assms(1) this] insert_rows_of show ?thesis
    by (fastforce simp: rows_in_def issues_in_def)
qed (use assms in \<open>auto simp: flush_staging_def\<close>)

lemma flush_errors_Inr:
  assumes "aloof alive" and "flush_errors rid alive w = (Inr u, w')"
  shows "rows_in rid w' = rows_in rid w \<and> issues_in rid w' = issues_in rid w \<and> vb_error_batch w' = []
    \<and> vb_staging_batch w' = vb_staging_batch w"
proof (cases "vb_error_batch w = []")
  case False
  with assms(2) have "write_batch alive (insert_errors rid (vb_error_batch w)) (w\<lparr>vb_error_batch := []\<rparr>) = (Inr u, w')"
    by (simp add: flush_errors_def)
  from write_batch_Inr [OF assms(1) this] insert_errors_of show ?thesis
    by (fastforce simp: rows_in_def issues_in_def)
qed (use assms in \<open>auto simp: flush_errors_def\<close>)

lemma flush_all_Inr:
  assumes "aloof alive" and "flush_all rid alive w = (Inr u, w')"
  shows "staged (w_db w') rid = rows_in rid w \<and> map issue_of (errors_of (w_db w') rid) = issues_in rid w
    \<and> vb_staging_batch w' = [] \<and> vb_error_batch w' = []"
proof -
  obtain v w1 where w1: "flush_staging rid alive w = (Inr v, w1)" "flush_errors rid alive w1 = (Inr u, w')"
    using assms(2) by (auto simp: flush_all_def then_act_Inr_iff)
  have "rows_in rid w' = rows_in rid w" "issues_in rid w' = issues_in rid w" "vb_staging_batch w' = []" "vb_error_batch w' = []"
    using flush_staging_Inr [OF assms(1) w1(1)] flush_errors_Inr [OF assms(1) w1(2)] by simp_all
  then show ?thesis by (simp add: rows_in_def [of rid w'] issues_in_def [of rid w'])
qed

lemma writes_add_valid_row:
  assumes "aloof alive"
  shows "writes rid (add_valid_row rid n alive row) [row] []"
proof (rule writesI)
  fix w a w'
  assume "add_valid_row rid n alive row w = (Inr a, w')"
  then have run: "(if n \<le> len (vb_staging_batch w @ [row]) then flush_staging rid alive (w\<lparr>vb_staging_batch := vb_staging_batch w @ [row]\<rparr>)
      else (Inr (), w\<lparr>vb_staging_batch := vb_staging_batch w @ [row]\<rparr>)) = (Inr a, w')"
    by (simp add: add_valid_row_def Let_def)
  let ?w = "w\<lparr>vb_staging_batch := vb_staging_batch w @ [row]\<rparr>"
  have "rows_in rid w' = rows_in rid ?w \<and> issues_in rid w' = issues_in rid ?w"
  proof (cases "n \<le> len (vb_staging_batch w @ [row])")
    case True
    with run have "flush_staging rid alive ?w = (Inr a, w')" by simp
    from flush_staging_Inr [OF assms this] show ?thesis by blast
  next
    case False
    with run have "w' = ?w" by simp
    then show ?thesis by simp
  qed
  then show "rows_in rid w' = rows_in rid w @ map (staging_values rid) [row] \<and> issues_in rid w' = issues_in rid w @ []"
    by (simp add: rows_in_def issues_in_def)
qed

lemma writes_add_issue:
  assumes "aloof alive"
  shows "writes rid (add_issue rid n alive issue) [] [issue]"
proof (rule writesI)
  fix w a w'
  assume "add_issue rid n alive issue w = (Inr a, w')"
  then have run: "(if n \<le> len (vb_error_batch w @ [issue]) then flush_errors rid alive (w\<lparr>vb_error_batch := vb_error_batch w @ [issue]\<rparr>)
      else (Inr (), w\<lparr>vb_error_batch := vb_error_batch w @ [issue]\<rparr>)) = (Inr a, w')"
    by (simp add: add_issue_def Let_def)
  let ?w = "w\<lparr>vb_error_batch := vb_error_batch w @ [issue]\<rparr>"
  have "rows_in rid w' = rows_in rid ?w \<and> issues_in rid w' = issues_in rid ?w"
  proof (cases "n \<le> len (vb_error_batch w @ [issue])")
    case True
    with run have "flush_errors rid alive ?w = (Inr a, w')" by simp
    from flush_errors_Inr [OF assms this] show ?thesis by blast
  next
    case False
    with run have "w' = ?w" by simp
    then show ?thesis by simp
  qed
  then show "rows_in rid w' = rows_in rid w @ map (staging_values rid) [] \<and> issues_in rid w' = issues_in rid w @ [issue]"
    by (simp add: rows_in_def issues_in_def)
qed

subsection \<open>The stream\<close>

fun item_rows :: "csv_item \<Rightarrow> validated_row list" where
  "item_rows (Deliver r) = [r]" | "item_rows _ = []"

fun item_issues :: "csv_item \<Rightarrow> validation_issue list" where
  "item_issues (Report is) = is" | "item_issues _ = []"

definition delivered :: "csv_item list \<Rightarrow> validated_row list" where
  "delivered items = concat (map item_rows items)"

definition reported_issues :: "csv_item list \<Rightarrow> validation_issue list" where
  "reported_issues items = concat (map item_issues items)"

lemma delivered_shown: "delivered (shown items) = delivered items" "reported_issues (shown items) = reported_issues items"
proof (induction items)
  case (Cons i items)
  { case 1 with Cons show ?case by (cases i) (simp_all add: delivered_def shown_def) }
  { case 2 with Cons show ?case by (cases i) (simp_all add: reported_issues_def shown_def) }
qed (simp_all add: delivered_def reported_issues_def shown_def)

lemma writes_read_chunks:
  assumes "aloof alive" and "aloof_storage st"
  shows "writes rid (read_chunks st alive) [] []"
proof -
  have "writes rid (then_act alive (st_next_chunk st)) [] []"
    using writes_then [OF writes_aloof [OF assms(1)] writes_aloof, of "st_next_chunk st" rid] assms(2)
    by (simp add: aloof_storage_def)
  from writes_each [of rid "\<lambda>_. then_act alive (st_next_chunk st)" "\<lambda>_. []" "\<lambda>_. []", OF this]
  have "writes rid (each_act (\<lambda>_. then_act alive (st_next_chunk st)) xs) [] []" for xs :: "nat list"
    by (simp add: concat_eq_Nil_conv [THEN iffD2])
  then show ?thesis by (simp add: writes_def read_chunks_def)
qed

lemma writes_dispatch:
  assumes "aloof alive" and "aloof_storage st"
  shows "writes rid (dispatch (writer_callbacks st rid n alive) i) (item_rows i) (item_issues i)"
proof (cases i)
  case (Report "is")
  from writes_each [of rid "add_issue rid n alive" "\<lambda>_. []" "\<lambda>i. [i]" "is", OF writes_add_issue [OF assms(1)]]
  have "writes rid (add_issues rid n alive is) [] is"
    by (simp add: add_issues_def concat_eq_Nil_conv [THEN iffD2])
  with Report show ?thesis by (simp add: writer_callbacks_def)
qed (simp_all add: writer_callbacks_def writes_read_chunks [OF assms] writes_add_valid_row [OF assms(1)])

lemma validate_stream_Inr:
  assumes "aloof alive" and "aloof_storage st"
    and "validate_csv_stream (writer_callbacks st rid n alive) lim chunks w = (Inr s, w')"
  shows "\<exists>items. csv_outcome lim (stream_text chunks) = (items, Inr s)
    \<and> rows_in rid w' = rows_in rid w @ map (staging_values rid) (delivered items)
    \<and> issues_in rid w' = issues_in rid w @ reported_issues items"
proof -
  have ok: "check_limits lim = Inr ()"
  proof (cases "check_limits lim")
    case (Inl e)
    with assms(3) show ?thesis by (simp add: validate_stream_bad_limits act_simps)
  qed simp
  obtain r items where tr: "csv_trace lim (text_pieces (nat TEXT_READ_CHARS) (stream_text chunks)) = (r, items)" by fastforce
  let ?cb = "writer_callbacks st rid n alive"
  obtain w1 u where w1: "then_act (each_act (dispatch ?cb) items) (lift_res r) w = (Inr s, w1)"
    and close: "cb_close ?cb w1 = (Inr u, w')"
    using assms(3) by (auto simp: validate_stream_trace [OF ok] tr act_simps split: prod.splits sum.splits)
  have r: "r = Inr s" and each: "each_act (dispatch ?cb) items w = (Inr (), w1)"
    using w1 by (auto simp: then_act_Inr_iff lift_res_def)
  have out: "csv_outcome lim (stream_text chunks) = (shown items, Inr s)"
    using csv_trace_outcome [OF ok stream_pieces(1) tr] r by (simp add: stream_pieces(2))
  have "writes rid (each_act (dispatch ?cb) items) (delivered items) (reported_issues items)"
    unfolding delivered_def reported_issues_def by (rule writes_each) (rule writes_dispatch [OF assms(1,2)])
  from writesD [OF this each] have
    "rows_in rid w1 = rows_in rid w @ map (staging_values rid) (delivered items)"
    "issues_in rid w1 = issues_in rid w @ reported_issues items" by simp_all
  moreover have "aloof (cb_close ?cb)" using assms(2) by (simp add: writer_callbacks_def aloof_storage_def)
  then have "rows_in rid w' = rows_in rid w1" "issues_in rid w' = issues_in rid w1"
    using aloof_Inr [where m = "cb_close ?cb" and w = w1 and r = "Inr u" and w' = w'] close
    by (simp_all add: rows_in_def issues_in_def)
  ultimately show ?thesis using out by (auto simp: delivered_shown)
qed

subsection \<open>The verdict\<close>

text \<open>The duplicates among the rows of a file, as the window function finds them.\<close>

definition duplicates_in :: "staging_row list \<Rightarrow> staging_row list" where
  "duplicates_in rows = filter (\<lambda>s. duplicate_rank rows s > 1) rows"

lemma duplicate_rank_one: "duplicate_rank rows s > 1 \<longleftrightarrow>
  (\<exists>t \<in> set rows. pair_key t = pair_key s \<and> sg_line_number t < sg_line_number s)"
  by (auto simp: duplicate_rank_def pair_key_def filter_empty_conv)

lemma no_duplicates_rank:
  assumes "distinct (map sg_line_number rows)" and "duplicates_in rows = []"
  shows "no_duplicates rows"
proof -
  have "s = t" if "s \<in> set rows" "t \<in> set rows" "pair_key s = pair_key t" for s t
  proof (rule ccontr)
    assume "s \<noteq> t"
    with assms(1) that have "sg_line_number s \<noteq> sg_line_number t" by (auto simp: distinct_map inj_on_def)
    then have "duplicate_rank rows s > 1 \<or> duplicate_rank rows t > 1"
      using that unfolding duplicate_rank_one by (metis linorder_neqE)
    with that assms(2) show False by (auto simp: duplicates_in_def filter_empty_conv)
  qed
  then show ?thesis using assms(1) by (auto simp: no_duplicates_def distinct_map inj_on_def)
qed

lemma staged_lines_distinct:
  assumes "constraints_ok d"
  shows "distinct (map sg_line_number (staged d rid))"
proof -
  have "distinct (map staging_key (staged d rid))"
    unfolding staged_def by (rule distinct_map_filter) (use assms in \<open>simp add: constraints_ok_def staging_ok_def\<close>)
  moreover have "staging_key s = (rid, sg_line_number s)" if "s \<in> set (staged d rid)" for s
    using that by (simp add: staged_def staging_key_def)
  ultimately show ?thesis by (auto simp: distinct_map inj_on_def)
qed

text \<open>
  What a returned run has done, by its outcome: \<open>rows\<close> and \<open>issues\<close> are those of the file, \<open>dups\<close>
  the duplicates among the rows.
\<close>

definition run_rows :: "int \<Rightarrow> csv_item list \<Rightarrow> staging_row list" where
  "run_rows rid items = map (staging_values rid) (delivered items)"

definition run_issues :: "csv_limits \<Rightarrow> int \<Rightarrow> csv_item list \<Rightarrow> validation_issue list" where
  "run_issues lim rid items = reported_issues items
     @ map (duplicate_issue (duplicate_raw_value_chars lim)) (duplicates_in (run_rows rid items))"

definition concluded ::
  "csv_limits \<Rightarrow> int \<Rightarrow> report \<Rightarrow> csv_item list \<Rightarrow> csv_summary \<Rightarrow> worker_cycle_outcome \<Rightarrow> db \<Rightarrow> bool" where
  "concluded lim rid r items s outcome d' \<longleftrightarrow>
     (if run_issues lim rid items = [] then
        outcome = VALIDATED \<and> s_reached_eof s \<and> s_row_count s \<noteq> 0
        \<and> staged d' rid = run_rows rid items \<and> errors_of d' rid = []
        \<and> find_report rid d' = Some (r\<lparr>rp_row_count := s_row_count s, rp_error_count := 0\<rparr>)
      else
        outcome = VALIDATION_FAILED \<and> staged d' rid = []
        \<and> map issue_of (errors_of d' rid) = run_issues lim rid items
        \<and> (\<exists>now. find_report rid d' = Some (validation_failed (s_row_count s) (len (run_issues lim rid items)) now r)))"

lemma count_errors_Inr:
  "count_errors rid w = (Inr n, w') \<Longrightarrow> n = stored_error_count rid (w_db w) \<and> w_db w' = w_db w"
  using transaction_Inr [of "query (stored_error_count rid)" w n w']
  by (auto simp: count_errors_def dest!: query_Inr)

lemma update_reports_frame:
  "update_reports cond change now d sq = Some (d', sq') \<Longrightarrow>
     db_staging d' = db_staging d \<and> db_errors d' = db_errors d \<and> db_stocks d' = db_stocks d
     \<and> db_warehouses d' = db_warehouses d \<and> db_products d' = db_products d \<and> sq' = sq"
  by (auto simp: update_reports_def)

lemma find_report_processing:
  assumes "update_reports (of_processing rid) change now d sq = Some (d', sq')" and "find_report rid d = Some r"
    and "rp_status r = Processing" and "\<And>now r. rp_id (change now r) = rp_id r" and "constraints_ok d"
  shows "find_report rid d' = Some (change now r)"
proof -
  have "(if of_processing rid r' then change now r' else r') = (if rp_id r' = rid then change now r' else r')"
    if "r' \<in> set (db_reports d)" for r'
  proof (cases "rp_id r' = rid")
    case True
    have "reports_ok d" "r \<in> set (db_reports d)" "rp_id r = rid"
      using assms(2,5) find_report_Some [OF assms(2)] by (simp_all add: constraints_ok_def)
    then have "r' = r" using report_unique [of d r' r] that True by simp
    with True assms(3) show ?thesis by (simp add: of_processing_def)
  qed (simp add: of_processing_def)
  then have "db_reports d' = map (\<lambda>r'. if rp_id r' = rid then change now r' else r') (db_reports d)"
    using assms(1) by (auto simp: update_reports_def)
  from find_report_update [OF this assms(4), of rid] find_report_Some [OF assms(2)] assms(2) show ?thesis
    by simp
qed

text \<open>The last part: from the stored issues to the verdict.\<close>

lemma conclude_validation_Inr:
  assumes al: "aloof alive" and run: "conclude_validation rid alive s w = (Inr out, w')"
    and ok: "constraints_ok (w_db w)" and r: "find_report rid (w_db w) = Some r" "rp_status r = Processing"
  shows "if errors_of (w_db w) rid = []
    then out = VALIDATED \<and> s_reached_eof s \<and> s_row_count s \<noteq> 0
      \<and> staged (w_db w') rid = staged (w_db w) rid \<and> errors_of (w_db w') rid = []
      \<and> find_report rid (w_db w') = Some (r\<lparr>rp_row_count := s_row_count s, rp_error_count := 0\<rparr>)
    else out = VALIDATION_FAILED \<and> staged (w_db w') rid = [] \<and> errors_of (w_db w') rid = errors_of (w_db w) rid
      \<and> (\<exists>now. find_report rid (w_db w') = Some (validation_failed (s_row_count s) (len (errors_of (w_db w) rid)) now r))"
proof -
  obtain n w1 where n: "count_errors rid w = (Inr n, w1)" and rest:
    "(if n \<noteq> 0 then then_act alive (then_act (finalize_validation_failure rid (s_row_count s) n) (ret VALIDATION_FAILED))
      else if \<not> s_reached_eof s \<or> s_row_count s = 0 then throw RuntimeErr
      else then_act alive (then_act (transaction (execute (update_reports (of_processing rid) (validated (s_row_count s)))))
        (ret VALIDATED))) w1 = (Inr out, w')"
    using run by (auto simp: conclude_validation_def bind_act_Inr_iff)
  have n': "n = len (errors_of (w_db w) rid)" "w_db w1 = w_db w"
    using count_errors_Inr [OF n] by (simp_all add: stored_error_count_def)
  show ?thesis
  proof (cases "errors_of (w_db w) rid = []")
    case True
    then have eof: "s_reached_eof s" "s_row_count s \<noteq> 0" using rest n'(1) by (auto simp: throw_def split: if_splits)
    obtain a w2 u where w2: "alive w1 = (Inr a, w2)" and tr:
      "transaction (execute (update_reports (of_processing rid) (validated (s_row_count s)))) w2 = (Inr u, w')"
      and out: "out = VALIDATED"
      using rest n'(1) True eof by (auto simp: then_act_Inr_iff ret_def)
    from transaction_execute_Inr [OF tr] aloof_Inr(1) [OF al w2] n'(2) obtain now sq sq' where
      up: "update_reports (of_processing rid) (validated (s_row_count s)) now (w_db w) sq = Some (w_db w', sq')" by metis
    have "find_report rid (w_db w') = Some (validated (s_row_count s) now r)"
      by (rule find_report_processing [OF up r]) (simp_all add: validated_def ok)
    moreover have "staged (w_db w') rid = staged (w_db w) rid" "errors_of (w_db w') rid = errors_of (w_db w) rid"
      using update_reports_frame [OF up] by (simp_all add: staged_def errors_of_def)
    ultimately show ?thesis using True eof out by (simp add: validated_def)
  next
    case False
    obtain a w2 u where w2: "alive w1 = (Inr a, w2)" and tr:
      "finalize_validation_failure rid (s_row_count s) n w2 = (Inr u, w')" and out: "out = VALIDATION_FAILED"
      using rest n'(1) False by (auto simp: then_act_Inr_iff ret_def)
    have d2: "w_db w2 = w_db w" using aloof_Inr(1) [OF al w2] n'(2) by simp
    from transaction_Inr [OF tr [unfolded finalize_validation_failure_def]] obtain w3 where
      w3: "then_act (execute (delete_staging rid)) (execute (update_reports (of_processing rid)
          (validation_failed (s_row_count s) n))) (w2\<lparr>w_now := env_time (w_env w2) (w_tick w2)\<rparr>) = (Inr u, w3)" "w' = tick w3"
      by blast
    then obtain v w4 where w4: "execute (delete_staging rid) (w2\<lparr>w_now := env_time (w_env w2) (w_tick w2)\<rparr>) = (Inr v, w4)"
      "execute (update_reports (of_processing rid) (validation_failed (s_row_count s) n)) w4 = (Inr u, w3)"
      by (auto simp: then_act_Inr_iff)
    have d4: "w_db w4 = (w_db w)\<lparr>db_staging := filter (\<lambda>s. sg_report_id s \<noteq> rid) (db_staging (w_db w))\<rparr>" "constraints_ok (w_db w4)"
      using execute_Inr [OF w4(1)] d2 by (auto simp: delete_staging_def)
    from execute_Inr [OF w4(2)] obtain now sq sq' where
      up: "update_reports (of_processing rid) (validation_failed (s_row_count s) n) now (w_db w4) sq = Some (w_db w3, sq')" by blast
    have "find_report rid (w_db w4) = Some r" using r(1) d4(1) by (simp add: find_report_def)
    from find_report_processing [OF up this r(2) _ d4(2)]
    have "find_report rid (w_db w3) = Some (validation_failed (s_row_count s) n now r)" by (simp add: validation_failed_def)
    moreover have "staged (w_db w3) rid = []" "errors_of (w_db w3) rid = errors_of (w_db w) rid"
      using update_reports_frame [OF up] d4(1) by (simp_all add: staged_def errors_of_def)
    ultimately show ?thesis using False n'(1) out w3(2) by auto
  qed
qed

text \<open>The whole of \<open>validate\<close>, on a report that has just been claimed.\<close>

lemma validate_report_Inr:
  assumes al: "aloof alive" and st: "aloof_storage st" and r: "find_report (rs_id src) (w_db w) = Some r" "rp_status r = Processing"
    and fresh: "staged (w_db w) (rs_id src) = []" "errors_of (w_db w) (rs_id src) = []"
    and run: "validate_report st lim n src alive w = (Inr out, w')"
  shows "\<exists>w1 w2 chunks items s.
    alive w = (Inr (), w1) \<and> st_download_stream st (rs_object_bucket src) (rs_object_key src) w1 = (Inr chunks, w2)
    \<and> csv_outcome lim (stream_text chunks) = (items, Inr s)
    \<and> concluded lim (rs_id src) r items s out (w_db w')"
proof -
  let ?rid = "rs_id src"
  obtain w1 w2 chunks where w1: "alive w = (Inr (), w1)"
    and w2: "st_download_stream st (rs_object_bucket src) (rs_object_key src) w1 = (Inr chunks, w2)"
    and vc: "validate_chunks st lim n ?rid alive chunks w2 = (Inr out, w')"
    using run by (auto simp: validate_report_def act_iffs)
  have dl: "aloof (st_download_stream st (rs_object_bucket src) (rs_object_key src))" using st by (simp add: aloof_storage_def)
  have d2: "w_db w2 = w_db w" using aloof_Inr(1) [OF dl w2] aloof_Inr(1) [OF al w1] by simp
  let ?w3 = "w2\<lparr>vb_staging_batch := [], vb_error_batch := []\<rparr>"
  obtain s w4 u5 w5 u6 w6 u7 w7 u8 w8 where
    w4: "validate_csv_stream (writer_callbacks st ?rid n alive) lim chunks ?w3 = (Inr s, w4)"
    and w5: "flush_all ?rid alive w4 = (Inr u5, w5)" and w6: "alive w5 = (Inr u6, w6)"
    and w7: "transaction (execute (insert_duplicate_errors ?rid (duplicate_raw_value_chars lim))) w6 = (Inr u7, w7)"
    and w8: "alive w7 = (Inr u8, w8)" and cv: "conclude_validation ?rid alive s w8 = (Inr out, w')"
    using vc by (auto simp: validate_chunks_def new_writer_def act_iffs)
  obtain items where out: "csv_outcome lim (stream_text chunks) = (items, Inr s)"
    and w4': "rows_in ?rid w4 = run_rows ?rid items" "issues_in ?rid w4 = reported_issues items"
    using validate_stream_Inr [OF al st w4] d2 fresh by (auto simp: rows_in_def issues_in_def run_rows_def)
  have d6: "staged (w_db w6) ?rid = run_rows ?rid items" "map issue_of (errors_of (w_db w6) ?rid) = reported_issues items"
    using flush_all_Inr [OF al w5] w4' aloof_Inr(1) [OF al w6] by simp_all
  from transaction_execute_Inr [OF w7] obtain now sq sq' where
    ins: "insert_errors ?rid (map (duplicate_issue (duplicate_raw_value_chars lim)) (duplicate_rows (w_db w6) ?rid)) now (w_db w6) sq
      = Some (w_db w7, sq')" and ok7: "constraints_ok (w_db w7)"
    unfolding insert_duplicate_errors_def by blast
  have dup: "duplicate_rows (w_db w6) ?rid = duplicates_in (run_rows ?rid items)"
    by (simp add: duplicate_rows_def duplicates_in_def d6(1))
  have d8: "staged (w_db w8) ?rid = run_rows ?rid items" "map issue_of (errors_of (w_db w8) ?rid) = run_issues lim ?rid items"
    "constraints_ok (w_db w8)"
    using insert_errors_of [OF ins] d6 aloof_Inr(1) [OF al w8] ok7 by (simp_all add: run_issues_def dup)
  have "find_report ?rid (w_db w8) = Some r"
  proof -
    note same = on_tables_def same_reports_def
    have "moves (on_tables same_reports) alive" using aloof_silent [OF al] by auto
    note m = this unreported.moves_flush(3) [OF this] unreported.moves_writing [OF this st]
    have "db_reports (w_db w4) = db_reports (w_db w)"
      using movesD [OF m(3) w4] d2 by (simp add: same)
    moreover have "db_reports (w_db w5) = db_reports (w_db w4)" using movesD [OF m(2) w5] by (simp add: same)
    moreover have "db_reports (w_db w7) = db_reports (w_db w6)"
      using movesD [OF unreported.moves_insert_duplicates w7] by (simp add: same)
    ultimately have "db_reports (w_db w8) = db_reports (w_db w)"
      using aloof_Inr(1) [OF al w6] aloof_Inr(1) [OF al w8] by simp
    with r(1) show ?thesis by (simp add: find_report_def)
  qed
  moreover have "len (errors_of (w_db w8) ?rid) = len (run_issues lim ?rid items)"
    using arg_cong [OF d8(2), of length] by simp
  ultimately have "concluded lim ?rid r items s out (w_db w')"
    using conclude_validation_Inr [OF al cv d8(3) _ r(2)] d8(1,2)
    unfolding concluded_def by (cases "errors_of (w_db w8) ?rid = []") auto
  with w1 w2 out show ?thesis by blast
qed

end
