(* ===== verification/ReadyReports.thy ===== *)
theory ReadyReports
  imports ValidationRun
begin

text \<open>
  The invariant that carries an application: a report whose validation is complete has no duplicate
  pairs. It holds after every cycle, also one that broke off anywhere.
\<close>

definition ready_ok :: "db \<Rightarrow> bool" where
  "ready_ok d \<longleftrightarrow> (\<forall>r \<in> set (db_reports d). ready d r \<longrightarrow> no_duplicates (staged d (rp_id r)))"

text \<open>The part of it that concerns one report.\<close>

definition ready_ok_at :: "int \<Rightarrow> db \<Rightarrow> bool" where
  "ready_ok_at rid d \<longleftrightarrow>
     (\<forall>r \<in> set (db_reports d). rp_id r = rid \<longrightarrow> ready d r \<longrightarrow> no_duplicates (staged d rid))"

definition settled :: "int \<Rightarrow> db \<Rightarrow> bool" where
  "settled rid d \<longleftrightarrow> (\<forall>r \<in> set (db_reports d). rp_id r = rid \<longrightarrow> rp_status r \<noteq> Processing \<or> rp_row_count r \<le> 0)"

lemma settled_ready: "settled rid d \<Longrightarrow> ready_ok_at rid d"
  by (auto simp: settled_def ready_ok_at_def ready_def)

lemma ready_ok_all: "ready_ok d \<longleftrightarrow> (\<forall>rid. ready_ok_at rid d)"
  by (auto simp: ready_ok_def ready_ok_at_def)

definition others_rows :: "int \<Rightarrow> db \<Rightarrow> db \<Rightarrow> bool" where
  "others_rows rid d d' \<longleftrightarrow>
     filter (\<lambda>r. rp_id r \<noteq> rid) (db_reports d') = filter (\<lambda>r. rp_id r \<noteq> rid) (db_reports d)
     \<and> filter (\<lambda>s. sg_report_id s \<noteq> rid) (db_staging d') = filter (\<lambda>s. sg_report_id s \<noteq> rid) (db_staging d)
     \<and> filter (\<lambda>e. er_report_id e \<noteq> rid) (db_errors d') = filter (\<lambda>e. er_report_id e \<noteq> rid) (db_errors d)"

lemma others_rowsI: "others_kept rid d sq d' sq' \<Longrightarrow> others_rows rid d d'"
  by (simp add: others_kept_def others_rows_def)

lemma filter_other:
  assumes "filter (\<lambda>x. f x \<noteq> a) xs = filter (\<lambda>x. f x \<noteq> a) ys" and "b \<noteq> a"
  shows "filter (\<lambda>x. f x = b) xs = filter (\<lambda>x. f x = b) ys"
proof -
  have "filter (\<lambda>x. f x = b) zs = filter (\<lambda>x. f x = b) (filter (\<lambda>x. f x \<noteq> a) zs)" for zs
    using assms(2) by (auto intro: filter_cong)
  then show ?thesis using assms(1) by metis
qed

lemma ready_ok_others:
  assumes "others_rows rid d d'" and "ready_ok d" and "ready_ok_at rid d'"
  shows "ready_ok d'"
  unfolding ready_ok_all
proof
  fix i
  show "ready_ok_at i d'"
  proof (cases "i = rid")
    case False
    have st: "staged d' i = staged d i" and er: "errors_of d' i = errors_of d i"
      unfolding staged_def errors_of_def
      by (rule filter_other [OF _ False], use assms(1) in \<open>simp add: others_rows_def\<close>)+
    have "r \<in> set (db_reports d)" if "r \<in> set (db_reports d')" "rp_id r = i" for r
    proof -
      have "r \<in> set (filter (\<lambda>r. rp_id r \<noteq> rid) (db_reports d'))" using that False by simp
      then have "r \<in> set (filter (\<lambda>r. rp_id r \<noteq> rid) (db_reports d))"
        using assms(1) unfolding others_rows_def by simp
      then show ?thesis by simp
    qed
    then show ?thesis using assms(2) st er by (auto simp: ready_ok_def ready_ok_at_def ready_def)
  qed (use assms(3) in simp)
qed

subsection \<open>Failing a report settles it\<close>

lemma update_settles:
  assumes "update_reports (of_processing rid) change now d sq = Some (d', sq')"
    and "\<And>now r. rp_id (change now r) = rp_id r" and "\<And>now r. rp_status (change now r) = Failed"
  shows "settled rid d'"
proof -
  have "d' = d\<lparr>db_reports := map (\<lambda>r. if of_processing rid r then change now r else r) (db_reports d)\<rparr>"
    using assms(1) by (simp add: update_reports_def)
  then have reps: "db_reports d' = map (\<lambda>r. if of_processing rid r then change now r else r) (db_reports d)" by simp
  have "rp_status r' \<noteq> Processing" if r': "r' \<in> set (db_reports d')" "rp_id r' = rid" for r'
  proof -
    from r'(1) obtain r where r: "r' = (if of_processing rid r then change now r else r)"
      unfolding reps set_map by (rule imageE)
    show ?thesis
    proof (cases "of_processing rid r")
      case True
      then have "rp_status r' = Failed" using r assms(3) by simp
      then show ?thesis by simp
    next
      case False
      then have "r' = r" using r by simp
      with False r'(2) show ?thesis by (simp add: of_processing_def)
    qed
  qed
  then show ?thesis by (simp add: settled_def)
qed

lemma mark_settles:
  "mark_processing_failed rid w = (res, w') \<Longrightarrow> w_db w' = w_db w \<or> settled rid (w_db w')"
  "mark_apply_failed rid w = (res, w') \<Longrightarrow> w_db w' = w_db w \<or> settled rid (w_db w')"
proof -
  have body: "settled rid (w_db w1)"
    if run: "then_act (execute (delete_staging rid)) (then_act (execute (insert_errors rid issues))
        (bind_act (query (stored_error_count rid)) (\<lambda>n. execute (update_reports (of_processing rid) (change n))))) w0
      = (Inr u, w1)"
      and c: "\<And>n now r. rp_id (change n now r) = rp_id r" "\<And>n now r. rp_status (change n now r) = Failed"
    for issues u w0 w1 and change :: "int \<Rightarrow> int \<Rightarrow> report \<Rightarrow> report"
  proof -
    obtain n w2 where "execute (update_reports (of_processing rid) (change n)) w2 = (Inr u, w1)"
      using run by (auto simp: act_iffs)
    from execute_Inr [OF this] obtain now d sq sq' where
      "update_reports (of_processing rid) (change n) now d sq = Some (w_db w1, sq')" by blast
    then show ?thesis by (rule update_settles) (simp_all add: c)
  qed
  have tr: "w_db w' = w_db w \<or> settled rid (w_db w')"
    if "transaction body w = (res, w')" and "\<And>w0 u w1. body w0 = (Inr u, w1) \<Longrightarrow> settled rid (w_db w1)"
    for body :: "('a, unit) proc"
    using that(1) transaction_Inl [of body w _ w'] transaction_Inr [of body w _ w'] that(2)
    by (cases res) fastforce+
  show "mark_processing_failed rid w = (res, w') \<Longrightarrow> w_db w' = w_db w \<or> settled rid (w_db w')"
    unfolding mark_processing_failed_def
    by (erule tr, erule body) (simp_all add: processing_failed_def)
  show "mark_apply_failed rid w = (res, w') \<Longrightarrow> w_db w' = w_db w \<or> settled rid (w_db w')"
    unfolding mark_apply_failed_def
    by (erule tr, erule body) (simp_all add: apply_failed_def)
qed

subsection \<open>Validation\<close>

lemma transaction_any:
  assumes "transaction body w = (res, w')"
  shows "w_db w' = w_db w \<or>
    (\<exists>a w1. body (w\<lparr>w_now := env_time (w_env w) (w_tick w)\<rparr>) = (Inr a, w1) \<and> w_db w' = w_db w1)"
  using assms transaction_Inl [of body w _ w'] transaction_Inr [of body w _ w'] by (cases res) fastforce+

lemma silent_db: "silent m \<Longrightarrow> m w = (r, w') \<Longrightarrow> w_db w' = w_db w"
  using at_self [of w] unfolding silent_def at_def by (metis snd_conv)

text \<open>
  The verdict leaves the tables, marks the report failed, or records the row count of a report
  without stored issues.
\<close>

lemma conclude_validation_any:
  assumes "silent alive" and "conclude_validation rid alive s w = (res, w')"
  shows "w_db w' = w_db w \<or> settled rid (w_db w') \<or>
    (errors_of (w_db w) rid = [] \<and> staged (w_db w') rid = staged (w_db w) rid)"
proof (cases "count_errors rid w")
  case (Pair r1 w1)
  have d1: "w_db w1 = w_db w"
    using transaction_any [of "query (stored_error_count rid)" w r1 w1] Pair
    by (auto simp: count_errors_def dest!: query_db)
  have alive: "w_db v' = w_db v" if "alive v = (x, v')" for v x v' using silent_db [OF assms(1) that] .
  show ?thesis
  proof (cases r1)
    case (Inl e)
    with assms(2) Pair d1 show ?thesis by (simp add: conclude_validation_def act_simps)
  next
    case (Inr n)
    have n: "n = len (errors_of (w_db w) rid)"
      using count_errors_Inr [of rid w n w1] Pair Inr by (simp add: stored_error_count_def)
    obtain r2 w2 where w2: "alive w1 = (r2, w2)" by fastforce
    show ?thesis
    proof (cases "n = 0")
      case True
      have "w_db w' = w_db w \<or> w_db w' = w_db w2 \<or> (\<exists>r3. transaction (execute (update_reports (of_processing rid)
          (validated (s_row_count s)))) w2 = (r3, w'))"
        using assms(2) Pair Inr True w2 d1
        by (auto simp: conclude_validation_def act_simps split: if_splits sum.splits prod.splits)
      then consider "w_db w' = w_db w" | r3 where "transaction (execute (update_reports (of_processing rid)
          (validated (s_row_count s)))) w2 = (r3, w')"
        using alive [OF w2] d1 by metis
      then show ?thesis
      proof cases
        case (2 r3)
        from transaction_any [OF 2] consider "w_db w' = w_db w2"
          | now sq sq' where "update_reports (of_processing rid) (validated (s_row_count s)) now (w_db w2) sq = Some (w_db w', sq')"
          by (auto dest!: execute_Inr)
        then show ?thesis
        proof cases
          case (2 now sq sq')
          from update_reports_frame [OF 2] True n alive [OF w2] d1 show ?thesis by (simp add: staged_def)
        qed (use alive [OF w2] d1 in simp)
      qed simp
    next
      case False
      have "w_db w' = w_db w2 \<or> (\<exists>r3. finalize_validation_failure rid (s_row_count s) n w2 = (r3, w'))"
        using assms(2) Pair Inr False w2
        by (auto simp: conclude_validation_def act_simps split: sum.splits prod.splits)
      then consider "w_db w' = w_db w" | r3 where "finalize_validation_failure rid (s_row_count s) n w2 = (r3, w')"
        using alive [OF w2] d1 by metis
      then show ?thesis
      proof cases
        case (2 r3)
        from transaction_any [OF 2 [unfolded finalize_validation_failure_def]]
        consider "w_db w' = w_db w2" | now d sq sq' where
          "update_reports (of_processing rid) (validation_failed (s_row_count s) n) now d sq = Some (w_db w', sq')"
          by (auto simp: act_iffs dest!: execute_Inr)
        then show ?thesis
        proof cases
          case (2 now d sq sq')
          from update_settles [OF 2] show ?thesis by (simp add: validation_failed_def)
        qed (use alive [OF w2] d1 in simp)
      qed simp
    qed
  qed
qed

text \<open>Through the whole of \<open>validate\<close>, from a settled report, whatever happens.\<close>

definition readies :: "int \<Rightarrow> ('x, 'a) proc \<Rightarrow> bool" where
  "readies rid m \<longleftrightarrow> (\<forall>w r w'. settled rid (w_db w) \<longrightarrow> m w = (r, w') \<longrightarrow> ready_ok_at rid (w_db w'))"

lemma settled_same: "moves (on_tables same_reports) m \<Longrightarrow> m w = (r, w') \<Longrightarrow> settled rid (w_db w) \<Longrightarrow> settled rid (w_db w')"
  using movesD [of "on_tables same_reports" m w r w'] by (simp add: on_tables_def same_reports_def settled_def)

lemma readies_bind:
  assumes "moves (on_tables same_reports) m" and "\<And>a. readies rid (f a)"
  shows "readies rid (bind_act m f)"
  unfolding readies_def
proof (intro allI impI)
  fix w r w'
  assume s: "settled rid (w_db w)" and run: "bind_act m f w = (r, w')"
  obtain r1 w1 where m: "m w = (r1, w1)" by fastforce
  have s1: "settled rid (w_db w1)" by (rule settled_same [OF assms(1) m s])
  show "ready_ok_at rid (w_db w')"
  proof (cases r1)
    case (Inl e)
    with run m s1 show ?thesis by (simp add: act_simps settled_ready)
  next
    case (Inr a)
    with run m have "f a w1 = (r, w')" by (simp add: act_simps)
    with assms(2) [of a] s1 show ?thesis unfolding readies_def by blast
  qed
qed

lemma readies_then: "moves (on_tables same_reports) m \<Longrightarrow> readies rid n \<Longrightarrow> readies rid (then_act m n)"
  by (simp add: then_act_def readies_bind)

lemma readies_verdict:
  assumes al: "aloof alive"
  shows "readies rid (then_act (transaction (execute (insert_duplicate_errors rid k)))
      (then_act alive (conclude_validation rid alive s)))"
  unfolding readies_def
proof (intro allI impI)
  fix w r w'
  assume s: "settled rid (w_db w)" and run: "then_act (transaction (execute (insert_duplicate_errors rid k)))
      (then_act alive (conclude_validation rid alive s)) w = (r, w')"
  obtain r1 w1 where m: "transaction (execute (insert_duplicate_errors rid k)) w = (r1, w1)" by fastforce
  have s1: "settled rid (w_db w1)" by (rule settled_same [OF unreported.moves_insert_duplicates m s])
  show "ready_ok_at rid (w_db w')"
  proof (cases r1)
    case (Inl e)
    with run m s1 show ?thesis by (simp add: act_simps settled_ready)
  next
    case (Inr a)
    from transaction_execute_Inr [OF m [unfolded Inr]] obtain now sq sq' where
      ins: "insert_errors rid (map (duplicate_issue k) (duplicate_rows (w_db w) rid)) now (w_db w) sq = Some (w_db w1, sq')"
      and ok: "constraints_ok (w_db w1)" unfolding insert_duplicate_errors_def by blast
    obtain r2 w2 where w2: "alive w1 = (r2, w2)" by fastforce
    have d2: "w_db w2 = w_db w1" by (rule aloof_Inr(1) [OF al w2])
    have nd: "no_duplicates (staged (w_db w2) rid)" if "errors_of (w_db w2) rid = []"
    proof -
      have "duplicate_rows (w_db w) rid = []" "staged (w_db w1) rid = staged (w_db w) rid"
        using insert_errors_of [OF ins] that d2 by auto
      then have "duplicates_in (staged (w_db w2) rid) = []"
        by (simp add: duplicate_rows_def duplicates_in_def d2)
      with staged_lines_distinct [of "w_db w2" rid] ok d2 show ?thesis by (simp add: no_duplicates_rank)
    qed
    show ?thesis
    proof (cases r2)
      case (Inl e)
      with run m \<open>r1 = Inr a\<close> w2 d2 s1 show ?thesis by (simp add: act_simps settled_ready)
    next
      case (Inr b)
      with run m \<open>r1 = Inr a\<close> w2 have cv: "conclude_validation rid alive s w2 = (r, w')" by (simp add: act_simps)
      show ?thesis
        using conclude_validation_any [OF aloof_silent [OF al] cv] s1 d2 nd settled_ready [of rid "w_db w'"]
        by (auto simp: settled_ready ready_ok_at_def)
    qed
  qed
qed

lemma readies_validate_report:
  assumes al: "aloof alive" and st: "aloof_storage st"
  shows "readies (rs_id src) (validate_report st lim n src alive)"
proof -
  have a: "moves (on_tables same_reports) alive" using aloof_silent [OF al] by auto
  have nw: "moves (on_tables same_reports) new_writer"
    by (simp add: new_writer_def moves_def on_tables_def same_reports_def)
  have dl: "moves (on_tables same_reports) (st_download_stream st b k)" for b k
    using aloof_storageD(1) [OF st] by auto
  have "readies (rs_id src) (validate_chunks st lim n (rs_id src) alive chunks)" for chunks
    unfolding validate_chunks_def
    by (intro readies_then readies_bind a nw unreported.moves_writing [OF a st] unreported.moves_flush(3) [OF a]
        readies_verdict al)
  then show ?thesis
    unfolding validate_report_def by (intro readies_then readies_bind a dl)
qed

lemma readies_process_validation:
  assumes al: "aloof alive" and st: "aloof_storage st"
  shows "readies (rs_id src) (process_validation st lim n alive src)"
  unfolding readies_def
proof (intro allI impI)
  fix w r w'
  assume s: "settled (rs_id src) (w_db w)" and run: "process_validation st lim n alive src w = (r, w')"
  obtain r1 w1 where v: "validate_report st lim n src alive w = (r1, w1)" by fastforce
  have ok1: "ready_ok_at (rs_id src) (w_db w1)"
    using readies_validate_report [OF al st, of src lim n] s v unfolding readies_def by blast
  show "ready_ok_at (rs_id src) (w_db w')"
  proof (cases "\<exists>e. r1 = Inl e \<and> e \<noteq> LockConnectionLost")
    case False
    with run v ok1 show ?thesis by (cases r1) (auto simp: process_validation_def act_simps)
  next
    case True
    obtain r2 w2 where w2: "alive w1 = (r2, w2)" by fastforce
    have d2: "w_db w2 = w_db w1" by (rule aloof_Inr(1) [OF al w2])
    obtain r3 w3 where w3: "mark_processing_failed (rs_id src) w2 = (r3, w3)" by fastforce
    have "w_db w' = w_db w2 \<or> w_db w' = w_db w3"
      using run v True w2 w3 by (auto simp: process_validation_def act_simps split: sum.splits)
    with ok1 d2 mark_settles(1) [OF w3] settled_ready [of "rs_id src" "w_db w3"] show ?thesis by metis
  qed
qed

subsection \<open>Claiming and applying\<close>

lemma claimed_settled: "settled (rp_id r) (claimed_db now r d)"
  by (auto simp: settled_def claimed_db_def claimed_def)

lemma claimed_others: "others_rows (rp_id r) d (claimed_db now r d)"
proof -
  have "filter (\<lambda>r'. rp_id r' \<noteq> rp_id r) (map (\<lambda>r'. if rp_id r' = rp_id r then claimed now r' else r') rs)
      = filter (\<lambda>r'. rp_id r' \<noteq> rp_id r) rs" for rs
    by (rule filter_update_others) (simp add: claimed_def)
  then show ?thesis by (simp add: others_rows_def claimed_db_def)
qed

lemma ready_ok_claim: "ready_ok d \<Longrightarrow> ready_ok (snd (claim_result now d))"
  using ready_ok_others [OF claimed_others _ settled_ready [OF claimed_settled]]
  by (auto simp: claim_result_def split: option.split)

lemma applied_others:
  assumes "applied rid now d d' c"
  shows "others_rows rid d d'"
  using appliedD [OF assms] by (simp add: others_rows_def filter_update_others)

lemma applied_settled: "applied rid now d d' c \<Longrightarrow> settled rid d'"
  by (auto simp: settled_def appliedD(2) complete_report_def split: prod.splits)

lemma mark_others:
  "mark_processing_failed rid w = (res, w') \<Longrightarrow> others_rows rid (w_db w) (w_db w')"
  "mark_apply_failed rid w = (res, w') \<Longrightarrow> others_rows rid (w_db w) (w_db w')"
  using movesD [OF own.moves_mark_failed(1), of rid w res w'] movesD [OF own.moves_mark_failed(2), of rid w res w']
  by (auto simp: on_tables_def intro: others_rowsI)

text \<open>A ready report is the next one: its application is an application without duplicates.\<close>

lemma claim_ready:
  assumes "claim_or_recover_next_report w = (Inr (Some src, True), w')"
  shows "\<exists>r. next_report (w_db w) = Some r \<and> rs_id src = rp_id r \<and> ready (w_db w) r \<and> w_db w' = w_db w"
  using claim_Inr [OF assms]
  by (auto simp: claim_result_def report_source_of_def split: option.splits if_splits)

lemma claim_fresh:
  assumes "claim_or_recover_next_report w = (Inr (Some src, False), w')"
  shows "\<exists>r now. next_report (w_db w) = Some r \<and> src = report_source_of r \<and> \<not> ready (w_db w) r
    \<and> w_db w' = claimed_db now r (w_db w)"
  using claim_Inr [OF assms]
  by (auto simp: claim_result_def split: option.splits if_splits)

lemma ready_no_duplicates:
  assumes "ready_ok d" and "next_report d = Some r" and "ready d r"
  shows "no_duplicates (staged d (rp_id r))"
  using assms next_report_Some [OF assms(2)] by (auto simp: ready_ok_def)

context apply_guards begin

lemma process_apply_ready_ok:
  assumes ok: "world_ok w" "ready_ok (w_db w)" and nd: "no_duplicates (staged (w_db w) rid)"
    and run: "process_apply after_step assert_lock_alive rid w = (res, w')"
  shows "ready_ok (w_db w')"
proof -
  obtain r1 w1 where a: "apply_report after_step rid assert_lock_alive w = (r1, w1)" by fastforce
  have ok1: "ready_ok (w_db w1)"
  proof -
    have "w_db w1 = w_db w \<or> (\<exists>now c. applied rid now (w_db w) (w_db w1) c)"
    proof (cases r1)
      case (Inl e)
      from apply_report_Inl [OF ok(1) nd a [unfolded Inl]] show ?thesis by blast
    next
      case (Inr x)
      from apply_report_Inr [OF ok(1) nd a [unfolded Inr]] show ?thesis by blast
    qed
    then show ?thesis
      using ok(2) ready_ok_others [OF applied_others _ settled_ready [OF applied_settled]] by metis
  qed
  obtain r2 w2 where w2: "assert_lock_alive w1 = (r2, w2)" by fastforce
  have d2: "w_db w2 = w_db w1" by (rule silent_db [OF silent_alive w2])
  obtain r3 w3 where w3: "mark_apply_failed rid w2 = (r3, w3)" by fastforce
  have "w_db w' = w_db w1 \<or> w_db w' = w_db w3"
    using run a w2 w3 d2 by (auto simp: process_apply_def act_simps split: sum.splits if_splits)
  moreover have "ready_ok (w_db w3)"
  proof -
    from mark_settles(2) [OF w3] consider "w_db w3 = w_db w2" | "settled rid (w_db w3)" by blast
    then show ?thesis
    proof cases
      case 2
      from ready_ok_others [OF mark_others(2) [OF w3] _ settled_ready [OF 2]] ok1 d2 show ?thesis by simp
    qed (use ok1 d2 in simp)
  qed
  ultimately show ?thesis using ok1 by auto
qed

end

lemma cycle_as_report:
  assumes "process_next_report granted storage lim n hook w = (res, w')"
  shows "w_db w' = w_db w \<and> (res = Inr LOCK_NOT_ACQUIRED \<or> res = Inl DatabaseErr)
    \<or> (\<exists>w2. process_report storage lim n hook ensure_lock_connection_alive (tick (tick w)) = (res, w2) \<and> w_db w' = w_db w2)"
  using assms
  by (auto simp: process_next_report_def connect_def try_advisory_lock_def release_lock_def act_simps query_def
      split: if_splits prod.splits sum.splits)

context cycle_parts begin

lemma process_validation_ready_ok:
  assumes "ready_ok (w_db w)" and "settled (rs_id src) (w_db w)"
    and run: "process_validation storage lim n ensure_lock_connection_alive src w = (res, w')"
  shows "ready_ok (w_db w')"
proof (rule ready_ok_others [of "rs_id src" "w_db w"])
  have "moves (on_tables (others_kept (rs_id src))) (process_validation storage lim n ensure_lock_connection_alive src)"
    by (rule own.moves_process_validation [OF _ quiet_storage]) simp_all
  from movesD [OF this run] show "others_rows (rs_id src) (w_db w) (w_db w')"
    by (auto simp: on_tables_def intro: others_rowsI)
  show "ready_ok_at (rs_id src) (w_db w')"
    using readies_process_validation [OF aloof_lock_check quiet_storage, of src lim n] assms(2) run
    unfolding readies_def by blast
qed (rule assms(1))

lemma process_report_ready_ok:
  assumes ok: "world_ok w" "ready_ok (w_db w)"
    and run: "process_report storage lim n hook ensure_lock_connection_alive w = (res, w')"
  shows "ready_ok (w_db w')"
proof -
  obtain r1 w1 where c: "claim_or_recover_next_report w = (r1, w1)" by fastforce
  have ok1: "ready_ok (w_db w1)"
    using claim_db [OF c] ok(2) ready_ok_claim [OF ok(2)] by auto
  have wok1: "world_ok w1"
    using movesD [OF living_claim c] ok(1) by (simp add: on_tables_def living_def world_ok_def)
  show ?thesis
  proof (cases r1)
    case (Inl e)
    with run c ok1 show ?thesis by (simp add: process_report_def act_simps)
  next
    case (Inr x)
    obtain src ready_for_apply where x: "x = (src, ready_for_apply)" by fastforce
    show ?thesis
    proof (cases src)
      case None
      with run c ok1 Inr x show ?thesis by (simp add: process_report_def act_simps)
    next
      case (Some source)
      show ?thesis
      proof (cases ready_for_apply)
        case True
        from claim_ready [of w source w1] c Inr x Some True obtain r where
          r: "next_report (w_db w) = Some r" "rs_id source = rp_id r" "ready (w_db w) r" "w_db w1 = w_db w" by auto
        from ready_no_duplicates [OF ok(2) r(1,3)] r(2,4) have "no_duplicates (staged (w_db w1) (rs_id source))" by simp
        from process_apply_ready_ok [OF wok1 ok1 this] run c Inr x Some True show ?thesis
          by (simp add: process_report_def act_simps)
      next
        case False
        from claim_fresh [of w source w1] c Inr x Some False obtain r now where
          "source = report_source_of r" "w_db w1 = claimed_db now r (w_db w)" by auto
        then have "settled (rs_id source) (w_db w1)" using claimed_settled by (simp add: report_source_of_def)
        from process_validation_ready_ok [OF ok1 this] run c Inr x Some False show ?thesis
          by (simp add: process_report_def act_simps)
      qed
    qed
  qed
qed

lemma cycle_ready_ok:
  assumes "world_ok w" "ready_ok (w_db w)" and "process_next_report granted storage lim n hook w = (res, w')"
  shows "ready_ok (w_db w')"
  using cycle_as_report [OF assms(3)] process_report_ready_ok [of "tick (tick w)"] assms(1,2)
  by (auto simp: world_ok_def)

end

subsection \<open>What a cycle's run consists of\<close>

text \<open>A run of \<open>process\<close> is a claim, then nothing, an application or a validation.\<close>

lemma process_report_cases:
  assumes "process_report storage lim n hook alive w = (res, w')"
  obtains (claim_failed) e where "claim_or_recover_next_report w = (Inl e, w')" "res = Inl e"
    | (idle) "next_report (w_db w) = None" "res = Inr NO_REPORT" "w_db w' = w_db w"
    | (applying) r w1 where "next_report (w_db w) = Some r" "ready (w_db w) r" "w_db w1 = w_db w"
        "claim_or_recover_next_report w = (Inr (Some (report_source_of r), True), w1)"
        "process_apply hook alive (rp_id r) w1 = (res, w')"
    | (validating) r w1 now where "next_report (w_db w) = Some r" "\<not> ready (w_db w) r" "w_db w1 = claimed_db now r (w_db w)"
        "claim_or_recover_next_report w = (Inr (Some (report_source_of r), False), w1)"
        "process_validation storage lim n alive (report_source_of r) w1 = (res, w')"
proof (cases "claim_or_recover_next_report w")
  case (Pair r1 w1)
  show ?thesis
  proof (cases r1)
    case (Inl e)
    with assms Pair show ?thesis by (intro claim_failed) (auto simp: process_report_def act_simps)
  next
    case (Inr x)
    note c = claim_Inr [OF Pair [unfolded Inr]]
    show ?thesis
    proof (cases "next_report (w_db w)")
      case None
      with c assms Pair Inr show ?thesis
        by (intro idle) (auto simp: claim_result_def process_report_def act_simps)
    next
      case (Some r)
      have id: "rs_id (report_source_of r) = rp_id r" by (simp add: report_source_of_def)
      show ?thesis
      proof (cases "ready (w_db w) r")
        case True
        with c Some have x: "x = (Some (report_source_of r), True)" "w_db w1 = w_db w" by (simp_all add: claim_result_def)
        show ?thesis
          by (rule applying [OF Some True x(2)])
            (use assms Pair Inr x(1) id in \<open>simp_all add: process_report_def act_simps\<close>)
      next
        case False
        with c Some have x: "x = (Some (report_source_of r), False)"
          "w_db w1 = claimed_db (env_time (w_env w) (w_tick w)) r (w_db w)" by (simp_all add: claim_result_def)
        show ?thesis
          by (rule validating [OF Some False x(2)])
            (use assms Pair Inr x(1) in \<open>simp_all add: process_report_def act_simps\<close>)
      qed
    qed
  qed
qed

lemma process_apply_verdict:
  assumes "process_apply hook alive rid w = (Inr outcome, w')"
  shows "(outcome = COMPLETED \<and> (\<exists>res. apply_report hook rid alive w = (Inr res, w')))
    \<or> (outcome = PROCESSING_FAILED \<and> (\<exists>e w1 u w2 v. apply_report hook rid alive w = (Inl e, w1) \<and> alive w1 = (Inr u, w2)
          \<and> mark_apply_failed rid w2 = (Inr v, w')))"
proof (cases "apply_report hook rid alive w")
  case (Pair r1 w1)
  show ?thesis
  proof (cases r1)
    case (Inr res)
    with assms Pair show ?thesis by (simp add: process_apply_def act_simps)
  next
    case (Inl e)
    obtain r2 w2 r3 w3 where w2: "alive w1 = (r2, w2)" "mark_apply_failed rid w2 = (r3, w3)" by fastforce
    from assms Pair Inl w2 show ?thesis
      by (cases r2; cases r3) (simp_all add: process_apply_def act_simps split: if_splits)
  qed
qed

lemma process_validation_verdict:
  assumes "process_validation storage lim n alive src w = (Inr outcome, w')"
  shows "validate_report storage lim n src alive w = (Inr outcome, w')
    \<or> (outcome = PROCESSING_FAILED \<and> (\<exists>e w1 u w2 v. validate_report storage lim n src alive w = (Inl e, w1)
          \<and> alive w1 = (Inr u, w2) \<and> mark_processing_failed (rs_id src) w2 = (Inr v, w')))"
proof (cases "validate_report storage lim n src alive w")
  case (Pair r1 w1)
  show ?thesis
  proof (cases r1)
    case (Inr res)
    with assms Pair show ?thesis by (simp add: process_validation_def act_simps)
  next
    case (Inl e)
    obtain r2 w2 r3 w3 where w2: "alive w1 = (r2, w2)" "mark_processing_failed (rs_id src) w2 = (r3, w3)" by fastforce
    from assms Pair Inl w2 show ?thesis
      by (cases r2; cases r3) (simp_all add: process_validation_def act_simps split: if_splits)
  qed
qed

lemma conclude_outcome:
  assumes "validate_report storage lim n src alive w = (Inr outcome, w')"
  shows "outcome = VALIDATED \<or> outcome = VALIDATION_FAILED"
proof -
  have "outcome = VALIDATED \<or> outcome = VALIDATION_FAILED"
    if "conclude_validation rid alive s v = (Inr outcome, w')" for rid s v
    using that by (auto simp: conclude_validation_def act_iffs ret_def throw_def split: if_splits)
  then show ?thesis using assms by (auto simp: validate_report_def validate_chunks_def act_iffs)
qed

text \<open>Following one report through its life, and what marking it as failed leaves.\<close>

lemma progress_find:
  assumes "progress d sq d' sq'" and "find_report rid d = Some r"
  shows "\<exists>r'. find_report rid d' = Some r' \<and> report_step r r'"
proof -
  have "\<exists>r'. find (\<lambda>r. rp_id r = rid) rs' = Some r' \<and> report_step r r'"
    if "list_all2 report_step rs rs'" "find (\<lambda>r. rp_id r = rid) rs = Some r" for rs rs'
    using that
  proof (induction rule: list_all2_induct)
    case (Cons x xs y ys)
    have "rp_id y = rp_id x" using Cons.hyps(1) unfolding report_step_def by (elim conjE)
    show ?case
    proof (cases "rp_id x = rid")
      case True
      then have "r = x" using Cons.prems by simp
      with Cons.hyps(1) True \<open>rp_id y = rp_id x\<close> show ?thesis by (intro exI [of _ y]) simp
    next
      case False
      then have "find (\<lambda>r. rp_id r = rid) xs = Some r" using Cons.prems by simp
      from Cons.IH [OF this] False \<open>rp_id y = rp_id x\<close> show ?thesis by simp
    qed
  qed simp
  from this [OF assms(1) [unfolded progress_def] assms(2) [unfolded find_report_def]]
  show ?thesis unfolding find_report_def .
qed

definition marked :: "int \<Rightarrow> validation_issue \<Rightarrow> (int \<Rightarrow> int \<Rightarrow> report \<Rightarrow> report) \<Rightarrow> db \<Rightarrow> db \<Rightarrow> bool" where
  "marked rid issue change d d' \<longleftrightarrow> staged d' rid = []
     \<and> map issue_of (errors_of d' rid) = map issue_of (errors_of d rid) @ [issue]
     \<and> (\<exists>now. db_reports d' = map (\<lambda>r. if of_processing rid r then change (len (errors_of d' rid)) now r else r) (db_reports d))
     \<and> db_stocks d' = db_stocks d"

lemma update_reports_rows:
  "update_reports cond change now d sq = Some (d', sq') \<Longrightarrow>
     db_reports d' = map (\<lambda>r. if cond r then change now r else r) (db_reports d)"
  by (auto simp: update_reports_def)

lemma insert_errors_frame:
  "insert_errors rid issues now d sq = Some (d', sq') \<Longrightarrow>
     db_reports d' = db_reports d \<and> db_stocks d' = db_stocks d \<and> db_staging d' = db_staging d"
  by (auto simp: insert_errors_def)

lemma mark_body_Inr:
  assumes "then_act (execute (delete_staging rid)) (then_act (execute (insert_errors rid [issue]))
    (bind_act (query (stored_error_count rid)) (\<lambda>n. execute (update_reports (of_processing rid) (change n))))) w = (Inr u, w')"
  shows "marked rid issue change (w_db w) (w_db w')"
proof -
  obtain u1 w1 u2 w2 n w3 where
    w1: "execute (delete_staging rid) w = (Inr u1, w1)" and w2: "execute (insert_errors rid [issue]) w1 = (Inr u2, w2)"
    and w3: "query (stored_error_count rid) w2 = (Inr n, w3)"
    and w4: "execute (update_reports (of_processing rid) (change n)) w3 = (Inr u, w')"
    using assms by (auto simp: act_iffs)
  have d1: "w_db w1 = (w_db w)\<lparr>db_staging := filter (\<lambda>s. sg_report_id s \<noteq> rid) (db_staging (w_db w))\<rparr>"
    using execute_Inr [OF w1] by (auto simp: delete_staging_def)
  from execute_Inr [OF w2] obtain now sq sq' where i: "insert_errors rid [issue] now (w_db w1) sq = Some (w_db w2, sq')" by blast
  have d3: "w_db w3 = w_db w2" "n = len (errors_of (w_db w2) rid)"
    using query_Inr [OF w3] by (simp_all add: stored_error_count_def)
  from execute_Inr [OF w4] obtain now' sq1 sq1' where
    up: "update_reports (of_processing rid) (change n) now' (w_db w3) sq1 = Some (w_db w', sq1')" by blast
  note frame = update_reports_frame [OF up]
  have "staged (w_db w') rid = []" "errors_of (w_db w') rid = errors_of (w_db w2) rid"
    using frame d3(1) insert_errors_of [OF i] d1 by (simp_all add: staged_def errors_of_def)
  moreover have "map issue_of (errors_of (w_db w2) rid) = map issue_of (errors_of (w_db w) rid) @ [issue]"
    using insert_errors_of [OF i] d1 by (simp add: errors_of_def)
  moreover have "db_reports (w_db w2) = db_reports (w_db w)" "db_stocks (w_db w2) = db_stocks (w_db w)"
    using insert_errors_frame [OF i] d1 by simp_all
  moreover have "db_reports (w_db w') = map (\<lambda>r. if of_processing rid r then change n now' r else r) (db_reports (w_db w3))"
    using update_reports_rows [OF up] .
  ultimately show ?thesis unfolding marked_def using d3 frame by auto
qed

lemma mark_failed_Inr:
  "mark_processing_failed rid w = (Inr u, w') \<Longrightarrow>
     marked rid (failure_issue (lit ''processing_error'') (lit ''Report processing failed'')) processing_failed (w_db w) (w_db w')"
  "mark_apply_failed rid w = (Inr u, w') \<Longrightarrow>
     marked rid (failure_issue (lit ''apply_error'') (lit ''Atomic report apply failed'')) apply_failed (w_db w) (w_db w')"
  unfolding mark_processing_failed_def mark_apply_failed_def
  by (drule transaction_Inr, elim exE conjE, drule mark_body_Inr, simp)+

lemma marked_report:
  assumes "marked rid issue change d d'" and "find_report rid d = Some r"
    and "\<And>n now r. rp_id (change n now r) = rp_id r"
  shows "\<exists>now. find_report rid d' = Some (if rp_status r = Processing then change (len (errors_of d' rid)) now r else r)"
proof -
  from assms(1) obtain now where
    reps: "db_reports d' = map (\<lambda>r. if of_processing rid r then change (len (errors_of d' rid)) now r else r) (db_reports d)"
    unfolding marked_def by blast
  have "find (\<lambda>r. rp_id r = rid) (map (\<lambda>r. if of_processing rid r then change n now r else r) rs)
      = map_option (\<lambda>r. if rp_status r = Processing then change n now r else r) (find (\<lambda>r. rp_id r = rid) rs)" for n rs
    using assms(3) by (induction rs) (auto simp: of_processing_def)
  with assms(2) show ?thesis unfolding find_report_def reps by auto
qed

subsection \<open>The verdict of a cycle\<close>

text \<open>
  A cycle that ends validated or as a validation failure, with the worlds in which it has claimed the report
  (\<open>w3\<close>) and downloads its object (\<open>w1\<close>).
\<close>

lemma cycle_verdict:
  assumes "aloof_storage storage" and "world_ok w"
    and "process_next_report granted storage lim batch_size hook w = (Inr outcome, w')"
    and "outcome = VALIDATED \<or> outcome = VALIDATION_FAILED"
  shows "\<exists>r w3 w1 w2 chunks items s rows issues. next_report (w_db w) = Some r \<and> \<not> ready (w_db w) r
    \<and> claim_or_recover_next_report (tick (tick w)) = (Inr (Some (report_source_of r), False), w3)
    \<and> ensure_lock_connection_alive w3 = (Inr (), w1)
    \<and> st_download_stream storage (rp_object_bucket r) (rp_object_key r) w1 = (Inr chunks, w2)
    \<and> csv_outcome lim (decode_utf8_sig (concat chunks)) = (items, Inr s)
    \<and> rows = map (staging_values (rp_id r)) (delivered items)
    \<and> issues = reported_issues items @ map (duplicate_issue (duplicate_raw_value_chars lim))
        (filter (\<lambda>s. \<exists>t \<in> set rows. pair_key t = pair_key s \<and> sg_line_number t < sg_line_number s) rows)
    \<and> (if issues = [] then
         outcome = VALIDATED \<and> staged (w_db w') (rp_id r) = rows \<and> errors_of (w_db w') (rp_id r) = []
         \<and> (\<exists>now. find_report (rp_id r) (w_db w') = Some ((claimed now r)\<lparr>rp_row_count := s_row_count s\<rparr>))
       else
         outcome = VALIDATION_FAILED \<and> staged (w_db w') (rp_id r) = []
         \<and> map issue_of (errors_of (w_db w') (rp_id r)) = issues
         \<and> (\<exists>now now'. find_report (rp_id r) (w_db w')
               = Some (validation_failed (s_row_count s) (len issues) now' (claimed now r))))"
proof -
  obtain w4 where run: "process_report storage lim batch_size hook ensure_lock_connection_alive (tick (tick w)) = (Inr outcome, w4)"
    and d4: "w_db w' = w_db w4"
    using cycle_as_report [OF assms(3)] assms(4) by auto
  from run obtain r w3 now where cl: "claim_or_recover_next_report (tick (tick w)) = (Inr (Some (report_source_of r), False), w3)"
    and r: "next_report (w_db w) = Some r" "\<not> ready (w_db w) r" and w3: "w_db w3 = claimed_db now r (w_db w)"
    and pv: "process_validation storage lim batch_size ensure_lock_connection_alive (report_source_of r) w3 = (Inr outcome, w4)"
  proof (cases rule: process_report_cases)
    case (applying r w1)
    from process_apply_verdict [OF applying(5)] assms(4) show ?thesis by auto
  qed (use assms(4) that in auto)
  have id: "rs_id (report_source_of r) = rp_id r" "rs_object_bucket (report_source_of r) = rp_object_bucket r"
    "rs_object_key (report_source_of r) = rp_object_key r" by (simp_all add: report_source_of_def)
  have vr: "validate_report storage lim batch_size (report_source_of r) ensure_lock_connection_alive w3 = (Inr outcome, w4)"
    using process_validation_verdict [OF pv] assms(4) by auto
  have in_r: "r \<in> set (db_reports (w_db w))" "reports_ok (w_db w)"
    using next_report_Some [OF r(1)] assms(2) by (simp_all add: world_ok_def constraints_ok_def)
  have "find_report (rp_id r) (w_db w3) = Some (claimed now r)"
    using find_report_update [of "w_db w3" "rp_id r" "claimed now" "w_db w" "rp_id r"] find_report_in [OF in_r(2,1)] w3
    by (simp add: claimed_db_def claimed_def)
  moreover have "staged (w_db w3) (rp_id r) = []" "errors_of (w_db w3) (rp_id r) = []"
    by (simp_all add: w3 claimed_db_def staged_def errors_of_def)
  ultimately obtain w1 w2 chunks items s where
    al: "ensure_lock_connection_alive w3 = (Inr (), w1)"
    and dl: "st_download_stream storage (rp_object_bucket r) (rp_object_key r) w1 = (Inr chunks, w2)"
    and out: "csv_outcome lim (decode_utf8_sig (concat chunks)) = (items, Inr s)"
    and conc: "concluded lim (rp_id r) (claimed now r) items s outcome (w_db w4)"
    using validate_report_Inr [OF aloof_lock_check assms(1) _ _ _ _ vr] by (auto simp: id stream_text_decode claimed_def)
  let ?rows = "map (staging_values (rp_id r)) (delivered items)"
  have issues: "run_issues lim (rp_id r) items = reported_issues items @ map (duplicate_issue (duplicate_raw_value_chars lim))
        (filter (\<lambda>s. \<exists>t \<in> set ?rows. pair_key t = pair_key s \<and> sg_line_number t < sg_line_number s) ?rows)"
    unfolding run_issues_def duplicates_in_def duplicate_rank_one run_rows_def ..
  have same: "(claimed now r)\<lparr>rp_row_count := k, rp_error_count := 0\<rparr> = (claimed now r)\<lparr>rp_row_count := k\<rparr>" for k
    by (simp add: claimed_def)
  have core: "if run_issues lim (rp_id r) items = [] then
         outcome = VALIDATED \<and> staged (w_db w') (rp_id r) = ?rows \<and> errors_of (w_db w') (rp_id r) = []
         \<and> (\<exists>now. find_report (rp_id r) (w_db w') = Some ((claimed now r)\<lparr>rp_row_count := s_row_count s\<rparr>))
       else
         outcome = VALIDATION_FAILED \<and> staged (w_db w') (rp_id r) = []
         \<and> map issue_of (errors_of (w_db w') (rp_id r)) = run_issues lim (rp_id r) items
         \<and> (\<exists>now now'. find_report (rp_id r) (w_db w')
               = Some (validation_failed (s_row_count s) (len (run_issues lim (rp_id r) items)) now' (claimed now r)))"
    using conc unfolding concluded_def d4 same run_rows_def
    by (cases "run_issues lim (rp_id r) items = []") (simp_all, blast+)
  show ?thesis
    by (intro exI [of _ r] exI [of _ w3] exI [of _ w1] exI [of _ w2] exI [of _ chunks] exI [of _ items] exI [of _ s]
        exI [of _ ?rows] exI [of _ "run_issues lim (rp_id r) items"] conjI r cl al dl out issues core refl)
qed

end
