(* ===== verification/FailedCycles.thy ===== *)
theory FailedCycles
  imports ReadyReports
begin

text \<open>
  Cycles that fail: when commits are acknowledged, an operation that raises has left the reports as they were, so
  that the handler of the cycle finds the report still in processing and marks it as failed. An application that
  raises has applied nothing, or everything in a commit that took effect without acknowledgement.
\<close>

definition acknowledged :: "env \<Rightarrow> bool" where
  "acknowledged e \<longleftrightarrow> (\<forall>n. env_commit e n \<noteq> Unacknowledged)"

subsection \<open>The environment is fixed\<close>

definition same_env :: "'x world_scheme \<Rightarrow> 'x world_scheme \<Rightarrow> bool" where
  "same_env w w' \<longleftrightarrow> w_env w' = w_env w"

interpretation environment: effect same_env
  by unfold_locales (simp_all add: same_env_def)

lemma env_silent: "silent m \<Longrightarrow> moves same_env m"
  using at_self unfolding silent_def moves_def same_env_def at_def by blast

lemma env_database [simp, intro]:
  "moves same_env (query f)" "moves same_env (execute s)" "moves same_env ensure_lock_connection_alive"
  by (simp_all add: moves_def same_env_def query_def execute_def ensure_lock_connection_alive_def tick_def
      split: option.split)

lemma env_transaction [intro]:
  assumes "moves same_env body"
  shows "moves same_env (transaction body)"
proof (rule moves_impI)
  fix w r w'
  assume run: "transaction body w = (r, w')"
  obtain r1 w1 where b: "body (w\<lparr>w_now := env_time (w_env w) (w_tick w)\<rparr>) = (r1, w1)" by fastforce
  from movesD [OF assms b] run b show "same_env w w'"
    by (auto simp: transaction_def same_env_def split: sum.splits commit_result.splits)
qed

lemma env_with_collation [intro]: "(\<And>le. moves same_env (f le)) \<Longrightarrow> moves same_env (with_collation f)"
  by (simp add: moves_def with_collation_def)

lemma env_claim: "moves same_env claim_or_recover_next_report"
  unfolding claim_or_recover_next_report_def claim_body_def validation_is_complete_def
  by (auto intro!: env_transaction environment.moves_bind environment.moves_then split: option.split)

lemma env_apply_body:
  assumes "\<forall>step. silent (run_hook hook step)"
  shows "moves same_env (apply_body hook rid ensure_lock_connection_alive)"
proof -
  have "moves same_env (run_hook hook step)" for step using assms by (intro env_silent) simp
  then show ?thesis
    unfolding apply_body_def apply_steps_def apply_stage_def apply_completion_def Let_def
    by (auto intro!: environment.moves_bind environment.moves_then env_with_collation split: option.split)
qed

lemma env_write_batch: "w_env (snd (write_batch ensure_lock_connection_alive s w)) = w_env w"
proof -
  obtain r w' where run: "write_batch ensure_lock_connection_alive s w = (r, w')" by fastforce
  have "moves same_env (write_batch ensure_lock_connection_alive s)"
    unfolding write_batch_def by auto
  from movesD [OF this run] run show ?thesis by (simp add: same_env_def)
qed

lemma env_flush [simp]:
  "w_env (snd (flush_staging rid ensure_lock_connection_alive w)) = w_env w"
  "w_env (snd (flush_errors rid ensure_lock_connection_alive w)) = w_env w"
  by (simp_all add: flush_staging_def flush_errors_def env_write_batch)

lemma env_flush_all: "moves same_env (flush_all rid ensure_lock_connection_alive)"
  unfolding flush_all_def by (rule environment.moves_then) (simp_all add: moves_def same_env_def)

lemma env_stream:
  assumes "aloof_storage st"
  shows "moves same_env (validate_csv_stream (writer_callbacks st rid n ensure_lock_connection_alive) lim chunks)"
proof (rule environment.moves_stream)
  note st = aloof_storageD [OF assms]
  have "moves same_env (each_act (\<lambda>_. then_act ensure_lock_connection_alive (st_next_chunk st)) xs)" for xs :: "nat list"
    using env_silent [OF st(2)] by (intro environment.moves_each environment.moves_then) auto
  then show "moves same_env (cb_read (writer_callbacks st rid n ensure_lock_connection_alive))"
    by (simp add: writer_callbacks_def moves_def read_chunks_def)
  show "moves same_env (cb_close (writer_callbacks st rid n ensure_lock_connection_alive))"
    using env_silent [OF st(3)] by (simp add: writer_callbacks_def)
  show "moves same_env (cb_row (writer_callbacks st rid n ensure_lock_connection_alive) r)" for r
    by (simp add: writer_callbacks_def moves_def same_env_def add_valid_row_def Let_def)
  have "moves same_env (add_issue rid n ensure_lock_connection_alive i)" for i
    by (simp add: moves_def same_env_def add_issue_def Let_def)
  then show "moves same_env (cb_issues (writer_callbacks st rid n ensure_lock_connection_alive) is)" for "is"
    unfolding writer_callbacks_def add_issues_def callbacks.simps by (rule environment.moves_each)
qed

subsection \<open>Operations that raise\<close>

definition steadfast :: "('x, 'a) proc \<Rightarrow> bool" where
  "steadfast m \<longleftrightarrow> (\<forall>w e w'. acknowledged (w_env w) \<longrightarrow> m w = (Inl e, w') \<longrightarrow> db_reports (w_db w') = db_reports (w_db w))"

lemma steadfastD:
  "steadfast m \<Longrightarrow> acknowledged (w_env w) \<Longrightarrow> m w = (Inl e, w') \<Longrightarrow> db_reports (w_db w') = db_reports (w_db w)"
  unfolding steadfast_def by blast

lemma steadfast_throw: "steadfast (throw e)"
  by (auto simp: steadfast_def throw_def)

lemma steadfast_transaction:
  assumes "moves same_env body"
  shows "steadfast (transaction body)"
  unfolding steadfast_def
proof (intro allI impI)
  fix w e w'
  assume ack: "acknowledged (w_env w)" and run: "transaction body w = (Inl e, w')"
  have "w_env w1 = w_env w" if "body (w\<lparr>w_now := env_time (w_env w) (w_tick w)\<rparr>) = (Inr a, w1)" for a w1
    using movesD [OF assms that] by (simp add: same_env_def)
  with transaction_Inl [OF run] ack show "db_reports (w_db w') = db_reports (w_db w)"
    by (auto simp: acknowledged_def)
qed

lemma steadfast_bind:
  assumes "moves same_env m" and "moves (on_tables same_reports) m" and "\<And>a. steadfast (f a)"
  shows "steadfast (bind_act m f)"
  unfolding steadfast_def
proof (intro allI impI)
  fix w e w'
  assume ack: "acknowledged (w_env w)" and run: "bind_act m f w = (Inl e, w')"
  obtain r1 w1 where m: "m w = (r1, w1)" by fastforce
  have same: "w_env w1 = w_env w" "db_reports (w_db w1) = db_reports (w_db w)"
    using movesD [OF assms(1) m] movesD [OF assms(2) m] by (simp_all add: same_env_def on_tables_def same_reports_def)
  show "db_reports (w_db w') = db_reports (w_db w)"
  proof (cases r1)
    case (Inl e')
    with run m same show ?thesis by (simp add: act_simps)
  next
    case (Inr a)
    with run m have "f a w1 = (Inl e, w')" by (simp add: act_simps)
    from steadfastD [OF assms(3) _ this] ack same show ?thesis by simp
  qed
qed

lemma steadfast_then:
  "moves same_env m \<Longrightarrow> moves (on_tables same_reports) m \<Longrightarrow> steadfast n \<Longrightarrow> steadfast (then_act m n)"
  by (simp add: then_act_def steadfast_bind)

lemma steadfast_ret:
  assumes "steadfast m"
  shows "steadfast (then_act m (ret a))"
  unfolding steadfast_def
proof (intro allI impI)
  fix w e w'
  assume "acknowledged (w_env w)" and "then_act m (ret a) w = (Inl e, w')"
  moreover from this(2) have "m w = (Inl e, w')" by (simp add: act_simps split: prod.splits sum.splits)
  ultimately show "db_reports (w_db w') = db_reports (w_db w)" using assms unfolding steadfast_def by blast
qed

lemma steadfast_conclude: "steadfast (conclude_validation rid ensure_lock_connection_alive s)"
proof -
  have "moves (on_tables same_reports) (count_errors rid)"
    unfolding count_errors_def by (intro unreported.moves_transaction) simp
  then show ?thesis
    unfolding conclude_validation_def count_errors_def finalize_validation_failure_def
    by (auto intro!: steadfast_bind steadfast_then steadfast_ret steadfast_transaction steadfast_throw
        environment.moves_bind environment.moves_then env_transaction)
qed

lemma steadfast_validate_report:
  assumes "aloof_storage st"
  shows "steadfast (validate_report st lim n src ensure_lock_connection_alive)"
proof -
  have new: "moves same_env new_writer" "moves (on_tables same_reports) new_writer"
    by (simp_all add: new_writer_def moves_def same_env_def on_tables_def same_reports_def)
  have al: "moves (on_tables same_reports) ensure_lock_connection_alive" by simp
  have dl: "moves same_env (st_download_stream st b k)" "moves (on_tables same_reports) (st_download_stream st b k)" for b k
    using aloof_storageD(1) [OF assms] env_silent by auto
  show ?thesis
    unfolding validate_report_def validate_chunks_def
    by (intro steadfast_then steadfast_bind steadfast_conclude new dl al env_database env_transaction env_flush_all
        env_stream [OF assms] unreported.moves_writing [OF al assms] unreported.moves_flush(3) [OF al]
        unreported.moves_insert_duplicates)
qed

lemma steadfast_apply:
  "\<forall>step. silent (run_hook hook step) \<Longrightarrow> steadfast (apply_report hook rid ensure_lock_connection_alive)"
  unfolding apply_report_def by (rule steadfast_transaction) (rule env_apply_body)

subsection \<open>What the handlers leave\<close>

text \<open>The record of a failure on a report that was in processing when the cycle took it (\<open>r0\<close>).\<close>

lemma failure_marked:
  assumes mk: "marked rid issue change d d'" and r1: "find_report rid d = Some r1"
    and r0: "report_step r0 r1" "rp_status r0 = Processing"
    and change: "\<And>n now r. rp_id (change n now r) = rp_id r \<and> rp_status (change n now r) = Failed
      \<and> rp_failure_kind (change n now r) = Some (lit ''processing'') \<and> rp_error_count (change n now r) = at_least_one n"
  shows "\<exists>r2. find_report rid d' = Some r2 \<and> (rp_status r2 = Completed \<or> rp_status r2 = Failed)
    \<and> (rp_status r1 = Processing \<longrightarrow> rp_status r2 = Failed \<and> rp_failure_kind r2 = Some (lit ''processing'')
          \<and> rp_error_count r2 = len (errors_of d' rid))"
proof -
  have "map issue_of (errors_of d' rid) = map issue_of (errors_of d rid) @ [issue]" using mk by (simp add: marked_def)
  from arg_cong [OF this, of length] have n: "at_least_one (len (errors_of d' rid)) = len (errors_of d' rid)"
    by (simp add: at_least_one_def)
  obtain now where r2: "find_report rid d'
      = Some (if rp_status r1 = Processing then change (len (errors_of d' rid)) now r1 else r1)"
    using marked_report [OF mk r1] change by blast
  have "rp_status r1 = Processing \<or> rp_status r1 = Completed \<or> rp_status r1 = Failed"
    using r0 by (cases "rp_status r1") (auto simp: report_step_def)
  with r2 change n show ?thesis by auto
qed

definition failure_recorded :: "int \<Rightarrow> validation_issue \<Rightarrow> env \<Rightarrow> db \<Rightarrow> bool" where
  "failure_recorded rid issue e d' \<longleftrightarrow> staged d' rid = [] \<and> (\<exists>errors. map issue_of (errors_of d' rid) = errors @ [issue])
     \<and> (\<exists>r2. find_report rid d' = Some r2 \<and> (rp_status r2 = Completed \<or> rp_status r2 = Failed)
         \<and> (acknowledged e \<longrightarrow> rp_status r2 = Failed \<and> rp_failure_kind r2 = Some (lit ''processing'')
              \<and> rp_error_count r2 = len (errors_of d' rid)))"

lemma failure_recordedI:
  assumes mk: "marked rid issue change d d'" and f: "find_report rid d0 = Some r0" "rp_status r0 = Processing"
    and step: "progress d0 sq d sq'" and same: "acknowledged e \<Longrightarrow> db_reports d = db_reports d0"
    and change: "\<And>n now r. rp_id (change n now r) = rp_id r \<and> rp_status (change n now r) = Failed
      \<and> rp_failure_kind (change n now r) = Some (lit ''processing'') \<and> rp_error_count (change n now r) = at_least_one n"
  shows "failure_recorded rid issue e d'"
proof -
  obtain r1 where r1: "find_report rid d = Some r1" "report_step r0 r1" using progress_find [OF step f(1)] by blast
  have "acknowledged e \<Longrightarrow> r1 = r0" using same r1(1) f(1) by (simp add: find_report_def)
  with failure_marked [OF mk r1 f(2) change] mk f(2) show ?thesis
    unfolding failure_recorded_def marked_def by blast
qed

lemma failed_application:
  assumes hooks: "\<forall>step. silent (run_hook hook step)" and ok: "constraints_ok (w_db w)"
    and f: "find_report rid (w_db w) = Some r" "rp_status r = Processing"
    and run: "process_apply hook ensure_lock_connection_alive rid w = (Inr PROCESSING_FAILED, w')"
  shows "failure_recorded rid (failure_issue (lit ''apply_error'') (lit ''Atomic report apply failed'')) (w_env w) (w_db w')"
proof -
  from process_apply_verdict [OF run] obtain e w2 u w3 v where
    a: "apply_report hook rid ensure_lock_connection_alive w = (Inl e, w2)"
    and l: "ensure_lock_connection_alive w2 = (Inr u, w3)" and m: "mark_apply_failed rid w3 = (Inr v, w')" by auto
  have g: "apply_guards hook ensure_lock_connection_alive" by unfold_locales (simp_all add: hooks)
  have d3: "w_db w3 = w_db w2" using lock_check_db [OF l] by simp
  show ?thesis
  proof (rule failure_recordedI [OF mark_failed_Inr(2) [OF m, unfolded d3] f apply_guards.progress_apply [OF g a ok]])
    show "db_reports (w_db w2) = db_reports (w_db w)" if "acknowledged (w_env w)"
      by (rule steadfastD [OF steadfast_apply [OF hooks] that a])
  qed (simp add: apply_failed_def)
qed

lemma failed_validation:
  assumes st: "aloof_storage st" and f: "find_report (rs_id src) (w_db w) = Some r" "rp_status r = Processing"
    and run: "process_validation st lim n ensure_lock_connection_alive src w = (Inr PROCESSING_FAILED, w')"
  shows "failure_recorded (rs_id src) (failure_issue (lit ''processing_error'') (lit ''Report processing failed''))
    (w_env w) (w_db w')"
proof -
  have "validate_report st lim n src ensure_lock_connection_alive w \<noteq> (Inr PROCESSING_FAILED, w')"
    using conclude_outcome by blast
  with process_validation_verdict [OF run] obtain e w2 u w3 v where
    a: "validate_report st lim n src ensure_lock_connection_alive w = (Inl e, w2)"
    and l: "ensure_lock_connection_alive w2 = (Inr u, w3)" and m: "mark_processing_failed (rs_id src) w3 = (Inr v, w')" by auto
  have d3: "w_db w3 = w_db w2" using lock_check_db [OF l] by simp
  have "moves (on_tables progress) (validate_report st lim n src ensure_lock_connection_alive)"
    by (rule cycle.moves_validate_report [OF _ st]) simp_all
  from movesD [OF this a] have step: "progress (w_db w) (w_seq w) (w_db w2) (w_seq w2)" by (simp add: on_tables_def)
  show ?thesis
  proof (rule failure_recordedI [OF mark_failed_Inr(1) [OF m, unfolded d3] f step])
    show "db_reports (w_db w2) = db_reports (w_db w)" if "acknowledged (w_env w)"
      by (rule steadfastD [OF steadfast_validate_report [OF st] that a])
  qed (simp add: processing_failed_def)
qed

subsection \<open>Applications that fail\<close>

text \<open>Time passes.\<close>

definition later :: "'x world_scheme \<Rightarrow> 'x world_scheme \<Rightarrow> bool" where
  "later w w' \<longleftrightarrow> w_tick w \<le> w_tick w'"

interpretation time: effect later
  by unfold_locales (auto simp: later_def)

lemma later_database [simp, intro]:
  "moves later (query f)" "moves later (execute s)" "moves later ensure_lock_connection_alive"
  by (simp_all add: moves_def later_def query_def execute_def ensure_lock_connection_alive_def split: option.split)

lemma later_transaction [intro]:
  assumes "moves later body"
  shows "moves later (transaction body)"
proof (rule moves_impI)
  fix w r w'
  assume run: "transaction body w = (r, w')"
  obtain r1 w1 where b: "body (w\<lparr>w_now := env_time (w_env w) (w_tick w)\<rparr>) = (r1, w1)" by fastforce
  from movesD [OF assms b] run b show "later w w'"
    by (auto simp: transaction_def later_def split: sum.splits commit_result.splits)
qed

lemma later_with_collation [intro]: "(\<And>le. moves later (f le)) \<Longrightarrow> moves later (with_collation f)"
  by (simp add: moves_def with_collation_def)

lemma later_claim: "moves later claim_or_recover_next_report"
  unfolding claim_or_recover_next_report_def claim_body_def validation_is_complete_def
  by (auto intro!: later_transaction time.moves_bind time.moves_then split: option.split)

lemma later_apply_body: "moves later (apply_body None rid ensure_lock_connection_alive)"
  unfolding apply_body_def apply_steps_def apply_stage_def apply_completion_def run_hook_def Let_def
  by (auto intro!: time.moves_bind time.moves_then later_with_collation split: option.split)

lemma later_mark_failed: "moves later (mark_apply_failed rid)"
  unfolding mark_apply_failed_def by (intro later_transaction time.moves_then time.moves_bind later_database)

text \<open>The handlers of failures leave the stock alone.\<close>

definition same_stock :: table_relation where
  "same_stock d sq d' sq' \<longleftrightarrow> abs_stock d' = abs_stock d"

interpretation stock: table_effect same_stock
  by unfold_locales (auto simp: same_stock_def)

interpretation stock: report_effect same_stock rid for rid
  by unfold_locales (auto intro!: statement_movesI abs_stock_cong simp: same_stock_def insert_staging_def insert_errors_def
      delete_staging_def update_reports_def)

text \<open>An application that raises has changed nothing, or its commit took effect without being acknowledged.\<close>

lemma transaction_lost:
  "transaction body w = (Inl e, w') \<Longrightarrow> w_db w' = w_db w
    \<or> (\<exists>a w1. body (w\<lparr>w_now := env_time (w_env w) (w_tick w)\<rparr>) = (Inr a, w1) \<and> w_db w' = w_db w1
        \<and> w_tick w' = Suc (w_tick w1) \<and> env_commit (w_env w1) (w_tick w1) = Unacknowledged)"
  by (auto simp: transaction_def split: prod.splits sum.splits commit_result.splits)

lemma apply_report_lost:
  assumes "world_ok w" and "no_duplicates (staged (w_db w) rid)"
    and run: "apply_report None rid ensure_lock_connection_alive w = (Inl e, w')"
  shows "w_db w' = w_db w
    \<or> (\<exists>now c k. applied rid now (w_db w) (w_db w') c
        \<and> w_tick w \<le> k \<and> k < w_tick w' \<and> env_commit (w_env w) k = Unacknowledged)"
proof -
  let ?w = "w\<lparr>w_now := env_time (w_env w) (w_tick w)\<rparr>"
  have a: "at ?w (w_now ?w) (w_db w) (w_seq w) (w_env w)" by (simp add: at_def)
  have c: "constraints_ok (w_db w)" using assms(1) by (simp add: world_ok_def)
  from transaction_lost [OF run [unfolded apply_report_def]] show ?thesis
  proof (elim disjE exE conjE)
    fix res w1
    assume b: "apply_body None rid ensure_lock_connection_alive ?w = (Inr res, w1)" and d: "w_db w' = w_db w1"
      and t: "w_tick w' = Suc (w_tick w1)" and u: "env_commit (w_env w1) (w_tick w1) = Unacknowledged"
    from worker_guards.apply_body_Inr [OF a c world_ok_catalogs [OF assms(1)] assms(2) b] d
    have "\<exists>now c. applied rid now (w_db w) (w_db w') c" and "w_env w1 = w_env w" by (auto simp: at_def)
    moreover have "w_tick w \<le> w_tick w1" using movesD [OF later_apply_body b] by (simp add: later_def)
    ultimately show ?thesis using t u by auto
  qed simp
qed

text \<open>What the cycle makes of either: an error for the report, which has failed or is completed all the same.\<close>

lemma failed_application_outcomes:
  assumes ok: "world_ok w" and nd: "no_duplicates (staged (w_db w) (rp_id r))"
    and f: "find_report (rp_id r) (w_db w) = Some r" "ready (w_db w) r"
    and run: "process_apply None ensure_lock_connection_alive (rp_id r) w = (Inr PROCESSING_FAILED, w')"
  shows "staged (w_db w') (rp_id r) = []
    \<and> map issue_of (errors_of (w_db w') (rp_id r)) = [failure_issue (lit ''apply_error'') (lit ''Atomic report apply failed'')]
    \<and> (abs_stock (w_db w') = abs_stock (w_db w) \<and> (\<exists>now. find_report (rp_id r) (w_db w') = Some (apply_failed 1 now r))
      \<or> (\<exists>now d1 c k. applied (rp_id r) now (w_db w) d1 c \<and> abs_stock (w_db w') = abs_stock d1
          \<and> find_report (rp_id r) (w_db w') = Some (complete_report c now r)
          \<and> w_tick w \<le> k \<and> k < w_tick w' \<and> env_commit (w_env w) k = Unacknowledged))"
proof -
  let ?rid = "rp_id r"
  from process_apply_verdict [OF run] obtain e w1 u w2 v where
    ap: "apply_report None ?rid ensure_lock_connection_alive w = (Inl e, w1)"
    and l: "ensure_lock_connection_alive w1 = (Inr u, w2)" and m: "mark_apply_failed ?rid w2 = (Inr v, w')" by auto
  have w2: "w2 = tick w1" by (rule lock_check_db [OF l])
  have t: "w_tick w1 \<le> w_tick w'" using movesD [OF later_mark_failed m] by (simp add: w2 later_def)
  have st: "abs_stock (w_db w') = abs_stock (w_db w1)"
    using movesD [OF stock.moves_mark_failed(2) m] by (simp add: w2 on_tables_def same_stock_def)
  have mk: "marked ?rid (failure_issue (lit ''apply_error'') (lit ''Atomic report apply failed'')) apply_failed (w_db w1) (w_db w')"
    using mark_failed_Inr(2) [OF m] by (simp add: w2)
  have none: "errors_of (w_db w) ?rid = []" and pr: "rp_status r = Processing" using f(2) by (simp_all add: ready_def)
  have left: "staged (w_db w') ?rid = []
      \<and> map issue_of (errors_of (w_db w') ?rid) = [failure_issue (lit ''apply_error'') (lit ''Atomic report apply failed'')]"
    if "errors_of (w_db w1) ?rid = []"
    using mk that by (simp add: marked_def)
  have one: "len (errors_of (w_db w') ?rid) = 1" if "errors_of (w_db w1) ?rid = []"
    using arg_cong [OF conjunct2 [OF left [OF that]], of length] by simp
  from apply_report_lost [OF ok nd ap] show ?thesis
  proof (elim disjE exE conjE)
    assume d: "w_db w1 = w_db w"
    then have e: "errors_of (w_db w1) ?rid = []" and "find_report ?rid (w_db w1) = Some r" using none f(1) by simp_all
    from marked_report [OF mk this(2)] pr one [OF e] have "\<exists>now. find_report ?rid (w_db w') = Some (apply_failed 1 now r)"
      by (auto simp: apply_failed_def)
    with left [OF e] st d show ?thesis by simp
  next
    fix now c k
    assume a: "applied ?rid now (w_db w) (w_db w1) c" and k: "w_tick w \<le> k" "k < w_tick w1" "env_commit (w_env w) k = Unacknowledged"
    have e: "errors_of (w_db w1) ?rid = []" using appliedD(4) [OF a] none by (simp add: errors_of_def)
    have "find_report ?rid (w_db w1) = Some (complete_report c now r)" by (rule applied_report [OF a f(1)])
    moreover have "rp_status (complete_report c now r) = Completed" by (simp add: complete_report_def split: prod.split)
    ultimately have "find_report ?rid (w_db w') = Some (complete_report c now r)"
      using marked_report [OF mk, of "complete_report c now r"] by (auto simp: apply_failed_def)
    moreover have "k < w_tick w'" using k(2) t by simp
    ultimately show ?thesis using left [OF e] st a k(1,3) by blast
  qed
qed

text \<open>The cycle around it.\<close>

lemma cycle_within:
  assumes "process_next_report granted storage lim n hook w = (Inr outcome, w')" and "outcome \<noteq> LOCK_NOT_ACQUIRED"
  shows "\<exists>w2. process_report storage lim n hook ensure_lock_connection_alive (tick (tick w)) = (Inr outcome, w2)
    \<and> w_db w' = w_db w2 \<and> w_tick w2 \<le> w_tick w'"
  using assms
  by (auto simp: process_next_report_def connect_def try_advisory_lock_def release_lock_def act_simps query_def
      split: if_splits prod.splits sum.splits)

end
