(* ===== verification/System.thy ===== *)
theory System
  imports Registration FailedCycles
begin

text \<open>
  The service as a state machine: API requests and worker cycles, one after another, on the tables and the
  object store. A step is whatever one of them does, however it ends. The invariant ties the two
  stores together: what is in the object store under a report's key is its original file, with the size and
  checksum that the report records. It is missing only if the report's own registration lost the
  acknowledgement of its commit.
\<close>

inductive service_step ::
  "'c s3_client \<Rightarrow> 'f reader \<Rightarrow> csv_limits \<Rightarrow> int \<Rightarrow> 'c service_world \<Rightarrow> 'c service_world \<Rightarrow> bool"
  for client read lim batch_size where
  registration: "register_original client bucket max_upload_bytes uuid read source filename w = (registered, w') \<Longrightarrow>
     (bucket, report_object_key uuid) \<notin> set (map object_ref (db_reports (w_db w))) \<Longrightarrow>
     service_step client read lim batch_size w w'"
| listing: "list_reports status limit offset w = (reports, w') \<Longrightarrow> service_step client read lim batch_size w w'"
| reading: "get_report report_id w = (report, w') \<Longrightarrow> service_step client read lim batch_size w w'"
| error_listing: "list_errors report_id limit offset w = (errors, w') \<Longrightarrow> service_step client read lim batch_size w w'"
| download: "download_original client report_id w = (original, w') \<Longrightarrow> service_step client read lim batch_size w w'"
| streaming: "download_original client report_id w = (Inr (report, chunks), v) \<Longrightarrow> chunks patience v = (sent, w') \<Longrightarrow>
     service_step client read lim batch_size w w'"
| cycle: "process_next_report granted (s3_storage client fetches) lim batch_size None w = (outcome, w') \<Longrightarrow>
     service_step client read lim batch_size w w'"

abbreviation service_runs ::
  "'c s3_client \<Rightarrow> 'f reader \<Rightarrow> csv_limits \<Rightarrow> int \<Rightarrow> 'c service_world \<Rightarrow> 'c service_world \<Rightarrow> bool" where
  "service_runs client read lim batch_size \<equiv> (service_step client read lim batch_size)\<^sup>*\<^sup>*"

text \<open>The object under a report's key, if there is one, is what the report says it is.\<close>

definition original_intact :: "(pystr \<times> pystr \<Rightarrow> bytes option) \<Rightarrow> report \<Rightarrow> bool" where
  "original_intact objs r \<longleftrightarrow> (case objs (object_ref r) of None \<Rightarrow> True
     | Some body \<Rightarrow> rp_size_bytes r = len body \<and> rp_checksum_sha256 r = Some (sha256_hexdigest body))"

definition service_ok :: "('c \<Rightarrow> pystr \<times> pystr \<Rightarrow> bytes option) \<Rightarrow> ('c, 'x) service_world_scheme \<Rightarrow> bool" where
  "service_ok objects w \<longleftrightarrow> world_ok w \<and> ready_ok (w_db w)
     \<and> (\<forall>r \<in> set (db_reports (w_db w)). original_intact (objects (sv_outside w)) r)"

text \<open>
  A step that is a lost registration of the object \<open>ref\<close>: it is answered with an error, though one of its commits
  took effect, unacknowledged, and the report is there. A run that contains such a step.
\<close>

definition loses_acknowledgement ::
  "'c s3_client \<Rightarrow> 'f reader \<Rightarrow> 'c service_world \<Rightarrow> 'c service_world \<Rightarrow> pystr \<times> pystr \<Rightarrow> bool" where
  "loses_acknowledgement client read w w' ref \<longleftrightarrow>
     (\<exists>bucket max_upload_bytes uuid source filename e k.
        register_original client bucket max_upload_bytes uuid read source filename w = (Inl e, w')
        \<and> ref = (bucket, report_object_key uuid) \<and> ref \<notin> set (map object_ref (db_reports (w_db w)))
        \<and> ref \<in> set (map object_ref (db_reports (w_db w')))
        \<and> w_tick w \<le> k \<and> k < w_tick w' \<and> env_commit (w_env w) k = Unacknowledged)"

definition lost_registration ::
  "'c s3_client \<Rightarrow> 'f reader \<Rightarrow> csv_limits \<Rightarrow> int \<Rightarrow> 'c service_world \<Rightarrow> 'c service_world \<Rightarrow> pystr \<times> pystr \<Rightarrow> bool" where
  "lost_registration client read lim batch_size w0 w ref \<longleftrightarrow>
     (\<exists>v v'. service_runs client read lim batch_size w0 v \<and> loses_acknowledgement client read v v' ref
        \<and> service_runs client read lim batch_size v' w)"

lemma lost_later:
  "lost_registration client read lim n w0 w ref \<Longrightarrow> service_step client read lim n w w' \<Longrightarrow>
     lost_registration client read lim n w0 w' ref"
  unfolding lost_registration_def by (meson rtranclp.rtrancl_into_rtrancl)

text \<open>Queries.\<close>

interpretation still: table_effect "\<lambda>d sq d' sq'. d' = d \<and> sq' = sq"
  by unfold_locales auto

lemma still_queries:
  "moves (on_tables (\<lambda>d sq d' sq'. d' = d \<and> sq' = sq)) (list_reports status limit offset)"
  "moves (on_tables (\<lambda>d sq d' sq'. d' = d \<and> sq' = sq)) (get_report rid)"
  "moves (on_tables (\<lambda>d sq d' sq'. d' = d \<and> sq' = sq)) (list_errors rid limit offset)"
  unfolding list_reports_def get_report_def list_errors_def
  by (auto intro!: still.moves_transaction still.moves_bind split: option.split)

lemma outside_queries:
  "moves (same_outside V) (list_reports status limit offset)"
  "moves (same_outside V) (get_report rid)"
  "moves (same_outside V) (list_errors rid limit offset)"
  unfolding list_reports_def get_report_def list_errors_def
  by (auto intro!: outside_transaction outside.moves_bind split: option.split)

lemma still_download: "moves (on_tables (\<lambda>d sq d' sq'. d' = d \<and> sq' = sq)) (download_original client rid)"
proof -
  have "silent (download_stream client b k)" for b k
    by (rule aloof_silent) (simp add: aloof_moves)
  then show ?thesis
    unfolding download_original_def
    by (auto intro!: still.moves_bind still.moves_catch still_queries intro: still.moves_silent)
qed

text \<open>A download that is opened: the report, the object's pieces, and the iteration over them.\<close>

lemma download_original_Inr:
  assumes "download_original client rid w = (Inr (r, chunks), w')"
  shows "\<exists>pieces w1. get_report rid w = (Inr r, w1) \<and> chunks = logged_chunks client pieces
    \<and> download_stream client (rp_object_bucket r) (rp_object_key r) w1 = (Inr pieces, w')"
proof -
  obtain rep w1 where g: "get_report rid w = (Inr rep, w1)"
    and rest: "bind_act (catch_act (download_stream client (rp_object_bucket rep) (rp_object_key rep))
         (\<lambda>e. if e = ObjectNotFoundError then throw OriginalObjectMissingError else throw e)) (\<lambda>pieces.
       ret (rep, logged_chunks client pieces)) w1 = (Inr (r, chunks), w')"
    using assms unfolding download_original_def bind_act_Inr_iff by blast
  obtain res w2 where dl: "download_stream client (rp_object_bucket rep) (rp_object_key rep) w1 = (res, w2)" by fastforce
  with rest have "\<exists>pieces. res = Inr pieces \<and> rep = r \<and> w2 = w' \<and> chunks = logged_chunks client pieces"
    by (cases res) (auto simp: act_simps split: if_splits)
  with g dl show ?thesis by blast
qed

text \<open>The iteration over a download moves nothing but the state outside.\<close>

lemma unmoved_logged_chunks: "unmoved w (snd (logged_chunks client pieces n w))"
proof (induction client pieces n w rule: logged_chunks.induct)
  case (1 client pieces w)
  obtain r w1 where run: "close_chunks client w = (r, w1)" by fastforce
  with movesD [OF unmoved_close_chunks run] show ?case by simp
next
  case (2 client n w)
  obtain r w1 where run: "next_chunk client w = (r, w1)" by fastforce
  with movesD [OF unmoved_next_chunk run] show ?case by (simp split: sum.split)
next
  case (3 client piece pieces n w)
  obtain r w1 where run: "next_chunk client w = (r, w1)" by fastforce
  with movesD [OF unmoved_next_chunk run] 3 [OF run [symmetric]] show ?case
    by (auto split: sum.split prod.split intro: unmoved.transitive)
qed

text \<open>A step, whatever it is, evolves the reports there are and keeps the invariant.\<close>

lemma original_intact_step:
  assumes "report_step r r'"
  shows "original_intact objs r' = original_intact objs r"
proof -
  have "object_ref r' = object_ref r" "rp_size_bytes r' = rp_size_bytes r" "rp_checksum_sha256 r' = rp_checksum_sha256 r"
    using assms unfolding report_step_def by blast+
  then show ?thesis by (simp add: original_intact_def cong: option.case_cong)
qed

lemma progress_report:
  assumes "progress d sq d' sq'" and "r' \<in> set (db_reports d')"
  shows "\<exists>r \<in> set (db_reports d). report_step r r'"
proof -
  obtain i where i: "i < length (db_reports d')" "db_reports d' ! i = r'"
    using assms(2) unfolding in_set_conv_nth by blast
  have "length (db_reports d) = length (db_reports d')" "report_step (db_reports d ! i) (db_reports d' ! i)"
    using assms(1) i(1) unfolding progress_def list_all2_conv_all_nth by simp_all
  then show ?thesis using i nth_mem [of i "db_reports d"] by metis
qed

lemma ready_ok_registered:
  assumes "ready_ok d" and "rp_status r = Pending"
  shows "ready_ok (d\<lparr>db_reports := db_reports d @ [r]\<rparr>)"
  using assms by (auto simp: ready_ok_def ready_def staged_def errors_of_def)

context s3_service begin

lemma outside_logged_chunks: "same_outside objects w (snd (logged_chunks client pieces n w))"
proof -
  have nxt: "same_outside objects w w1" if "next_chunk client w = (r, w1)" for r and w w1 :: "('c, 'x) service_world_scheme"
    using movesD [OF outside_storage(2) [of id, unfolded s3_storage_def object_storage.simps] that] .
  have close: "same_outside objects w w1" if "close_chunks client w = (r, w1)" for r and w w1 :: "('c, 'x) service_world_scheme"
    using movesD [OF outside_storage(3) [of id, unfolded s3_storage_def object_storage.simps] that] .
  have "c = client \<Longrightarrow> same_outside objects w (snd (logged_chunks c pieces n w))" for c
  proof (induction c pieces n w rule: logged_chunks.induct)
    case (1 c pieces w)
    obtain r w1 where run: "close_chunks client w = (r, w1)" by fastforce
    with close [OF run] 1 show ?case by simp
  next
    case (2 c n w)
    obtain r w1 where run: "next_chunk client w = (r, w1)" by fastforce
    with nxt [OF run] 2 show ?case by (simp split: sum.split)
  next
    case (3 c piece pieces n w)
    obtain r w1 where run: "next_chunk client w = (r, w1)" by fastforce
    show ?case
    proof (cases r)
      case (Inr u)
      have "same_outside objects w1 (snd (logged_chunks client pieces n w1))" using 3 run Inr by auto
      with nxt [OF run] run Inr 3(2) show ?thesis by (auto split: prod.split intro: outside.transitive)
    qed (use nxt [OF run] run 3(2) in simp)
  qed
  then show ?thesis by simp
qed

lemma outside_download: "moves (same_outside objects) (download_original client rid)"
  using outside_storage(1) [unfolded s3_storage_def] unfolding download_original_def
  by (auto intro!: outside.moves_bind outside.moves_catch outside_queries)

lemma service_ok_same:
  assumes "service_ok objects w" and "w_db w' = w_db w" "w_seq w' = w_seq w"
    and "\<And>r. r \<in> set (db_reports (w_db w)) \<Longrightarrow> objects (sv_outside w') (object_ref r) = objects (sv_outside w) (object_ref r)"
  shows "service_ok objects w'"
  using assms by (auto simp: service_ok_def world_ok_def original_intact_def)

definition advances :: "'c service_world \<Rightarrow> 'c service_world \<Rightarrow> bool" where
  "advances w w' \<longleftrightarrow> service_ok objects w' \<and> w_env w' = w_env w
     \<and> list_all2 report_step (db_reports (w_db w)) (take (length (db_reports (w_db w))) (db_reports (w_db w')))
     \<and> (\<forall>x \<in> set (db_reports (w_db w)). objects (sv_outside w') (object_ref x) = objects (sv_outside w) (object_ref x))"

lemma report_steps_refl [simp]: "list_all2 report_step rs rs"
  by (simp add: list_all2_conv_all_nth)

lemma registration_advances:
  assumes "register_original client b m uuid read f filename w = (r, w')"
    and "(b, report_object_key uuid) \<notin> set (map object_ref (db_reports (w_db w)))"
    and "service_ok objects w"
  shows "advances w w'"
proof -
  let ?ref = "(b, report_object_key uuid)"
  have others: "objects (sv_outside w') (object_ref x) = objects (sv_outside w) (object_ref x)"
    if "x \<in> set (db_reports (w_db w))" for x
    using register_others [OF assms(1), of "object_ref x"] assms(2) that by force
  have ok: "world_ok w'" using keepsD [OF keeps_register _ assms(1)] assms(3) by (simp add: service_ok_def)
  have env: "w_env w' = w_env w" by (rule env_register [OF assms(1)])
  have same: "advances w w'" if "w_db w' = w_db w"
    using that ok env others assms(3) by (auto simp: advances_def service_ok_def original_intact_def)
  have new: "advances w w'" if "w_db w' = (w_db w)\<lparr>db_reports := db_reports (w_db w) @ [rep]\<rparr>" "object_ref rep = ?ref"
      "rp_status rep = Pending" "original_intact (objects (sv_outside w')) rep" for rep
  proof -
    have "ready_ok (w_db w')" using ready_ok_registered [OF _ that(3)] assms(3) by (simp add: that(1) service_ok_def)
    with ok env others that assms(3) show ?thesis
      by (auto simp: advances_def service_ok_def original_intact_def)
  qed
  show ?thesis
  proof (cases r)
    case (Inl e)
    from register_lost [OF assms(1) [unfolded Inl]] same new show ?thesis
      by (elim disjE exE conjE) (auto simp: new_report_def object_ref_def original_intact_def)
  next
    case (Inr rep)
    from register_Inr [OF assms(1) [unfolded Inr]] new [of rep] show ?thesis
      by (auto simp: new_report_def object_ref_def original_intact_def)
  qed
qed

lemma cycle_advances:
  assumes "process_next_report granted (s3_storage client fetches) lim n None w = (r, w')" and "service_ok objects w"
  shows "advances w w'"
proof -
  have "on_tables living w w'" by (rule movesD [OF s3_cycle.living_cycle assms(1)])
  then have ok: "world_ok w'" and prog: "progress (w_db w) (w_seq w) (w_db w') (w_seq w')"
    using assms(2) by (auto simp: on_tables_def living_def service_ok_def world_ok_def)
  have "ready_ok (w_db w')" using cycle_parts.cycle_ready_ok [OF s3_cycle.cycle_parts_axioms _ _ assms(1)] assms(2) by (simp add: service_ok_def)
  moreover have "same_outside objects w w'" by (rule movesD [OF outside_cycle assms(1)])
  moreover have "original_intact (objects (sv_outside w)) r'" if r': "r' \<in> set (db_reports (w_db w'))" for r'
    using progress_report [OF prog r'] assms(2) original_intact_step by (fastforce simp: service_ok_def)
  ultimately show ?thesis
    using ok prog list_all2_lengthD [OF prog [unfolded progress_def]]
    by (simp add: advances_def service_ok_def same_outside_def progress_def)
qed

lemma still_advances:
  assumes "on_tables (\<lambda>d sq d' sq'. d' = d \<and> sq' = sq) w w'" and "same_outside objects w w'" and "service_ok objects w"
  shows "advances w w'"
  using assms(1,2) service_ok_same [OF assms(3), of w'] by (auto simp: advances_def on_tables_def same_outside_def)

lemma query_advances:
  assumes "moves (on_tables (\<lambda>d sq d' sq'. d' = d \<and> sq' = sq)) m" and "moves (same_outside objects) m"
    and "m w = (r, w')" and "service_ok objects w"
  shows "advances w w'"
  by (rule still_advances [OF movesD [OF assms(1,3)] movesD [OF assms(2,3)] assms(4)])

lemma streaming_advances:
  assumes "download_original client rid w = (Inr (r, chunks), v)" and "chunks n v = (sent, w')" and "service_ok objects w"
  shows "advances w w'"
proof -
  obtain pieces where c: "chunks = logged_chunks client pieces"
    using download_original_Inr [OF assms(1)] by blast
  have "unmoved v w'" "same_outside objects v w'"
    using unmoved_logged_chunks [of v client pieces n] outside_logged_chunks [of v pieces n] assms(2) by (simp_all add: c)
  then have "on_tables (\<lambda>d sq d' sq'. d' = d \<and> sq' = sq) w w'" "same_outside objects w w'"
    using movesD [OF still_download assms(1)] movesD [OF outside_download assms(1)]
    by (auto simp: on_tables_def same_outside_def unmoved_def worker_data_def)
  then show ?thesis by (rule still_advances [OF _ _ assms(3)])
qed

lemma step_advances:
  assumes "service_step client read lim n w w'" and "service_ok objects w"
  shows "advances w w'"
  using assms(1)
proof (cases rule: service_step.cases)
  case (registration b m uuid f filename r)
  with registration_advances assms(2) show ?thesis by blast
next
  case (cycle granted fetches r)
  with cycle_advances assms(2) show ?thesis by blast
next
  case (streaming rid r chunks v patience sent)
  then show ?thesis by (rule streaming_advances [OF _ _ assms(2)])
qed (rule query_advances [OF still_queries(1) outside_queries(1) _ assms(2)]
      query_advances [OF still_queries(2) outside_queries(2) _ assms(2)]
      query_advances [OF still_queries(3) outside_queries(3) _ assms(2)]
      query_advances [OF still_download outside_download _ assms(2)]; assumption)+

lemma advances_trans:
  assumes "advances w w'" and "advances w' w''"
  shows "advances w w''"
proof -
  let ?n = "length (db_reports (w_db w))" and ?m = "length (db_reports (w_db w'))"
  have 1: "list_all2 report_step (db_reports (w_db w)) (take ?n (db_reports (w_db w')))"
    and 2: "list_all2 report_step (db_reports (w_db w')) (take ?m (db_reports (w_db w'')))"
    using assms by (simp_all add: advances_def)
  have n: "?n \<le> ?m" using list_all2_lengthD [OF 1] by simp
  have "list_all2 report_step (take ?n (db_reports (w_db w'))) (take ?n (db_reports (w_db w'')))"
    using list_all2_takeI [OF 2, of ?n] n by (simp add: min_absorb1)
  with 1 have 3: "list_all2 report_step (db_reports (w_db w)) (take ?n (db_reports (w_db w'')))"
    by (rule list_all2_trans [rotated]) (rule report_step_trans)
  have "objects (sv_outside w'') (object_ref x) = objects (sv_outside w) (object_ref x)" if x: "x \<in> set (db_reports (w_db w))" for x
  proof -
    obtain i where i: "i < ?n" "db_reports (w_db w) ! i = x" using x unfolding in_set_conv_nth by blast
    let ?x' = "db_reports (w_db w') ! i"
    have "report_step x ?x'" using 1 i n unfolding list_all2_conv_all_nth by auto
    then have "object_ref ?x' = object_ref x" unfolding report_step_def by blast
    moreover have "?x' \<in> set (db_reports (w_db w'))" using i n by simp
    ultimately show ?thesis using assms x unfolding advances_def by metis
  qed
  with assms 3 show ?thesis by (simp add: advances_def)
qed

lemma runs_advance:
  assumes "service_runs client read lim n w w'" and "service_ok objects w"
  shows "advances w w'"
  using assms(1)
proof (induction rule: rtranclp_induct)
  case base
  show ?case using assms(2) by (simp add: advances_def)
next
  case (step w1 w2)
  have "service_ok objects w1" using step.IH by (simp add: advances_def)
  from advances_trans [OF step.IH step_advances [OF step.hyps(2) this]] show ?case .
qed

text \<open>A report that appears in a step without its original is that of a lost registration.\<close>

lemma step_lost:
  assumes "service_runs client read lim n w0 w" and "service_step client read lim n w w'" and "service_ok objects w"
    and "x \<in> set (db_reports (w_db w'))" and "object_ref x \<notin> set (map object_ref (db_reports (w_db w)))"
    and "objects (sv_outside w') (object_ref x) = None"
  shows "lost_registration client read lim n w0 w' (object_ref x)"
proof -
  have still: "w_db w' \<noteq> w_db w" using assms(4,5) by auto
  show ?thesis
    using assms(2)
  proof (cases rule: service_step.cases)
    case (registration b m uuid f filename r)
    show ?thesis
    proof (cases r)
      case (Inl e)
      from register_lost [OF registration(1) [unfolded Inl]] still obtain rep now i k where
        rep: "w_db w' = (w_db w)\<lparr>db_reports := db_reports (w_db w) @ [rep]\<rparr>"
        "rep = new_report (normalize_original_filename filename) b (report_object_key uuid)
            \<lparr>up_size_bytes = len (left f), up_checksum_sha256 = sha256_hexdigest (left f)\<rparr> now i"
        "w_tick w \<le> k" "k < w_tick w'" "env_commit (w_env w) k = Unacknowledged" by blast
      then have "object_ref rep = (b, report_object_key uuid)" by (simp add: new_report_def object_ref_def)
      moreover have "x = rep" using assms(4,5) rep(1) by auto
      ultimately have ref: "object_ref x = (b, report_object_key uuid)" by simp
      have there: "object_ref x \<in> set (map object_ref (db_reports (w_db w')))" using assms(4) by simp
      have "loses_acknowledgement client read w w' (object_ref x)"
        unfolding loses_acknowledgement_def
        using registration(1) [unfolded Inl] ref assms(5) there rep(3-5) by blast
      then show ?thesis using assms(1) unfolding lost_registration_def by blast
    next
      case (Inr rep)
      from register_Inr [OF registration(1) [unfolded Inr]] assms(4-6) show ?thesis
        by (auto simp: new_report_def object_ref_def)
    qed
  next
    case (cycle granted fetches r)
    have "on_tables living w w'" by (rule movesD [OF s3_cycle.living_cycle cycle])
    then have "progress (w_db w) (w_seq w) (w_db w') (w_seq w')"
      using assms(3) by (auto simp: on_tables_def living_def service_ok_def world_ok_def)
    from progress_report [OF this assms(4)] obtain y where y: "y \<in> set (db_reports (w_db w))" "report_step y x" by blast
    have "object_ref x = object_ref y" using y(2) unfolding report_step_def by blast
    with y(1) assms(5) show ?thesis by simp
  next
    case (streaming rid r chunks v patience sent)
    have "w_db w' = w_db w"
    proof -
      obtain pieces where c: "chunks = logged_chunks client pieces"
        using download_original_Inr [OF streaming(1)] by blast
      have "unmoved v w'" using unmoved_logged_chunks [of v client pieces patience] streaming(2) by (simp add: c)
      then show ?thesis using movesD [OF still_download streaming(1)] by (simp add: on_tables_def unmoved_def worker_data_def)
    qed
    with still show ?thesis by simp
  qed (drule movesD [OF still_queries(1)] movesD [OF still_queries(2)] movesD [OF still_queries(3)]
        movesD [OF still_download], use still in \<open>simp add: on_tables_def\<close>)+
qed

text \<open>So in every run each report's original is there or its registration was lost.\<close>

lemma runs_account:
  assumes "service_runs client read lim n w0 w" and "service_ok objects w0" and "db_reports (w_db w0) = []"
  shows "\<forall>x \<in> set (db_reports (w_db w)). objects (sv_outside w) (object_ref x) = None \<longrightarrow>
    lost_registration client read lim n w0 w (object_ref x)"
  using assms(1)
proof (induction rule: rtranclp_induct)
  case base
  show ?case using assms(3) by simp
next
  case (step w1 w2)
  have ok: "service_ok objects w1" using runs_advance [OF step.hyps(1) assms(2)] by (simp add: advances_def)
  have same: "objects (sv_outside w2) (object_ref y) = objects (sv_outside w1) (object_ref y)"
    if "y \<in> set (db_reports (w_db w1))" for y
    using step_advances [OF step.hyps(2) ok] that by (simp add: advances_def)
  show ?case
  proof (intro ballI impI)
    fix x
    assume x: "x \<in> set (db_reports (w_db w2))" "objects (sv_outside w2) (object_ref x) = None"
    show "lost_registration client read lim n w0 w2 (object_ref x)"
    proof (cases "object_ref x \<in> set (map object_ref (db_reports (w_db w1)))")
      case True
      then obtain y where y: "y \<in> set (db_reports (w_db w1))" "object_ref y = object_ref x" by auto
      then have "lost_registration client read lim n w0 w1 (object_ref x)" using step.IH same [OF y(1)] x(2) by auto
      then show ?thesis by (rule lost_later [OF _ step.hyps(2)])
    next
      case False
      from step_lost [OF step.hyps ok x(1) this x(2)] show ?thesis .
    qed
  qed
qed

end

end
