(* ===== verification/HttpClaims.thy ===== *)
theory HttpClaims
  imports Http System
begin

text \<open>
  The properties of the texts that cross the HTTP interface: the file name that is registered and the header of
  a download.
\<close>

subsection \<open>File names\<close>

lemma py_split_not_Nil [simp]: "py_split sep cs \<noteq> []"
  by (cases cs) (auto split: list.split)

lemma py_split_chars: "part \<in> set (py_split sep cs) \<Longrightarrow> set part \<subseteq> set cs - {sep}"
proof (induction cs arbitrary: part)
  case (Cons c cs)
  obtain p ps where ps: "py_split sep cs = p # ps" using py_split_not_Nil [of sep cs] by (cases "py_split sep cs") auto
  show ?case
  proof (cases "c = sep")
    case True
    then have "part = [] \<or> part \<in> set (py_split sep cs)" using Cons.prems by auto
    then show ?thesis using Cons.IH [of part] by auto
  next
    case False
    then have "part = c # p \<or> part \<in> set ps" using Cons.prems ps by auto
    then show ?thesis using Cons.IH [of p] Cons.IH [of part] ps False by auto
  qed
qed simp

lemma path_name_chars: "set (path_name p) \<subseteq> set p - {47}"
proof -
  let ?parts = "filter (\<lambda>part. part \<noteq> [] \<and> part \<noteq> lit ''.'') (py_split 47 p)"
  have "last ?parts \<in> set (py_split 47 p)" if "?parts \<noteq> []"
    using last_in_set [OF that] by simp
  then show ?thesis using py_split_chars by (auto simp: path_name_def Let_def split: if_splits)
qed

lemma safe_name_chars:
  defines "safe name \<equiv> filter (\<lambda>c. 32 \<le> c \<and> c \<noteq> 127) (path_name (map (\<lambda>c. if c = 92 then 47 else c) name))"
  assumes "c \<in> set (take 255 (safe name))"
  shows "c \<in> set name \<and> 32 \<le> c \<and> c \<noteq> 127 \<and> c \<noteq> 47 \<and> c \<noteq> 92"
proof -
  have "c \<in> set (safe name)" using assms(2) by (rule in_set_takeD)
  then have "c \<in> set (path_name (map (\<lambda>c. if c = 92 then 47 else c) name))" "32 \<le> c" "c \<noteq> 127"
    by (simp_all add: safe_def)
  with path_name_chars [of "map (\<lambda>c. if c = 92 then 47 else c) name"] show ?thesis by (auto split: if_splits)
qed

text \<open>C31: Whatever file name the client sends, the name that is registered is non-empty, has at most 255 characters, and
  contains no slash, backslash or control character; its characters come from the client's name unless it is
  the default, so that a name without surrogates can be stored.\<close>
theorem normalized_filename_safe:
  "normalize_original_filename filename \<noteq> [] \<and> len (normalize_original_filename filename) \<le> 255
   \<and> (\<forall>c \<in> set (normalize_original_filename filename). 32 \<le> c \<and> c \<noteq> 127 \<and> c \<noteq> 47 \<and> c \<noteq> 92)
   \<and> (list_all is_scalar (case filename of None \<Rightarrow> [] | Some name \<Rightarrow> name) \<longrightarrow> storable (normalize_original_filename filename))"
proof -
  define name where "name = (case filename of None \<Rightarrow> [] | Some name \<Rightarrow> name)"
  let ?s = "take 255 (filter (\<lambda>c. 32 \<le> c \<and> c \<noteq> 127) (path_name (map (\<lambda>c. if c = 92 then 47 else c) name)))"
  have n: "normalize_original_filename filename = (if ?s = [] then lit ''original.csv'' else ?s)"
    by (simp add: normalize_original_filename_def name_def Let_def)
  have d: "lit ''original.csv'' \<noteq> []" "len (lit ''original.csv'') \<le> 255" "storable (lit ''original.csv'')"
    "\<forall>c \<in> set (lit ''original.csv''). 32 \<le> c \<and> c \<noteq> 127 \<and> c \<noteq> 47 \<and> c \<noteq> 92"
    by code_simp+
  show ?thesis
  proof (cases "?s = []")
    case True
    with n d show ?thesis by simp
  next
    case False
    then have s: "normalize_original_filename filename = ?s" using n by simp
    define safe where "safe = ?s"
    have chars: "c \<in> set name \<and> 32 \<le> c \<and> c \<noteq> 127 \<and> c \<noteq> 47 \<and> c \<noteq> 92" if "c \<in> set safe" for c
      using safe_name_chars [of c name] that by (simp add: safe_def)
    have "storable safe" if "list_all is_scalar name"
      unfolding storable_def list_all_iff using that chars by (fastforce simp: list_all_iff)
    moreover have "len safe \<le> 255" "safe \<noteq> []" using False by (simp_all add: safe_def)
    ultimately show ?thesis unfolding s name_def [symmetric] safe_def [symmetric] using chars by simp
  qed
qed

theorem normalized_filename_safe_witness: "storable (normalize_original_filename (Some (lit ''../a/b.csv'')))"
proof -
  have "list_all is_scalar (case Some (lit ''../a/b.csv'') of None \<Rightarrow> [] | Some name \<Rightarrow> name)" by code_simp
  with normalized_filename_safe [of "Some (lit ''../a/b.csv'')"] show ?thesis by blast
qed

subsection \<open>The download header\<close>

text \<open>\<open>urllib.parse.unquote\<close>, as the reader of the header applies it.\<close>

definition hex_value :: "int \<Rightarrow> int" where
  "hex_value c = (if c < 58 then c - 48 else c - 55)"

function unquote_bytes :: "pystr \<Rightarrow> bytes" where
  "unquote_bytes cs = (case cs of
       [] \<Rightarrow> []
     | c # cs \<Rightarrow>
         if c = 37 \<and> 2 \<le> length cs then byte_of (hex_value (cs ! 0) * 16 + hex_value (cs ! 1)) # unquote_bytes (drop 2 cs)
         else byte_of c # unquote_bytes cs)"
  by pat_completeness auto
termination
  by (relation "measure length") auto

declare unquote_bytes.simps [simp del]

definition unquote_text :: "pystr \<Rightarrow> pystr" where
  "unquote_text cs = decode_utf8 (unquote_bytes cs)"

definition quoted_char :: "int \<Rightarrow> bool" where
  "quoted_char c \<longleftrightarrow> quote_safe c \<or> c = 37"

lemma hex_value_digit: "0 \<le> d \<Longrightarrow> d < 16 \<Longrightarrow> hex_value (upper_hex_digit d) = d"
  by (simp add: hex_value_def upper_hex_digit_def)

lemma unquote_quote_byte: "unquote_bytes (quote_byte b @ cs) = b # unquote_bytes cs"
proof (cases "quote_safe (uint b)")
  case True
  then have "uint b \<noteq> 37" by (auto simp: quote_safe_def ascii_alnum_def)
  with True show ?thesis by (simp add: quote_byte_def unquote_bytes.simps [of "_ # _"])
next
  case False
  have "0 \<le> uint b div 16" "uint b div 16 < 16"
    using byte_bound [of b] by (simp_all add: pos_imp_zdiv_nonneg_iff)
  then have "hex_value (upper_hex_digit (uint b div 16)) * 16 + hex_value (upper_hex_digit (uint b mod 16)) = uint b"
    by (simp add: hex_value_digit)
  with False show ?thesis by (simp add: quote_byte_def unquote_bytes.simps [of "_ # _"])
qed

lemma unquote_quote: "unquote_bytes (concat (map quote_byte bs)) = bs"
  by (induction bs) (simp_all add: unquote_quote_byte unquote_bytes.simps [of "[]"])

lemma quote_byte_chars: "c \<in> set (quote_byte b) \<Longrightarrow> quoted_char c"
proof -
  have h: "quoted_char (upper_hex_digit d)" if "0 \<le> d" "d < 16" for d
    using that by (auto simp: quoted_char_def quote_safe_def ascii_alnum_def upper_hex_digit_def)
  have "0 \<le> uint b div 16" "uint b div 16 < 16" 
    using byte_bound [of b] by (simp_all add: pos_imp_zdiv_nonneg_iff)
  moreover assume "c \<in> set (quote_byte b)"
  ultimately show ?thesis using h [of "uint b div 16"] h [of "uint b mod 16"]
    by (auto simp: quote_byte_def quoted_char_def split: if_splits)
qed

text \<open>C30: The download header cannot be broken out of and loses nothing: for every file name without surrogates it
  is the fixed text around a quoted fallback that consists of letters, digits, dots, dashes and underscores
  only and is not empty, and an encoded name that consists of unreserved characters and percent escapes
  only and decodes to the file name itself.\<close>
theorem content_disposition_safe:
  assumes "list_all is_scalar filename"
  shows "\<exists>fallback encoded.
    content_disposition filename = Inr (lit ''attachment; filename='' @ [34] @ fallback @ [34] @ lit ''; filename*=UTF-8'' @ [39, 39] @ encoded)
    \<and> fallback \<noteq> [] \<and> (\<forall>c \<in> set fallback. ascii_alnum c \<or> c \<in> {46, 45, 95})
    \<and> (\<forall>c \<in> set encoded. ascii_alnum c \<or> c \<in> {95, 46, 45, 126, 37})
    \<and> unquote_text encoded = filename"
proof -
  let ?safe = "map (\<lambda>c. if ascii_alnum c \<or> c \<in> {46, 95, 45} then c else 95) filename"
  let ?fallback = "if ?safe = [] then lit ''original.csv'' else ?safe"
  let ?encoded = "concat (map quote_byte (encode_utf8 filename))"
  have "content_disposition filename = Inr (lit ''attachment; filename='' @ [34] @ ?fallback @ [34] @ lit ''; filename*=UTF-8'' @ [39, 39] @ ?encoded)"
    using assms by (simp add: content_disposition_def quote_text_def Let_def)
  moreover have d: "lit ''original.csv'' \<noteq> []" "\<forall>c \<in> set (lit ''original.csv''). ascii_alnum c \<or> c \<in> {46, 45, 95}"
    by code_simp+
  then have "?fallback \<noteq> [] \<and> (\<forall>c \<in> set ?fallback. ascii_alnum c \<or> c \<in> {46, 45, 95})" by auto
  moreover have "\<forall>c \<in> set ?encoded. ascii_alnum c \<or> c \<in> {95, 46, 45, 126, 37}"
    using quote_byte_chars by (fastforce simp: quoted_char_def quote_safe_def)
  moreover have "unquote_text ?encoded = filename"
    using assms by (simp add: unquote_text_def unquote_quote decode_encode_utf8 list_all_iff)
  ultimately show ?thesis by blast
qed

theorem content_disposition_safe_witness:
  "\<exists>encoded. unquote_text encoded = [34, 13, 10, 1078] \<and> (\<forall>c \<in> set encoded. c \<noteq> 13 \<and> c \<noteq> 34)"
proof -
  have "list_all is_scalar [34, 13, 10, 1078]" by code_simp
  from content_disposition_safe [OF this] show ?thesis by (fastforce simp: ascii_alnum_def)
qed

end
