(* ===== verification/ApplyClaims.thy ===== *)
theory ApplyClaims
  imports ApplyProperties
begin

text \<open>
  The properties of \<open>ApplyReportService.apply\<close> as the worker runs it: with the lock check and
  without a step hook. Each has an application to a small shop with two warehouses.
\<close>

subsection \<open>A concrete database\<close>

definition quiet_env :: env where
  "quiet_env = \<lparr>env_fault = (\<lambda>_. False), env_commit = (\<lambda>_. Committed), env_lock = (\<lambda>_. LockOpen),
     env_time = (\<lambda>n. 100 + int n), env_collate = (\<lambda>_ _. True)\<rparr>"

definition blank_report :: "int \<Rightarrow> pystr \<Rightarrow> report" where
  "blank_report rid object = \<lparr>rp_id = rid, rp_status = Pending, rp_original_filename = lit ''stock.csv'',
     rp_object_bucket = lit ''reports'', rp_object_key = object, rp_size_bytes = 10, rp_checksum_sha256 = None,
     rp_created_at = rid, rp_processing_started_at = None, rp_finished_at = None, rp_row_count = 0,
     rp_error_count = 0, rp_stocks_created = 0, rp_stocks_updated = 0, rp_stocks_zeroed = 0,
     rp_failure_kind = None, rp_failure_message = None\<rparr>"

definition shop_row :: "int \<Rightarrow> int \<Rightarrow> string \<Rightarrow> string \<Rightarrow> string \<Rightarrow> int \<Rightarrow> staging_row" where
  "shop_row rid line code name item q = \<lparr>sg_report_id = rid, sg_line_number = line, sg_warehouse_code = lit code,
     sg_warehouse_name = lit name, sg_sku = lit item, sg_product_name = lit item, sg_quantity = q\<rparr>"

text \<open>Warehouses A (stock of X and Y) and B (stock of X); report 1 names A and the new C.\<close>

definition shop_rows :: "int \<Rightarrow> staging_row list" where
  "shop_rows rid = [shop_row rid 2 ''A'' ''North'' ''X'' 7, shop_row rid 3 ''C'' ''East'' ''X'' 1,
     shop_row rid 4 ''A'' ''Main'' ''Z'' 2]"

definition shop :: db where
  "shop = \<lparr>db_reports = [(blank_report 1 (lit ''k1''))\<lparr>rp_status := Processing, rp_row_count := 3\<rparr>,
       (blank_report 2 (lit ''k2''))\<lparr>rp_status := Processing, rp_row_count := 3\<rparr>, blank_report 3 (lit ''k3'')],
     db_warehouses = [\<lparr>ct_id = 1, ct_code = lit ''A'', ct_name = lit ''Old'', ct_created_at = 0, ct_updated_at = 0\<rparr>,
       \<lparr>ct_id = 2, ct_code = lit ''B'', ct_name = lit ''South'', ct_created_at = 0, ct_updated_at = 0\<rparr>],
     db_products = [\<lparr>ct_id = 1, ct_code = lit ''X'', ct_name = lit ''X'', ct_created_at = 0, ct_updated_at = 0\<rparr>,
       \<lparr>ct_id = 2, ct_code = lit ''Y'', ct_name = lit ''Y'', ct_created_at = 0, ct_updated_at = 0\<rparr>],
     db_stocks = [\<lparr>sb_warehouse_id = 1, sb_product_id = 1, sb_quantity = 5, sb_created_at = 0, sb_updated_at = 0\<rparr>,
       \<lparr>sb_warehouse_id = 1, sb_product_id = 2, sb_quantity = 6, sb_created_at = 0, sb_updated_at = 0\<rparr>,
       \<lparr>sb_warehouse_id = 2, sb_product_id = 1, sb_quantity = 9, sb_created_at = 0, sb_updated_at = 0\<rparr>],
     db_staging = shop_rows 1 @ shop_rows 2, db_errors = []\<rparr>"

definition shop_world :: world where
  "shop_world = \<lparr>w_db = shop, w_seq = \<lparr>sq_reports = 4, sq_warehouses = 3, sq_products = 3, sq_errors = 1\<rparr>,
     w_now = 0, w_tick = 0, w_env = quiet_env\<rparr>"

lemma shop_world_ok: "world_ok shop_world" by code_simp
lemma shop_no_duplicates: "no_duplicates (staged (w_db shop_world) 1)" by code_simp

abbreviation apply_next :: "int \<Rightarrow> ('x, apply_result) proc" where
  "apply_next rid \<equiv> apply_report None rid ensure_lock_connection_alive"

definition shop_after :: world where
  "shop_after = snd (apply_next 1 shop_world)"

lemma shop_run: "apply_next 1 shop_world = (Inr \<lparr>ar_report_id = 1, ar_row_count = 3, ar_stocks_created = 2,
    ar_stocks_updated = 1, ar_stocks_zeroed = 1\<rparr>, shop_after)"
proof -
  have "fst (apply_next 1 shop_world) = Inr \<lparr>ar_report_id = 1, ar_row_count = 3, ar_stocks_created = 2,
    ar_stocks_updated = 1, ar_stocks_zeroed = 1\<rparr>" by code_simp
  then show ?thesis by (simp add: shop_after_def prod_eq_iff)
qed

subsection \<open>The effect of an application\<close>

text \<open>C6: Applying a report replaces the stock of the warehouses it names by its rows, and nothing else: in terms
  of codes and SKUs, whatever identifiers the catalogs assign, a pair of the report has the report's quantity,
  any other pair of a named warehouse that was known has quantity zero, and every other pair is as before. This
  holds for every state that satisfies the constraints and every report without duplicate pairs.\<close>
theorem apply_refines_snapshot:
  assumes "world_ok w" and "no_duplicates (staged (w_db w) rid)" and "apply_next rid w = (Inr res, w')"
  shows "abs_stock (w_db w') = snapshot (staged (w_db w) rid) (abs_stock (w_db w))"
  using worker_guards.apply_report_Inr [OF assms] by (auto simp: applied_def)

theorem apply_refines_snapshot_witness:
  "abs_stock (w_db shop_after) (lit ''A'', lit ''Y'') = Some 0 \<and> abs_stock (w_db shop_after) (lit ''C'', lit ''X'') = Some 1
    \<and> abs_stock (w_db shop_after) (lit ''B'', lit ''X'') = Some 9"
proof -
  have "snapshot (staged (w_db shop_world) 1) (abs_stock (w_db shop_world)) (lit ''A'', lit ''Y'') = Some 0"
    "snapshot (staged (w_db shop_world) 1) (abs_stock (w_db shop_world)) (lit ''C'', lit ''X'') = Some 1"
    "snapshot (staged (w_db shop_world) 1) (abs_stock (w_db shop_world)) (lit ''B'', lit ''X'') = Some 9"
    by code_simp+
  with apply_refines_snapshot [OF shop_world_ok shop_no_duplicates shop_run] show ?thesis by simp
qed

text \<open>C14: The counters a successful application returns are exact: they count the pairs whose change, before
  against after, \<open>classify_stock_change\<close> puts into each class. In particular the three SQL subqueries, which work on
  joined rows and identifiers, agree with the rule stated for single pairs.\<close>
theorem apply_counters_exact:
  assumes "world_ok w" and "no_duplicates (staged (w_db w) rid)" and "apply_next rid w = (Inr res, w')"
  shows "ar_stocks_created res = int (card (stock_changes (staged (w_db w) rid) (abs_stock (w_db w)) Created))
    \<and> ar_stocks_updated res = int (card (stock_changes (staged (w_db w) rid) (abs_stock (w_db w)) Updated))
    \<and> ar_stocks_zeroed res = int (card (stock_changes (staged (w_db w) rid) (abs_stock (w_db w)) Zeroed))"
  using worker_guards.apply_report_Inr [OF assms] by (auto simp: applied_def)

theorem apply_counters_exact_witness:
  "card (stock_changes (staged (w_db shop_world) 1) (abs_stock (w_db shop_world)) Created) = 2"
  using apply_counters_exact [OF shop_world_ok shop_no_duplicates shop_run] by simp

text \<open>C15: A successful application touches one report only. The report was ready (status processing, no errors,
  as many staging rows as its row count); it becomes completed, with the returned counters, the time of the
  transaction and no failure; its staging rows are gone. Every other report, every other staging row and all
  report errors are as before.\<close>
theorem apply_completes_report:
  assumes "world_ok w" and "no_duplicates (staged (w_db w) rid)" and "apply_next rid w = (Inr res, w')"
  shows "(\<exists>r. find_report rid (w_db w) = Some r \<and> rp_status r = Processing \<and> rp_error_count r = 0
      \<and> rp_row_count r = len (staged (w_db w) rid) \<and> 0 < rp_row_count r
      \<and> find_report rid (w_db w') = Some (r\<lparr>rp_status := Completed,
           rp_finished_at := Some (env_time (w_env w) (w_tick w)), rp_failure_kind := None, rp_failure_message := None,
           rp_stocks_created := ar_stocks_created res, rp_stocks_updated := ar_stocks_updated res,
           rp_stocks_zeroed := ar_stocks_zeroed res\<rparr>))
    \<and> filter (\<lambda>r. rp_id r \<noteq> rid) (db_reports (w_db w')) = filter (\<lambda>r. rp_id r \<noteq> rid) (db_reports (w_db w))
    \<and> db_staging (w_db w') = filter (\<lambda>s. sg_report_id s \<noteq> rid) (db_staging (w_db w))
    \<and> db_errors (w_db w') = db_errors (w_db w)"
proof -
  from worker_guards.apply_report_Inr [OF assms] obtain r where
    r: "find_report rid (w_db w) = Some r" "\<not> not_ready r (staging_count rid (w_db w))"
    and a: "applied rid (env_time (w_env w) (w_tick w)) (w_db w) (w_db w')
      (ar_stocks_created res, ar_stocks_updated res, ar_stocks_zeroed res)" by blast
  note tables = appliedD [OF a]
  have "filter (\<lambda>r. rp_id r \<noteq> rid) (db_reports (w_db w')) = filter (\<lambda>r. rp_id r \<noteq> rid) (db_reports (w_db w))"
    unfolding tables(2) by (rule filter_update_others) simp
  with applied_report [OF a r(1)] r tables(3,4) show ?thesis
    by (simp add: not_ready_def staging_count_def complete_report_def)
qed

theorem apply_completes_report_witness:
  "db_staging (w_db shop_after) = shop_rows 2 \<and> db_errors (w_db shop_after) = []"
  using apply_completes_report [OF shop_world_ok shop_no_duplicates shop_run]
  by (simp add: shop_world_def shop_def shop_rows_def shop_row_def)

text \<open>C7: The application is atomic. When it raises, no table has changed; the one exception is a commit that took
  effect without its acknowledgement, and then the database error stands for a complete application.\<close>
theorem apply_all_or_nothing:
  assumes "world_ok w" and "no_duplicates (staged (w_db w) rid)" and "apply_next rid w = (Inl e, w')"
  shows "w_db w' = w_db w
    \<or> e = DatabaseErr \<and> (\<exists>counters. applied rid (env_time (w_env w) (w_tick w)) (w_db w) (w_db w') counters)"
  using worker_guards.apply_report_Inl [OF assms] .

definition lock_lost_world :: world where
  "lock_lost_world = shop_world\<lparr>w_env := quiet_env\<lparr>env_lock := (\<lambda>n. if n < 9 then LockOpen else LockClosed)\<rparr>\<rparr>"

theorem apply_all_or_nothing_witness:
  "w_db (snd (apply_next 1 lock_lost_world)) = w_db lock_lost_world"
proof -
  have "fst (apply_next 1 lock_lost_world) = Inl LockConnectionLost" by code_simp
  then have "apply_next 1 lock_lost_world = (Inl LockConnectionLost, snd (apply_next 1 lock_lost_world))"
    by (simp add: prod_eq_iff)
  moreover have "world_ok lock_lost_world" "no_duplicates (staged (w_db lock_lost_world) 1)" by code_simp+
  ultimately show ?thesis using apply_all_or_nothing by fastforce
qed

text \<open>C18: When from now on no statement and no lock check fails and commits are acknowledged, the application of a
  ready report without duplicate pairs returns: no constraint, foreign key, bound or cardinality check can stop it.\<close>
theorem apply_succeeds:
  assumes "calm w" and "world_ok w" and "no_duplicates (staged (w_db w) rid)"
    and "find_report rid (w_db w) = Some r" and "rp_status r = Processing" and "rp_error_count r = 0"
    and "0 < rp_row_count r" and "rp_row_count r = len (staged (w_db w) rid)"
    and "len (db_stocks (w_db w)) \<le> POSTGRES_BIGINT_MAX"
  shows "\<exists>res w'. apply_next rid w = (Inr res, w')"
proof -
  have ready: "\<not> not_ready r (staging_count rid (w_db w))" using assms(5-8) by (simp add: not_ready_def staging_count_def)
  have "constraints_ok (w_db w)" using assms(2) by (simp add: world_ok_def)
  from worker_guards.calm_apply_report [OF calm_at_self [OF assms(1)] this world_ok_catalogs [OF assms(2)] assms(3,4) ready assms(9)]
  show ?thesis by blast
qed

theorem apply_succeeds_witness: "\<exists>res w'. apply_next 2 shop_world = (Inr res, w')"
proof (rule apply_succeeds [where r = "(blank_report 2 (lit ''k2''))\<lparr>rp_status := Processing, rp_row_count := 3\<rparr>"])
  show "calm shop_world" by (simp add: calm_def shop_world_def quiet_env_def)
qed (code_simp, code_simp, simp add: find_report_def shop_world_def shop_def blank_report_def, code_simp+)

text \<open>C39: The catalogs follow the report: a warehouse or product named in it ends up with the name of its last row,
  and every other name is as before, whether the entry existed or not.\<close>
theorem apply_last_name_wins:
  assumes "world_ok w" and "no_duplicates (staged (w_db w) rid)" and "apply_next rid w = (Inr res, w')"
  shows "name_of (db_warehouses (w_db w')) c = (case latest_row (filter (\<lambda>s. sg_warehouse_code s = c) (staged (w_db w) rid)) of
        None \<Rightarrow> name_of (db_warehouses (w_db w)) c | Some s \<Rightarrow> Some (sg_warehouse_name s))
    \<and> name_of (db_products (w_db w')) k = (case latest_row (filter (\<lambda>s. sg_sku s = k) (staged (w_db w) rid)) of
        None \<Rightarrow> name_of (db_products (w_db w)) k | Some s \<Rightarrow> Some (sg_product_name s))"
  using worker_guards.apply_report_Inr [OF assms]
  by (auto simp: applied_def latest_name_def split: option.split)

theorem apply_last_name_wins_witness:
  "name_of (db_warehouses (w_db shop_after)) (lit ''A'') = Some (lit ''Main'')"
proof -
  have "latest_row (filter (\<lambda>s. sg_warehouse_code s = lit ''A'') (staged (w_db shop_world) 1))
      = Some (shop_row 1 4 ''A'' ''Main'' ''Z'' 2)"
    by code_simp
  with apply_last_name_wins [OF shop_world_ok shop_no_duplicates shop_run, of "lit ''A''"]
  show ?thesis by (simp add: shop_row_def)
qed

text \<open>C40: Importing the same rows again changes no stock: a second report with the rows of the first, applied after
  it, leaves every quantity as it is and reports zero created, updated and zeroed balances.\<close>
theorem reimport_changes_nothing:
  assumes "world_ok w" and "no_duplicates (staged (w_db w) rid)" and "rid2 \<noteq> rid"
    and "map (\<lambda>s. (pair_key s, sg_quantity s)) (staged (w_db w) rid2) = map (\<lambda>s. (pair_key s, sg_quantity s)) (staged (w_db w) rid)"
    and "apply_next rid w = (Inr res, w')" and "apply_next rid2 w' = (Inr res2, w'')"
  shows "abs_stock (w_db w'') = abs_stock (w_db w')
    \<and> ar_stocks_created res2 = 0 \<and> ar_stocks_updated res2 = 0 \<and> ar_stocks_zeroed res2 = 0"
proof -
  from worker_guards.apply_report_Inr [OF assms(1,2,5)] obtain c now where
    "applied rid now (w_db w) (w_db w') c" by blast
  note first = appliedD [OF this]
  have a: "abs_stock (w_db w') = snapshot (staged (w_db w) rid) (abs_stock (w_db w))"
    "staged (w_db w') rid2 = staged (w_db w) rid2"
    using assms(3) first(1) by (auto simp: staged_def first(3) intro: filter_cong)
  have same: "same_rows (staged (w_db w) rid2) (staged (w_db w) rid)" using assms(4) by (simp add: same_rows_def)
  have w': "world_ok w'" using keepsD [OF worker_guards.keeps_apply_report assms(1,5)] by blast
  have nd2: "no_duplicates (staged (w_db w') rid2)" using same assms(2) a(2) by (simp add: same_rows_no_duplicates)
  from worker_guards.apply_report_Inr [OF w' nd2 assms(6)]
  show ?thesis
    unfolding applied_def a
    by (auto simp: snapshot_same_rows [OF same] changes_same_rows [OF same] snapshot_idem no_changes_after_snapshot)
qed

theorem reimport_changes_nothing_witness:
  "\<exists>w res. apply_next 2 shop_after = (Inr res, w) \<and> abs_stock (w_db w) = abs_stock (w_db shop_after)"
proof -
  have "fst (apply_next 2 shop_after) = Inr \<lparr>ar_report_id = 2, ar_row_count = 3, ar_stocks_created = 0,
    ar_stocks_updated = 0, ar_stocks_zeroed = 0\<rparr>" by code_simp
  then have "apply_next 2 shop_after = (Inr \<lparr>ar_report_id = 2, ar_row_count = 3, ar_stocks_created = 0,
    ar_stocks_updated = 0, ar_stocks_zeroed = 0\<rparr>, snd (apply_next 2 shop_after))" by (simp add: prod_eq_iff)
  moreover have "map (\<lambda>s. (pair_key s, sg_quantity s)) (staged (w_db shop_world) 2)
      = map (\<lambda>s. (pair_key s, sg_quantity s)) (staged (w_db shop_world) 1)" by code_simp
  ultimately show ?thesis
    using reimport_changes_nothing [OF shop_world_ok shop_no_duplicates _ _ shop_run, of 2] by auto
qed

text \<open>A report that is not ready is refused without effect: when it does not exist, is not processing, has
  recorded errors, has no rows, or has another number of staging rows than its row count, the call raises (the
  refusal itself when no statement fails) and every table is as before.\<close>
theorem apply_refuses_unready:
  assumes "\<forall>r. find_report rid (w_db w) = Some r \<longrightarrow> rp_status r \<noteq> Processing \<or> rp_error_count r \<noteq> 0
      \<or> rp_row_count r \<le> 0 \<or> len (staged (w_db w) rid) \<noteq> rp_row_count r"
  shows "\<exists>e w'. apply_next rid w = (Inl e, w') \<and> w_db w' = w_db w
    \<and> (calm w \<longrightarrow> e = ReportNotReadyForApply)"
proof -
  have "not_ready r (staging_count rid (w_db w))" if "find_report rid (w_db w) = Some r" for r
    using assms that by (auto simp: not_ready_def staging_count_def)
  then have "\<exists>e. fst (apply_body None rid ensure_lock_connection_alive (w\<lparr>w_now := env_time (w_env w) (w_tick w)\<rparr>)) = Inl e
      \<and> (e = ReportNotReadyForApply \<or> env_lock (w_env w) (w_tick w) \<noteq> LockOpen \<or> (\<exists>n \<ge> w_tick w. env_fault (w_env w) n))"
    by (auto simp: apply_body_def act_simps ensure_lock_connection_alive_def query_def split: option.split intro: le_SucI)
  then obtain e w1 where "apply_body None rid ensure_lock_connection_alive
        (w\<lparr>w_now := env_time (w_env w) (w_tick w)\<rparr>) = (Inl e, w1)"
      "calm w \<Longrightarrow> e = ReportNotReadyForApply"
    by (auto simp: calm_def prod_eq_iff)
  then show ?thesis by (simp add: apply_report_def transaction_def)
qed

theorem apply_refuses_unready_witness:
  "\<exists>w'. apply_next 3 shop_world = (Inl ReportNotReadyForApply, w') \<and> w_db w' = shop"
proof -
  have c: "calm shop_world" by (simp add: calm_def shop_world_def quiet_env_def)
  have "find_report 3 (w_db shop_world) = Some (blank_report 3 (lit ''k3''))"
    by (simp add: find_report_def shop_world_def shop_def blank_report_def)
  then have "\<forall>r. find_report 3 (w_db shop_world) = Some r \<longrightarrow> rp_status r \<noteq> Processing \<or> rp_error_count r \<noteq> 0
      \<or> rp_row_count r \<le> 0 \<or> len (staged (w_db shop_world) 3) \<noteq> rp_row_count r"
    by (simp add: blank_report_def)
  from apply_refuses_unready [OF this] c show ?thesis by (auto simp: shop_world_def)
qed

end
