(* ===== verification/ProcessingClaims.thy ===== *)
theory ProcessingClaims
  imports FailedCycles ApplyClaims
begin

text \<open>
  The properties of a worker cycle, \<open>process_next_report\<close>, and of its parts.
\<close>

subsection \<open>A concrete worker\<close>

text \<open>A storage that holds one file, whatever is asked for, and the shop with a pending report 3.\<close>

definition file_storage :: "bytes list \<Rightarrow> 'x object_storage" where
  "file_storage chunks = \<lparr>st_download_stream = (\<lambda>b k. ret chunks), st_next_chunk = ret (), st_close = ret (),
     st_fetches = (\<lambda>_. 1)\<rparr>"

lemma aloof_ret [simp]: "aloof (ret a)"
  by (simp add: aloof_def act_simps)

lemma aloof_file_storage [simp]: "aloof_storage (file_storage chunks)"
  by (simp add: aloof_storage_def file_storage_def)

definition worker_shop :: "db \<Rightarrow> env \<Rightarrow> writer_world" where
  "worker_shop d e = \<lparr>w_db = d, w_seq = \<lparr>sq_reports = 4, sq_warehouses = 3, sq_products = 3, sq_errors = 1\<rparr>,
     w_now = 0, w_tick = 0, w_env = e, vb_staging_batch = [], vb_error_batch = []\<rparr>"

definition pending_shop :: db where
  "pending_shop = shop\<lparr>db_reports := [blank_report 3 (lit ''k3'')], db_staging := []\<rparr>"

text \<open>Small files are evaluated without their pieces.\<close>

lemma validate_csv_stream_code [code]:
  "validate_csv_stream cb lim chunks = (let t = decode_utf8_sig (concat chunks) in
     validate_csv_text cb lim (if len t \<le> TEXT_READ_CHARS then (if t = [] then [] else [t])
       else text_pieces (nat TEXT_READ_CHARS) t))"
proof -
  have "text_pieces (nat TEXT_READ_CHARS) t = (if t = [] then [] else [t])" if "len t \<le> TEXT_READ_CHARS" for t
    using that by (cases t) (auto simp: text_pieces.simps TEXT_READ_CHARS_def)
  then show ?thesis by (simp add: validate_csv_stream_def stream_text_decode Let_def)
qed

definition small_file :: bytes where
  "small_file = map of_char (''warehouse_code,warehouse_name,sku,product_name,quantity'' @ [CHR 10]
     @ ''A,N,X,X,7'' @ [CHR 10] @ ''C,E,Z,Z,2'' @ [CHR 10])"

definition doubled_file :: bytes where
  "doubled_file = small_file @ map of_char (''A,N,X,X,8'' @ [CHR 10])"

abbreviation work :: "bytes \<Rightarrow> writer_world \<Rightarrow> (exn + worker_cycle_outcome) \<times> writer_world" where
  "work file \<equiv> process_next_report (\<lambda>_. True) (file_storage [file]) default_limits 2 None"

definition first_cycle :: writer_world where
  "first_cycle = snd (work small_file (worker_shop pending_shop quiet_env))"

definition second_cycle :: writer_world where
  "second_cycle = snd (work small_file first_cycle)"

definition doubled_cycle :: writer_world where
  "doubled_cycle = snd (work doubled_file (worker_shop pending_shop quiet_env))"

lemma start_ok: "world_ok (worker_shop pending_shop quiet_env)" "ready_ok (w_db (worker_shop pending_shop quiet_env))"
  by code_simp+

lemma first_run: "work small_file (worker_shop pending_shop quiet_env) = (Inr VALIDATED, first_cycle)"
proof -
  have "fst (work small_file (worker_shop pending_shop quiet_env)) = Inr VALIDATED" by code_simp
  then show ?thesis by (simp add: first_cycle_def prod_eq_iff)
qed

lemma second_run: "work small_file first_cycle = (Inr COMPLETED, second_cycle)"
proof -
  have "fst (work small_file first_cycle) = Inr COMPLETED" by code_simp
  then show ?thesis by (simp add: second_cycle_def prod_eq_iff)
qed

lemma doubled_run: "work doubled_file (worker_shop pending_shop quiet_env) = (Inr VALIDATION_FAILED, doubled_cycle)"
proof -
  have "fst (work doubled_file (worker_shop pending_shop quiet_env)) = Inr VALIDATION_FAILED" by code_simp
  then show ?thesis by (simp add: doubled_cycle_def prod_eq_iff)
qed

lemma silent_no_hook: "silent (run_hook None step)"
  by (simp add: run_hook_def)

subsection \<open>Every cycle\<close>

text \<open>C4: A worker cycle keeps the database consistent, whatever it does and wherever it breaks off: for every storage
  content, every failure of a statement, a commit, the lock or the download, the constraints and identity
  sequences stay intact, a report whose validation is complete has no duplicate pairs, no report appears or
  disappears, and none leaves its life cycle: a finished one never changes, none becomes pending again, and what registration recorded stays.\<close>
theorem cycle_keeps_invariants:
  assumes "aloof_storage storage" and "\<forall>step. silent (run_hook hook step)"
    and "world_ok w" and "ready_ok (w_db w)"
    and "process_next_report granted storage lim batch_size hook w = (res, w')"
  shows "world_ok w' \<and> ready_ok (w_db w')
    \<and> list_all2 report_step (db_reports (w_db w)) (db_reports (w_db w'))"
proof -
  have parts: "cycle_parts storage hook" using assms(1,2) by unfold_locales auto
  have "on_tables living w w'" by (rule movesD [OF cycle_parts.living_cycle [OF parts] assms(5)])
  moreover have "ready_ok (w_db w')" by (rule cycle_parts.cycle_ready_ok [OF parts assms(3-5)])
  ultimately show ?thesis using assms(3) by (simp add: on_tables_def living_def world_ok_def progress_def)
qed

theorem cycle_keeps_invariants_witness: "world_ok second_cycle \<and> ready_ok (w_db second_cycle)"
proof -
  have h: "\<forall>step. silent (run_hook None step)" by (simp add: silent_no_hook)
  have "world_ok first_cycle" "ready_ok (w_db first_cycle)"
    using cycle_keeps_invariants [OF aloof_file_storage h start_ok first_run] by blast+
  from cycle_keeps_invariants [OF aloof_file_storage h this second_run] show ?thesis by blast
qed

text \<open>C16: Reports are taken in order of registration. A cycle that gets past its claim works on an unfinished report
  than which no unfinished one is older (by creation time, then by id); it applies it exactly when its validation
  is complete, that is when it is processing without errors and all its rows are staged; otherwise it starts
  over: status processing, counters reset, no failure, no staging rows and no errors of earlier attempts.\<close>
theorem claim_oldest_first:
  assumes "claim_or_recover_next_report w = (Inr (source, ready_for_apply), w')"
  shows "(source = None \<and> w_db w' = w_db w \<and> (\<forall>r \<in> set (db_reports (w_db w)). \<not> unfinished r))
    \<or> (\<exists>r. source = Some (report_source_of r) \<and> r \<in> set (db_reports (w_db w)) \<and> unfinished r
        \<and> (\<forall>r' \<in> set (db_reports (w_db w)). unfinished r' \<longrightarrow>
             rp_created_at r < rp_created_at r' \<or> (rp_created_at r = rp_created_at r' \<and> rp_id r \<le> rp_id r'))
        \<and> (ready_for_apply \<longleftrightarrow> rp_status r = Processing \<and> 0 < rp_row_count r \<and> rp_error_count r = 0
             \<and> len (staged (w_db w) (rp_id r)) = rp_row_count r \<and> errors_of (w_db w) (rp_id r) = [])
        \<and> w_db w' = (if ready_for_apply then w_db w
                      else claimed_db (env_time (w_env w) (w_tick w)) r (w_db w)))"
proof (cases "next_report (w_db w)")
  case None
  with claim_Inr [OF assms] next_report_None [of "w_db w"] show ?thesis by (simp add: claim_result_def)
next
  case (Some r)
  note q = next_report_Some [OF Some]
  have "source = Some (report_source_of r)" "ready_for_apply = ready (w_db w) r"
    "w_db w' = (if ready (w_db w) r then w_db w else claimed_db (env_time (w_env w) (w_tick w)) r (w_db w))"
    using claim_Inr [OF assms] Some by (auto simp: claim_result_def split: if_splits)
  with q show ?thesis by (auto simp: queue_le_def ready_def)
qed

theorem claim_oldest_first_witness:
  "w_db (snd (claim_or_recover_next_report (worker_shop shop quiet_env))) = shop"
proof -
  have "fst (claim_or_recover_next_report (worker_shop shop quiet_env))
      = Inr (Some \<lparr>rs_id = 1, rs_object_bucket = lit ''reports'', rs_object_key = lit ''k1''\<rparr>, True)"
    by code_simp
  then have "claim_or_recover_next_report (worker_shop shop quiet_env)
      = (Inr (Some \<lparr>rs_id = 1, rs_object_bucket = lit ''reports'', rs_object_key = lit ''k1''\<rparr>, True),
         snd (claim_or_recover_next_report (worker_shop shop quiet_env)))" by (simp add: prod_eq_iff)
  from claim_oldest_first [OF this] show ?thesis by (auto simp: worker_shop_def)
qed

subsection \<open>Cycles by outcome\<close>

lemma parts: "aloof_storage storage \<Longrightarrow> \<forall>step. silent (run_hook hook step) \<Longrightarrow> cycle_parts storage hook"
  by unfold_locales auto

lemma guards: "\<forall>step. silent (run_hook hook step) \<Longrightarrow> apply_guards hook ensure_lock_connection_alive"
  by unfold_locales simp_all

text \<open>C5: A cycle that reports completion has applied the oldest unfinished report, and completely: that report was
  ready, the stock is the snapshot of its staged rows, the report is completed with the number of balances
  created, updated and zeroed, its staging rows are gone, and all other reports are as before. No assumption on
  duplicates is left: validation guarantees it.\<close>
theorem completed_cycle_applies:
  assumes "aloof_storage storage" and "\<forall>step. silent (run_hook hook step)"
    and "world_ok w" and "ready_ok (w_db w)"
    and "process_next_report granted storage lim batch_size hook w = (Inr COMPLETED, w')"
  shows "\<exists>r now. next_report (w_db w) = Some r \<and> ready (w_db w) r
    \<and> abs_stock (w_db w') = snapshot (staged (w_db w) (rp_id r)) (abs_stock (w_db w))
    \<and> find_report (rp_id r) (w_db w') = Some (r\<lparr>rp_status := Completed, rp_finished_at := Some now,
         rp_failure_kind := None, rp_failure_message := None,
         rp_stocks_created := int (card (stock_changes (staged (w_db w) (rp_id r)) (abs_stock (w_db w)) Created)),
         rp_stocks_updated := int (card (stock_changes (staged (w_db w) (rp_id r)) (abs_stock (w_db w)) Updated)),
         rp_stocks_zeroed := int (card (stock_changes (staged (w_db w) (rp_id r)) (abs_stock (w_db w)) Zeroed))\<rparr>)
    \<and> db_staging (w_db w') = filter (\<lambda>s. sg_report_id s \<noteq> rp_id r) (db_staging (w_db w))
    \<and> filter (\<lambda>r'. rp_id r' \<noteq> rp_id r) (db_reports (w_db w')) = filter (\<lambda>r'. rp_id r' \<noteq> rp_id r) (db_reports (w_db w))"
proof -
  obtain w2 where run: "process_report storage lim batch_size hook ensure_lock_connection_alive (tick (tick w)) = (Inr COMPLETED, w2)"
    and d2: "w_db w' = w_db w2"
    using cycle_as_report [OF assms(5)] by auto
  from run obtain r w1 where r: "next_report (w_db w) = Some r" "ready (w_db w) r" and w1: "w_db w1 = w_db w"
    and cl: "claim_or_recover_next_report (tick (tick w)) = (Inr (Some (report_source_of r), True), w1)"
    and ap: "process_apply hook ensure_lock_connection_alive (rp_id r) w1 = (Inr COMPLETED, w2)"
  proof (cases rule: process_report_cases)
    case (validating r w1 now)
    from process_validation_verdict [OF validating(5)] conclude_outcome show ?thesis by blast
  qed (simp_all add: that)
  have "world_ok (tick (tick w))" using assms(3) by (simp add: world_ok_def)
  with movesD [OF living_claim cl] have ok1: "world_ok w1"
    by (simp add: on_tables_def living_def world_ok_def)
  have nd: "no_duplicates (staged (w_db w1) (rp_id r))"
    using ready_no_duplicates [OF assms(4) r] w1 by simp
  obtain res where res: "apply_report hook (rp_id r) ensure_lock_connection_alive w1 = (Inr res, w2)"
    using process_apply_verdict [OF ap] by auto
  from apply_guards.apply_report_Inr [OF guards [OF assms(2)] ok1 nd res] w1 obtain now c where
    a: "applied (rp_id r) now (w_db w) (w_db w2) c" by auto
  have "c = (int (card (stock_changes (staged (w_db w) (rp_id r)) (abs_stock (w_db w)) Created)),
      int (card (stock_changes (staged (w_db w) (rp_id r)) (abs_stock (w_db w)) Updated)),
      int (card (stock_changes (staged (w_db w) (rp_id r)) (abs_stock (w_db w)) Zeroed)))"
    using a by (simp add: applied_def)
  moreover have "find_report (rp_id r) (w_db w) = Some r"
    using next_report_Some [OF r(1)] assms(3) find_report_in by (auto simp: world_ok_def constraints_ok_def)
  ultimately have "find_report (rp_id r) (w_db w') = Some (r\<lparr>rp_status := Completed, rp_finished_at := Some now,
         rp_failure_kind := None, rp_failure_message := None,
         rp_stocks_created := int (card (stock_changes (staged (w_db w) (rp_id r)) (abs_stock (w_db w)) Created)),
         rp_stocks_updated := int (card (stock_changes (staged (w_db w) (rp_id r)) (abs_stock (w_db w)) Updated)),
         rp_stocks_zeroed := int (card (stock_changes (staged (w_db w) (rp_id r)) (abs_stock (w_db w)) Zeroed))\<rparr>)"
    using applied_report [OF a] d2 by (simp add: complete_report_def)
  moreover have "filter (\<lambda>r'. rp_id r' \<noteq> rp_id r) (db_reports (w_db w')) = filter (\<lambda>r'. rp_id r' \<noteq> rp_id r) (db_reports (w_db w))"
    using applied_others [OF a] d2 by (simp add: others_rows_def)
  ultimately show ?thesis using r d2 appliedD(1,3) [OF a] by (intro exI [of _ r] exI [of _ now]) simp
qed

theorem completed_cycle_applies_witness:
  "abs_stock (w_db second_cycle) (lit ''A'', lit ''Y'') = Some 0 \<and> db_staging (w_db second_cycle) = []"
proof -
  have h: "\<forall>step. silent (run_hook None step)" by (simp add: silent_no_hook)
  have ok: "world_ok first_cycle" "ready_ok (w_db first_cycle)" by code_simp+
  have st: "staged (w_db first_cycle) 3 = db_staging (w_db first_cycle)" "rp_id (the (next_report (w_db first_cycle))) = 3"
    "filter (\<lambda>s. sg_report_id s \<noteq> 3) (db_staging (w_db first_cycle)) = []"
    "snapshot (staged (w_db first_cycle) 3) (abs_stock (w_db first_cycle)) (lit ''A'', lit ''Y'') = Some 0"
    by code_simp+
  from completed_cycle_applies [OF aloof_file_storage h ok second_run] st show ?thesis by auto
qed

text \<open>The verdict of a validating cycle is the file's: the cycle has taken the oldest unfinished report, downloaded
  its object and, wherever reads and batches fell, found the rows and issues that the reference outcome of the
  file's text says. It ends as validated exactly when there are no issues and no pair occurs twice, and then the
  staging rows are the file's rows and the row count is theirs; otherwise the report has failed with exactly the
  file's issues followed by one per repeated pair, their number as error count, and no staging rows.\<close>
theorem verdict_matches_file:
  assumes "aloof_storage storage" and "world_ok w"
    and "process_next_report granted storage lim batch_size hook w = (Inr outcome, w')"
    and "outcome = VALIDATED \<or> outcome = VALIDATION_FAILED"
  shows "\<exists>r w1 w2 chunks items s rows issues. next_report (w_db w) = Some r \<and> \<not> ready (w_db w) r
    \<and> st_download_stream storage (rp_object_bucket r) (rp_object_key r) w1 = (Inr chunks, w2)
    \<and> csv_outcome lim (decode_utf8_sig (concat chunks)) = (items, Inr s)
    \<and> rows = map (staging_values (rp_id r)) (delivered items)
    \<and> issues = reported_issues items @ map (duplicate_issue (duplicate_raw_value_chars lim))
        (filter (\<lambda>s. \<exists>t \<in> set rows. pair_key t = pair_key s \<and> sg_line_number t < sg_line_number s) rows)
    \<and> (if issues = [] then
         outcome = VALIDATED \<and> staged (w_db w') (rp_id r) = rows \<and> errors_of (w_db w') (rp_id r) = []
         \<and> (\<exists>now. find_report (rp_id r) (w_db w') = Some ((claimed now r)\<lparr>rp_row_count := s_row_count s\<rparr>))
       else
         outcome = VALIDATION_FAILED \<and> staged (w_db w') (rp_id r) = []
         \<and> map issue_of (errors_of (w_db w') (rp_id r)) = issues
         \<and> (\<exists>now now'. find_report (rp_id r) (w_db w')
               = Some (validation_failed (s_row_count s) (len issues) now' (claimed now r))))"
  using cycle_verdict [OF assms] by (elim exE conjE) (intro exI conjI, assumption+)

theorem verdict_matches_file_witness:
  "\<exists>r. next_report (w_db (worker_shop pending_shop quiet_env)) = Some r
    \<and> errors_of (w_db doubled_cycle) (rp_id r) \<noteq> [] \<and> staged (w_db doubled_cycle) (rp_id r) = []"
proof -
  from verdict_matches_file [OF aloof_file_storage start_ok(1) doubled_run] obtain r rows issues and s :: csv_summary where
    r: "next_report (w_db (worker_shop pending_shop quiet_env)) = Some r"
    and i: "if issues = [] then
         VALIDATION_FAILED = VALIDATED \<and> staged (w_db doubled_cycle) (rp_id r) = rows \<and> errors_of (w_db doubled_cycle) (rp_id r) = []
         \<and> (\<exists>now. find_report (rp_id r) (w_db doubled_cycle) = Some ((claimed now r)\<lparr>rp_row_count := s_row_count s\<rparr>))
       else
         VALIDATION_FAILED = VALIDATION_FAILED \<and> staged (w_db doubled_cycle) (rp_id r) = []
         \<and> map issue_of (errors_of (w_db doubled_cycle) (rp_id r)) = issues
         \<and> (\<exists>now now'. find_report (rp_id r) (w_db doubled_cycle)
               = Some (validation_failed (s_row_count s) (len issues) now' (claimed now r)))"
    by blast
  have "issues \<noteq> []" using i by auto
  then have "staged (w_db doubled_cycle) (rp_id r) = []" "errors_of (w_db doubled_cycle) (rp_id r) \<noteq> []" using i by auto
  with r show ?thesis by blast
qed

text \<open>C13: A cycle that does not apply touches one report only: when the oldest unfinished report is not ready, then
  whatever the cycle does and however it ends, no stock balance, warehouse or product changes, and every other
  report keeps its fields, its staging rows and its errors.\<close>
theorem validation_confined:
  assumes "aloof_storage storage" and "next_report (w_db w) = Some r" and "\<not> ready (w_db w) r"
    and "process_next_report granted storage lim batch_size hook w = (res, w')"
  shows "db_stocks (w_db w') = db_stocks (w_db w) \<and> db_warehouses (w_db w') = db_warehouses (w_db w)
    \<and> db_products (w_db w') = db_products (w_db w)
    \<and> filter (\<lambda>r'. rp_id r' \<noteq> rp_id r) (db_reports (w_db w')) = filter (\<lambda>r'. rp_id r' \<noteq> rp_id r) (db_reports (w_db w))
    \<and> filter (\<lambda>s. sg_report_id s \<noteq> rp_id r) (db_staging (w_db w')) = filter (\<lambda>s. sg_report_id s \<noteq> rp_id r) (db_staging (w_db w))
    \<and> filter (\<lambda>e. er_report_id e \<noteq> rp_id r) (db_errors (w_db w')) = filter (\<lambda>e. er_report_id e \<noteq> rp_id r) (db_errors (w_db w))"
proof -
  have claim: "others_kept (rp_id r) (w_db w) sq (claimed_db now r (w_db w)) sq'" for now sq sq'
    using claimed_others [of r "w_db w" now] by (simp add: others_rows_def others_kept_def claimed_db_def)
  have "others_kept (rp_id r) (w_db w) sq (w_db w2) sq'"
    if run: "process_report storage lim batch_size hook ensure_lock_connection_alive (tick (tick w)) = (res, w2)" for w2 sq sq'
    using run
  proof (cases rule: process_report_cases)
    case (claim_failed e)
    from claim_Inl [OF claim_failed(1)] assms(2,3) claim show ?thesis
      by (auto simp: claim_result_def others.table_refl others_kept_def)
  next
    case (validating r' w1 now)
    then have r': "r' = r" "w_db w1 = claimed_db now r (w_db w)" using assms(2) by auto
    have "moves (on_tables (others_kept (rp_id r))) (process_validation storage lim batch_size
        ensure_lock_connection_alive (report_source_of r))"
      by (rule own.moves_process_validation [OF _ assms(1)]) (simp_all add: report_source_of_def)
    from movesD [OF this validating(5) [unfolded r'(1)]] claim [of sq now "w_seq w1"] r'(2) show ?thesis
      by (auto simp: on_tables_def others_kept_def)
  qed (use assms(2,3) in auto)
  with cycle_as_report [OF assms(4)] show ?thesis by (auto simp: others_kept_def)
qed

theorem validation_confined_witness:
  "db_stocks (w_db doubled_cycle) = db_stocks shop \<and> db_warehouses (w_db doubled_cycle) = db_warehouses shop"
proof -
  have n: "next_report (w_db (worker_shop pending_shop quiet_env)) = Some (blank_report 3 (lit ''k3''))"
    "\<not> ready (w_db (worker_shop pending_shop quiet_env)) (blank_report 3 (lit ''k3''))" by code_simp+
  from validation_confined [OF aloof_file_storage n doubled_run] show ?thesis
    by (simp add: worker_shop_def pending_shop_def)
qed

text \<open>C12: A cycle that reports a processing failure has recorded it: the oldest unfinished report has no staging rows
  left and one more stored error, \<open>apply_error\<close> if it was being applied and \<open>processing_error\<close> if it was being
  validated, and it is finished. If commits are acknowledged it has failed, with the number of its stored errors
  and failure kind \<open>processing\<close>; otherwise a commit may have finished it behind the failure.\<close>
theorem processing_failure_recorded:
  assumes "aloof_storage storage" and "\<forall>step. silent (run_hook hook step)" and "world_ok w"
    and "process_next_report granted storage lim batch_size hook w = (Inr PROCESSING_FAILED, w')"
  shows "\<exists>r r2 errors. next_report (w_db w) = Some r \<and> staged (w_db w') (rp_id r) = []
    \<and> map issue_of (errors_of (w_db w') (rp_id r)) = errors @
        [if ready (w_db w) r then failure_issue (lit ''apply_error'') (lit ''Atomic report apply failed'')
         else failure_issue (lit ''processing_error'') (lit ''Report processing failed'')]
    \<and> find_report (rp_id r) (w_db w') = Some r2 \<and> (rp_status r2 = Completed \<or> rp_status r2 = Failed)
    \<and> (acknowledged (w_env w) \<longrightarrow> rp_status r2 = Failed \<and> rp_failure_kind r2 = Some (lit ''processing'')
          \<and> rp_error_count r2 = len (errors_of (w_db w') (rp_id r)))"
proof -
  obtain w4 where run: "process_report storage lim batch_size hook ensure_lock_connection_alive (tick (tick w))
      = (Inr PROCESSING_FAILED, w4)" and d4: "w_db w' = w_db w4"
    using cycle_as_report [OF assms(4)] by auto
  have in_db: "find_report (rp_id r) (w_db w) = Some r" if "next_report (w_db w) = Some r" for r
    using next_report_Some [OF that] assms(3) find_report_in by (auto simp: world_ok_def constraints_ok_def)
  have env: "w_env w1 = w_env w" if "claim_or_recover_next_report (tick (tick w)) = (x, w1)" for x w1
    using movesD [OF env_claim that] by (simp add: same_env_def)
  from run show ?thesis
  proof (cases rule: process_report_cases)
    case (applying r w1)
    have "find_report (rp_id r) (w_db w1) = Some r" "constraints_ok (w_db w1)" "rp_status r = Processing"
      using in_db applying(1-3) assms(3) by (simp_all add: world_ok_def ready_def)
    from failed_application [OF assms(2) this(2,1,3) applying(5)] env [OF applying(4)] applying(1,2) d4 show ?thesis
      unfolding failure_recorded_def by auto
  next
    case (validating r w1 now)
    have "find_report (rp_id r) (w_db w1) = Some (claimed now r)"
      using find_report_update [of "w_db w1" "rp_id r" "claimed now" "w_db w" "rp_id r"] in_db validating(1,3)
      by (simp add: claimed_db_def claimed_def)
    then have "find_report (rs_id (report_source_of r)) (w_db w1) = Some (claimed now r)" "rp_status (claimed now r) = Processing"
      by (simp_all add: report_source_of_def claimed_def)
    from failed_validation [OF assms(1) this validating(5)] env [OF validating(4)] validating(1,2) d4 show ?thesis
      unfolding failure_recorded_def by (auto simp: report_source_of_def)
  qed simp_all
qed

definition lossy_env :: "nat \<Rightarrow> env" where
  "lossy_env k = quiet_env\<lparr>env_commit := (\<lambda>n. if n = k then Unacknowledged else Committed)\<rparr>"

definition faulty_world :: writer_world where
  "faulty_world = worker_shop shop (quiet_env\<lparr>env_fault := (\<lambda>n. n = 8)\<rparr>)"

definition faulty_cycle :: writer_world where
  "faulty_cycle = snd (work small_file faulty_world)"

theorem processing_failure_recorded_witness:
  "\<exists>r2. find_report 1 (w_db faulty_cycle) = Some r2 \<and> staged (w_db faulty_cycle) 1 = []"
proof -
  have f: "fst (work small_file faulty_world) = Inr PROCESSING_FAILED" by code_simp
  then have run: "work small_file faulty_world = (Inr PROCESSING_FAILED, faulty_cycle)"
    by (simp add: faulty_cycle_def prod_eq_iff)
  have h: "\<forall>step. silent (run_hook None step)" by (simp add: silent_no_hook)
  have ok: "world_ok faulty_world" by code_simp
  have n: "map_option rp_id (next_report (w_db faulty_world)) = Some 1" by code_simp
  from processing_failure_recorded [OF aloof_file_storage h ok run] n show ?thesis by auto
qed

text \<open>C17: A failed application can be a complete one. When the worker's cycle takes a ready report and answers with a
  processing failure, the report has lost its staging rows and has one stored error, \<open>apply_error\<close>; and either
  nothing was applied and the report has failed, or a commit of this very cycle took effect without being
  acknowledged: then the stock is the snapshot of the report's rows, and the report is completed with its
  counters, no failure and an error count of zero, next to its stored error.\<close>
theorem lost_acknowledgement:
  assumes "world_ok w" and "ready_ok (w_db w)" and "next_report (w_db w) = Some r" and "ready (w_db w) r"
    and "process_next_report granted storage lim batch_size None w = (Inr PROCESSING_FAILED, w')"
  shows "staged (w_db w') (rp_id r) = []
    \<and> map issue_of (errors_of (w_db w') (rp_id r)) = [failure_issue (lit ''apply_error'') (lit ''Atomic report apply failed'')]
    \<and> (abs_stock (w_db w') = abs_stock (w_db w) \<and> (\<exists>now. find_report (rp_id r) (w_db w') = Some (apply_failed 1 now r))
      \<or> (\<exists>k now. w_tick w \<le> k \<and> k < w_tick w' \<and> env_commit (w_env w) k = Unacknowledged
          \<and> abs_stock (w_db w') = snapshot (staged (w_db w) (rp_id r)) (abs_stock (w_db w)) \<and> rp_error_count r = 0
          \<and> find_report (rp_id r) (w_db w') = Some (r\<lparr>rp_status := Completed, rp_finished_at := Some now,
              rp_failure_kind := None, rp_failure_message := None,
              rp_stocks_created := int (card (stock_changes (staged (w_db w) (rp_id r)) (abs_stock (w_db w)) Created)),
              rp_stocks_updated := int (card (stock_changes (staged (w_db w) (rp_id r)) (abs_stock (w_db w)) Updated)),
              rp_stocks_zeroed := int (card (stock_changes (staged (w_db w) (rp_id r)) (abs_stock (w_db w)) Zeroed))\<rparr>)))"
proof -
  obtain w2 where run: "process_report storage lim batch_size None ensure_lock_connection_alive (tick (tick w)) = (Inr PROCESSING_FAILED, w2)"
    and d2: "w_db w' = w_db w2" "w_tick w2 \<le> w_tick w'"
    using cycle_within [OF assms(5)] by auto
  from run obtain w1 where w1: "w_db w1 = w_db w"
    and cl: "claim_or_recover_next_report (tick (tick w)) = (Inr (Some (report_source_of r), True), w1)"
    and ap: "process_apply None ensure_lock_connection_alive (rp_id r) w1 = (Inr PROCESSING_FAILED, w2)"
    by (cases rule: process_report_cases) (use assms(3,4) in auto)
  have "world_ok (tick (tick w))" using assms(1) by (simp add: world_ok_def)
  with movesD [OF living_claim cl] have ok1: "world_ok w1" by (simp add: on_tables_def living_def world_ok_def)
  have f: "find_report (rp_id r) (w_db w1) = Some r"
    using next_report_Some [OF assms(3)] assms(1) find_report_in by (auto simp: w1 world_ok_def constraints_ok_def)
  have e: "w_env w1 = w_env w" "w_tick w \<le> w_tick w1"
    using movesD [OF env_claim cl] movesD [OF later_claim cl] by (simp_all add: same_env_def later_def)
  have "no_duplicates (staged (w_db w1) (rp_id r))" "ready (w_db w1) r" "rp_error_count r = 0"
    using ready_no_duplicates [OF assms(2-4)] assms(4) by (simp_all add: w1 ready_def)
  note outcomes = failed_application_outcomes [OF ok1 this(1) f this(2) ap, folded d2(1), unfolded w1 e(1)]
  note zero = \<open>rp_error_count r = 0\<close>
  show ?thesis
  proof (intro conjI, rule outcomes [THEN conjunct1], rule outcomes [THEN conjunct2, THEN conjunct1])
    from outcomes [THEN conjunct2, THEN conjunct2] show "abs_stock (w_db w') = abs_stock (w_db w) \<and> (\<exists>now. find_report (rp_id r) (w_db w') = Some (apply_failed 1 now r))
      \<or> (\<exists>k now. w_tick w \<le> k \<and> k < w_tick w' \<and> env_commit (w_env w) k = Unacknowledged
          \<and> abs_stock (w_db w') = snapshot (staged (w_db w) (rp_id r)) (abs_stock (w_db w)) \<and> rp_error_count r = 0
          \<and> find_report (rp_id r) (w_db w') = Some (r\<lparr>rp_status := Completed, rp_finished_at := Some now,
              rp_failure_kind := None, rp_failure_message := None,
              rp_stocks_created := int (card (stock_changes (staged (w_db w) (rp_id r)) (abs_stock (w_db w)) Created)),
              rp_stocks_updated := int (card (stock_changes (staged (w_db w) (rp_id r)) (abs_stock (w_db w)) Updated)),
              rp_stocks_zeroed := int (card (stock_changes (staged (w_db w) (rp_id r)) (abs_stock (w_db w)) Zeroed))\<rparr>))"
    proof (elim disjE exE conjE)
      fix now d1 c k
      assume a: "applied (rp_id r) now (w_db w) d1 c" "abs_stock (w_db w') = abs_stock d1"
        and "find_report (rp_id r) (w_db w') = Some (complete_report c now r)"
        and "w_tick w1 \<le> k" "k < w_tick w2" "env_commit (w_env w) k = Unacknowledged"
      with e(2) d2(2) zero appliedD(1) [OF a(1)] show ?thesis
        by (intro disjI2 exI [of _ k] exI [of _ now]) (simp add: applied_def complete_report_def)
    qed blast
  qed
qed

definition lost_cycle :: writer_world where
  "lost_cycle = snd (work small_file (worker_shop shop (lossy_env 21)))"

theorem lost_acknowledgement_witness:
  "abs_stock (w_db lost_cycle) (lit ''A'', lit ''Y'') = Some 0 \<and> length (errors_of (w_db lost_cycle) 1) = 1
    \<and> (\<exists>r2. find_report 1 (w_db lost_cycle) = Some r2 \<and> rp_status r2 = Completed \<and> rp_failure_kind r2 = None)"
proof -
  let ?w = "worker_shop shop (lossy_env 21)"
  have "fst (work small_file ?w) = Inr PROCESSING_FAILED" by code_simp
  then have run: "work small_file ?w = (Inr PROCESSING_FAILED, lost_cycle)" by (simp add: lost_cycle_def prod_eq_iff)
  have ok: "world_ok ?w" "ready_ok (w_db ?w)" by code_simp+
  have n: "next_report (w_db ?w) \<noteq> None" "ready (w_db ?w) (the (next_report (w_db ?w)))" "rp_id (the (next_report (w_db ?w))) = 1" by code_simp+
  then obtain r where r: "next_report (w_db ?w) = Some r" "ready (w_db ?w) r" "rp_id r = 1" by auto
  have "rp_status (the (find_report 1 (w_db lost_cycle))) = Completed" by code_simp
  moreover have "rp_status (apply_failed 1 now r) = Failed" for now by (simp add: apply_failed_def)
  moreover have "snapshot (staged (w_db ?w) 1) (abs_stock (w_db ?w)) (lit ''A'', lit ''Y'') = Some 0" by code_simp
  ultimately show ?thesis using lost_acknowledgement [OF ok r(1,2) run] r(3) by (auto simp del: set_map)
qed

end
