(* ===== verification/ServiceClaims.thy ===== *)
theory ServiceClaims
  imports System ProcessingClaims
begin

text \<open>
  The properties of the service as a whole: uploads, registrations and worker cycles over the object
  store, under the contracts of the S3 client and of uploaded files.
\<close>

subsection \<open>A concrete service\<close>

definition empty_db :: db where
  "empty_db = \<lparr>db_reports = [], db_warehouses = [], db_products = [], db_stocks = [], db_staging = [], db_errors = []\<rparr>"

definition empty_store :: memory_store where
  "empty_store = \<lparr>ms_objects = [], ms_uploads = [], ms_next = 1, ms_tick = 0, ms_fault = (\<lambda>_. None)\<rparr>"

definition new_service :: "env \<Rightarrow> memory_store service_world" where
  "new_service e = \<lparr>w_db = empty_db, w_seq = \<lparr>sq_reports = 1, sq_warehouses = 1, sq_products = 1, sq_errors = 1\<rparr>,
     w_now = 0, w_tick = 0, w_env = e, vb_staging_batch = [], vb_error_batch = [],
     sv_outside = empty_store, sv_chunks = Finished\<rparr>"

lemma service_ok_empty: "w_db w = empty_db \<Longrightarrow> service_ok objects w"
  by (simp add: service_ok_def world_ok_def empty_db_def constraints_ok_def reports_ok_def catalog_ok_def stocks_ok_def
      staging_ok_def errors_ok_def sequences_ok_def ready_ok_def)

lemma memory_contract: "s3_upload memory_client memory_objects memory_uploads read_bytes (\<lambda>f. f)"
  by (rule memory.s3_upload_axioms)

text \<open>A store whose deletes and reads never fail.\<close>

definition reliable_client :: "memory_store s3_client" where
  "reliable_client = memory_client\<lparr>s3_delete_object := (\<lambda>b k c.
     (Inr (), c\<lparr>ms_objects := AList.delete (b, k) (ms_objects c)\<rparr>)),
     s3_get_object := (\<lambda>b k c. (case memory_objects c (b, k) of
       None \<Rightarrow> Inl (ClientErr (lit ''NoSuchKey'')) | Some body \<Rightarrow> Inr [body], c)),
     s3_body_read := (\<lambda>c. (Inr (), c)), s3_body_close := (\<lambda>c. (Inr (), c))\<rparr>"

interpretation reliable: s3_service reliable_client memory_objects memory_uploads read_bytes "\<lambda>f. f"
  by unfold_locales
    (auto simp: reliable_client_def memory_client_def store_op_def put_bytes_def set_parts_def memory_objects_def
      memory_uploads_def update_conv' delete_conv' read_bytes_def Let_def split: option.splits if_splits prod.splits)

text \<open>The small file registered in a new service, and the worker cycle that follows.\<close>

abbreviation register_file :: "bytes \<Rightarrow> memory_store service_world \<Rightarrow> (exn + report) \<times> memory_store service_world" where
  "register_file file \<equiv> register_original reliable_client (lit ''b'') MAX_UPLOAD_BYTES (lit ''u'') read_bytes file (Some (lit ''f.csv''))"

abbreviation work_stored :: "memory_store service_world \<Rightarrow> (exn + worker_cycle_outcome) \<times> memory_store service_world" where
  "work_stored \<equiv> process_next_report (\<lambda>_. True) (s3_storage reliable_client (\<lambda>_. 1)) default_limits 2 None"

definition registered_service :: "memory_store service_world" where
  "registered_service = snd (register_file small_file (new_service quiet_env))"

definition validated_service :: "memory_store service_world" where
  "validated_service = snd (work_stored registered_service)"

lemma validated_run: "work_stored registered_service = (Inr VALIDATED, validated_service)"
proof -
  have "fst (work_stored registered_service) = Inr VALIDATED" by code_simp
  then show ?thesis by (simp add: validated_service_def prod_eq_iff)
qed

lemma registered_runs:
  "service_runs reliable_client read_bytes default_limits 2 (new_service quiet_env) registered_service"
  "service_runs reliable_client read_bytes default_limits 2 registered_service validated_service"
  "w_db (new_service quiet_env) = empty_db"
proof -
  have "register_file small_file (new_service quiet_env) = (fst (register_file small_file (new_service quiet_env)), registered_service)"
    by (simp add: registered_service_def)
  then show "service_runs reliable_client read_bytes default_limits 2 (new_service quiet_env) registered_service"
    by (intro r_into_rtranclp service_step.registration) (auto simp: new_service_def empty_db_def)
  show "service_runs reliable_client read_bytes default_limits 2 registered_service validated_service"
    by (intro r_into_rtranclp service_step.cycle [OF validated_run])
  show "w_db (new_service quiet_env) = empty_db" by (simp add: new_service_def)
qed

subsection \<open>Uploads and registrations\<close>

text \<open>C10: An upload that returns has stored exactly the file: whatever pieces the source delivers, the object at its
  key is the concatenation of the source's bytes, the size and the SHA-256 digest returned are those of these
  bytes, and unless the file is empty its size is at most the limit. However the upload ends, no other
  object in the store changes.\<close>
theorem upload_stores_file:
  assumes "s3_upload client objects uploads read left"
    and "upload_stream client bucket key read max_bytes (f, c) = (r, (f', c'))"
  shows "(case r of
       Inl e \<Rightarrow> True
     | Inr res \<Rightarrow> objects c' (bucket, key) = Some (left f) \<and> up_size_bytes res = len (left f)
         \<and> up_checksum_sha256 res = sha256_hexdigest (left f) \<and> (left f = [] \<or> len (left f) \<le> max_bytes))
    \<and> (\<forall>ref. ref = (bucket, key) \<or> objects c' ref = objects c ref)"
proof (cases r)
  case (Inl e)
  then show ?thesis
    using s3_upload.upload_stream_others [OF assms(1,2)] by auto
next
  case (Inr res)
  from s3_upload.upload_stream_Inr [OF assms(1) assms(2) [unfolded Inr]] Inr show ?thesis by auto
qed

theorem upload_stores_file_witness:
  "memory_objects (snd (snd (upload_stream memory_client (lit ''b'') (lit ''k'') read_bytes 5 (map of_char ''abc'', empty_store))))
     (lit ''b'', lit ''k'') = Some (map of_char ''abc'')"
proof -
  obtain r f' c' where run:
    "upload_stream memory_client (lit ''b'') (lit ''k'') read_bytes 5 (map of_char ''abc'', empty_store) = (r, (f', c'))"
    by (metis prod.exhaust)
  have "\<not> isl (fst (upload_stream memory_client (lit ''b'') (lit ''k'') read_bytes 5 (map of_char ''abc'', empty_store)))"
    by code_simp
  then obtain res where "r = Inr res" using run by (cases r) auto
  with upload_stores_file [OF memory_contract run] run show ?thesis by simp
qed

text \<open>C11: A registration that fails after its upload leaves nothing behind: it raises \<open>ReportPersistenceError\<close>, the
  uploaded object is gone if the store performs the compensating delete, no other object has changed, and the
  tables are as before, provided that no commit takes effect without its acknowledgement.\<close>
theorem failed_registration_cleans_up:
  assumes "s3_upload client objects uploads read left"
    and "upload_stream client bucket (report_object_key uuid) read max_bytes (f, sv_outside w) = (Inr res, s)"
    and "register_original client bucket max_bytes uuid read f filename w = (Inl e, w')"
    and "\<forall>c. \<exists>c'. s3_delete_object client bucket (report_object_key uuid) c = (Inr (), c')"
    and "acknowledged (w_env w)"
  shows "e = ReportPersistenceError \<and> w_db w' = w_db w \<and> objects (sv_outside w') (bucket, report_object_key uuid) = None
    \<and> (\<forall>ref. ref = (bucket, report_object_key uuid) \<or> objects (sv_outside w') ref = objects (sv_outside w) ref)"
proof -
  have "e = ReportPersistenceError \<and> objects (sv_outside w') (bucket, report_object_key uuid) = None"
    by (rule s3_upload.register_cleanup [OF assms(1-3)]) (use assms(4) in blast)
  moreover have "w_db w' = w_db w" using register_Inl [OF assms(3)] assms(5) by (simp add: acknowledged_def)
  ultimately show ?thesis using s3_upload.register_others [OF assms(1,3)] by blast
qed

definition unacknowledging_env :: env where
  "unacknowledging_env = quiet_env\<lparr>env_commit := \<lambda>_. Unacknowledged\<rparr>"

definition failing_env :: env where
  "failing_env = quiet_env\<lparr>env_commit := \<lambda>_. NotCommitted\<rparr>"

theorem failed_registration_cleans_up_witness:
  "w_db (snd (register_file (map of_char ''abc'') (new_service failing_env))) = empty_db"
proof -
  let ?w = "new_service failing_env" and ?f = "map of_char ''abc'' :: bytes"
  obtain r s where up: "upload_stream reliable_client (lit ''b'') (report_object_key (lit ''u'')) read_bytes MAX_UPLOAD_BYTES
      (?f, sv_outside ?w) = (r, s)" by (rule prod.exhaust)
  obtain r' w' where reg: "register_file ?f ?w = (r', w')" by fastforce
  have "\<not> isl (fst (upload_stream reliable_client (lit ''b'') (report_object_key (lit ''u'')) read_bytes MAX_UPLOAD_BYTES
      (?f, sv_outside ?w)))" "isl (fst (register_file ?f ?w))" by code_simp+
  then obtain res e where "r = Inr res" "r' = Inl e" using up reg by (cases r; cases r') auto
  with up reg have runs: "upload_stream reliable_client (lit ''b'') (report_object_key (lit ''u'')) read_bytes MAX_UPLOAD_BYTES
      (?f, sv_outside ?w) = (Inr res, s)" "register_file ?f ?w = (Inl e, w')" by simp_all
  have "\<forall>c. \<exists>c'. s3_delete_object reliable_client (lit ''b'') (report_object_key (lit ''u'')) c = (Inr (), c')"
    by (simp add: reliable_client_def)
  from failed_registration_cleans_up [OF reliable.s3_upload_axioms runs this] runs(2) show ?thesis
    by (simp add: acknowledged_def new_service_def failing_env_def)
qed

text \<open>A commit that takes effect without its acknowledgement turns the compensation against a registered report:
  the client is told that the report could not be persisted, the report is in the queue all the same, and its
  original has been deleted.\<close>
theorem unacknowledged_registration:
  "case register_file (map of_char ''abc'') (new_service unacknowledging_env) of
     (r, w) \<Rightarrow> r = Inl ReportPersistenceError \<and> map rp_status (db_reports (w_db w)) = [Pending]
       \<and> ms_objects (sv_outside w) = []"
  by code_simp

subsection \<open>All steps\<close>

text \<open>C1: The service keeps its two stores together. From an empty database, after any sequence of
  registrations, queries, downloads and worker cycles, with whatever failures of statements, commits (also
  unacknowledged ones), storage operations and the lock: the constraints hold, and the original of every report
  is in the object store with the recorded size and checksum. The one exception is a report whose own
  registration was answered with an error although one of its commits took effect unacknowledged: its
  original may be gone, as the compensating delete went. And no report ever disappears, a finished one never
  changes, none becomes pending again and what registration recorded stays. Relied on: the object key of a new
  registration, which contains a fresh \<open>uuid4\<close>, is not that of an existing report.\<close>
theorem service_keeps_originals:
  assumes "s3_service client objects uploads read left" and "w_db w0 = empty_db"
    and "service_runs client read lim batch_size w0 w" and "service_runs client read lim batch_size w w'"
  shows "world_ok w'
    \<and> (\<forall>r \<in> set (db_reports (w_db w')). case objects (sv_outside w') (rp_object_bucket r, rp_object_key r) of
         Some body \<Rightarrow> rp_size_bytes r = len body \<and> rp_checksum_sha256 r = Some (sha256_hexdigest body)
       | None \<Rightarrow> lost_registration client read lim batch_size w0 w' (rp_object_bucket r, rp_object_key r))
    \<and> list_all2 report_step (db_reports (w_db w)) (take (length (db_reports (w_db w))) (db_reports (w_db w')))"
proof -
  note adv = s3_service.runs_advance [OF assms(1)] and adv_def = s3_service.advances_def [OF assms(1)]
  have runs: "service_runs client read lim batch_size w0 w'" using assms(3,4) by (rule rtranclp_trans)
  have "service_ok objects w" using adv [OF assms(3) service_ok_empty [OF assms(2)]] by (simp add: adv_def)
  from adv [OF assms(4) this] have "service_ok objects w'"
    "list_all2 report_step (db_reports (w_db w)) (take (length (db_reports (w_db w))) (db_reports (w_db w')))"
    by (simp_all add: adv_def)
  moreover have "db_reports (w_db w0) = []" by (simp add: assms(2) empty_db_def)
  note s3_service.runs_account [OF assms(1) runs service_ok_empty [OF assms(2)] this]
  ultimately show ?thesis
    by (auto simp: service_ok_def original_intact_def object_ref_def split: option.splits)
qed

theorem service_keeps_originals_witness:
  "world_ok validated_service \<and> list_all (\<lambda>r. case memory_objects (sv_outside validated_service) (rp_object_bucket r, rp_object_key r) of
       Some body \<Rightarrow> rp_size_bytes r = len body \<and> rp_checksum_sha256 r = Some (sha256_hexdigest body)
     | None \<Rightarrow> lost_registration reliable_client read_bytes default_limits 2 (new_service quiet_env) validated_service
         (rp_object_bucket r, rp_object_key r)) (db_reports (w_db validated_service))"
  using service_keeps_originals [OF reliable.s3_service_axioms registered_runs(3,1,2)] unfolding list_all_iff by blast

text \<open>C2: The verdict on a report is the verdict on the bytes that were uploaded for it. In any state the service can
  reach, whatever has failed on the way, when a cycle validates a report, the object it reads has the checksum that registration recorded, and
  wherever reads and batches fell the cycle found the rows and issues that the reference outcome of that file's
  text says: it ends as validated exactly when there are no issues and no pair occurs twice, with the file's rows
  staged and counted; otherwise the report has failed with exactly the file's issues, followed by one per
  repeated pair, and their number as error count.\<close>
theorem verdict_of_upload:
  assumes "s3_service client objects uploads read left" and "w_db w0 = empty_db"
    and "service_runs client read lim batch_size w0 w"
    and "process_next_report granted (s3_storage client fetches) lim batch_size None w = (Inr outcome, w')"
    and "outcome = VALIDATED \<or> outcome = VALIDATION_FAILED"
  shows "\<exists>r body items s rows issues. next_report (w_db w) = Some r
    \<and> objects (sv_outside w) (rp_object_bucket r, rp_object_key r) = Some body
    \<and> rp_checksum_sha256 r = Some (sha256_hexdigest body)
    \<and> csv_outcome lim (decode_utf8_sig body) = (items, Inr s)
    \<and> rows = map (staging_values (rp_id r)) (delivered items)
    \<and> issues = reported_issues items @ map (duplicate_issue (duplicate_raw_value_chars lim))
        (filter (\<lambda>s. \<exists>t \<in> set rows. pair_key t = pair_key s \<and> sg_line_number t < sg_line_number s) rows)
    \<and> (if issues = [] then
         outcome = VALIDATED \<and> staged (w_db w') (rp_id r) = rows \<and> errors_of (w_db w') (rp_id r) = []
         \<and> (\<exists>now. find_report (rp_id r) (w_db w') = Some ((claimed now r)\<lparr>rp_row_count := s_row_count s\<rparr>))
       else
         outcome = VALIDATION_FAILED \<and> staged (w_db w') (rp_id r) = []
         \<and> map issue_of (errors_of (w_db w') (rp_id r)) = issues
         \<and> (\<exists>now now'. find_report (rp_id r) (w_db w')
               = Some (validation_failed (s_row_count s) (len issues) now' (claimed now r))))"
proof -
  have ok: "service_ok objects w"
    using s3_service.runs_advance [OF assms(1,3) service_ok_empty [OF assms(2)]]
    by (simp add: s3_service.advances_def [OF assms(1)])
  then have "world_ok w" by (simp add: service_ok_def)
  from cycle_verdict [OF aloof_s3_storage this assms(4,5)] obtain r w3 w1 w2 chunks items rows issues and s :: csv_summary where
    r: "next_report (w_db w) = Some r"
    and cl: "claim_or_recover_next_report (tick (tick w)) = (Inr (Some (report_source_of r), False), w3)"
    and al: "ensure_lock_connection_alive w3 = (Inr (), w1)"
    and dl: "st_download_stream (s3_storage client fetches) (rp_object_bucket r) (rp_object_key r) w1 = (Inr chunks, w2)"
    and rest: "csv_outcome lim (decode_utf8_sig (concat chunks)) = (items, Inr s)"
      "rows = map (staging_values (rp_id r)) (delivered items)"
      "issues = reported_issues items @ map (duplicate_issue (duplicate_raw_value_chars lim))
        (filter (\<lambda>s. \<exists>t \<in> set rows. pair_key t = pair_key s \<and> sg_line_number t < sg_line_number s) rows)"
      "if issues = [] then
         outcome = VALIDATED \<and> staged (w_db w') (rp_id r) = rows \<and> errors_of (w_db w') (rp_id r) = []
         \<and> (\<exists>now. find_report (rp_id r) (w_db w') = Some ((claimed now r)\<lparr>rp_row_count := s_row_count s\<rparr>))
       else
         outcome = VALIDATION_FAILED \<and> staged (w_db w') (rp_id r) = []
         \<and> map issue_of (errors_of (w_db w') (rp_id r)) = issues
         \<and> (\<exists>now now'. find_report (rp_id r) (w_db w')
               = Some (validation_failed (s_row_count s) (len issues) now' (claimed now r)))"
    by blast
  have "same_outside objects (tick (tick w)) w3" "same_outside objects w3 w1"
    by (rule movesD [OF outside_claim cl]) (rule movesD [OF outside_database(4) al])
  then have "objects (sv_outside w1) = objects (sv_outside w)" by (simp add: same_outside_def tick_def)
  then have body: "objects (sv_outside w) (rp_object_bucket r, rp_object_key r) = Some (concat chunks)"
    using s3_store.download_found [OF s3_upload.axioms(1) [OF s3_service.axioms(1) [OF assms(1)]], of "rp_object_bucket r" "rp_object_key r" w1 chunks w2] dl
    by (simp add: s3_storage_def)
  have "original_intact (objects (sv_outside w)) r" using ok next_report_Some [OF r] by (simp add: service_ok_def)
  then have "rp_checksum_sha256 r = Some (sha256_hexdigest (concat chunks))"
    by (simp add: original_intact_def object_ref_def body)
  with r body rest show ?thesis by blast
qed

theorem verdict_of_upload_witness:
  "\<exists>r body. next_report (w_db registered_service) = Some r
     \<and> memory_objects (sv_outside registered_service) (rp_object_bucket r, rp_object_key r) = Some body
     \<and> rp_checksum_sha256 r = Some (sha256_hexdigest body)"
  using verdict_of_upload [OF reliable.s3_service_axioms registered_runs(3,1) validated_run] by blast

end
