(* ===== verification/DownloadClaims.thy ===== *)
theory DownloadClaims
  imports HttpClaims ServiceClaims
begin

text \<open>
  The properties of the report endpoints: what reading a report answers, that the pages of an error listing are
  all of the report's errors in order, and that a download streams the bytes that were uploaded.
\<close>

subsection \<open>Reading a report\<close>

lemma get_report_Inr:
  assumes "get_report rid w = (Inr r, w')"
  shows "find_report rid (w_db w) = Some r"
  using assms
  by (auto simp: get_report_def transaction_def act_simps bound_query_def query_def
      split: prod.splits sum.splits commit_result.splits if_splits option.splits)


subsection \<open>Listings\<close>

lemma list_errors_Inr:
  assumes "list_errors rid limit offset w = (Inr page, w')"
  shows "page = \<lparr>pg_items = page_of limit offset (sort_by error_line_le (errors_of (w_db w) rid)),
      pg_total = len (errors_of (w_db w) rid), pg_limit = limit, pg_offset = offset\<rparr>"
  using assms
  by (auto simp: list_errors_def transaction_def act_simps bound_query_def query_def
      split: prod.splits sum.splits commit_result.splits if_splits)

lemma concat_pages:
  assumes "\<And>i. i < k \<Longrightarrow> pg_items (page i) = page_of limit (int i * limit) rows"
    and "0 < limit" and "len rows \<le> int k * limit"
  shows "concat (map (\<lambda>i. pg_items (page i)) [0..<k]) = rows"
proof -
  have "concat (map (\<lambda>i. pg_items (page i)) [0..<k]) = concat (map (\<lambda>i. page_of limit (int i * limit) rows) [0..<k])"
    by (intro arg_cong [of _ _ concat] map_cong refl assms(1)) simp
  then show ?thesis using pages_cover [OF assms(2,3)] by simp
qed

text \<open>C27: The pages of the error listing are the report's errors: read one after another on unchanged tables until
  they cover the total, they contain each of the report's errors exactly as often as the table does, errors
  without a line first, then by line and identifier; every page reports the number of the report's errors.\<close>
theorem error_pages_complete:
  assumes "0 < limit" and "len (errors_of d report_id) \<le> int k * limit"
    and "\<forall>i \<in> {0..<k}. w_db (w i) = d \<and> list_errors report_id limit (int i * limit) (w i) = (Inr (page i), w' i)"
  shows "mset (concat (map (\<lambda>i. pg_items (page i)) [0..<k])) = mset (errors_of d report_id)
    \<and> sorted_wrt error_line_le (concat (map (\<lambda>i. pg_items (page i)) [0..<k]))
    \<and> (\<forall>i \<in> {0..<k}. pg_total (page i) = len (errors_of d report_id))"
proof -
  let ?rows = "sort_by error_line_le (errors_of d report_id)"
  have p: "pg_items (page i) = page_of limit (int i * limit) ?rows \<and> pg_total (page i) = len (errors_of d report_id)"
    if "i < k" for i
  proof -
    have run: "list_errors report_id limit (int i * limit) (w i) = (Inr (page i), w' i)" and d: "w_db (w i) = d"
      using assms(3) that by auto
    show ?thesis using list_errors_Inr [OF run] d by simp
  qed
  have "concat (map (\<lambda>i. pg_items (page i)) [0..<k]) = ?rows"
    by (rule concat_pages [OF _ assms(1)]) (use p assms(2) in auto)
  with p show ?thesis by (simp add: error_lines.sort_sorted)
qed

definition line_error :: "int \<Rightarrow> int \<Rightarrow> report_error" where
  "line_error i n = \<lparr>er_id = i, er_report_id = 1, er_line_number = Some n, er_field_name = None, er_code = lit ''c'',
     er_message = lit ''m'', er_raw_data = None, er_created_at = 0\<rparr>"

definition faulty_world :: world where
  "faulty_world = \<lparr>w_db = empty_db\<lparr>db_reports := [new_report (lit ''f'') (lit ''b'') (lit ''k'') \<lparr>up_size_bytes = 0, up_checksum_sha256 = []\<rparr> 0 1],
       db_errors := [line_error 1 7, line_error 2 3]\<rparr>,
     w_seq = \<lparr>sq_reports = 2, sq_warehouses = 1, sq_products = 1, sq_errors = 3\<rparr>, w_now = 0, w_tick = 0, w_env = quiet_env\<rparr>"

theorem error_pages_complete_witness:
  "\<exists>items. mset items = {#line_error 1 7, line_error 2 3#} \<and> sorted_wrt error_line_le items"
proof -
  let ?d = "w_db faulty_world" and ?read = "\<lambda>i. list_errors 1 1 (int i * 1) faulty_world"
  have "isl (fst (?read 0)) = False" "isl (fst (?read 1)) = False" by code_simp+
  then have "\<forall>i \<in> {0..<2}. ?read i = (Inr (projr (fst (?read i))), snd (?read i))"
    by (auto simp: less_2_cases_iff prod_eq_iff)
  then have run: "\<forall>i \<in> {0..<2}. w_db faulty_world = ?d \<and> ?read i = (Inr (projr (fst (?read i))), snd (?read i))"
    by simp
  have errors: "errors_of ?d 1 = [line_error 1 7, line_error 2 3]" by code_simp
  then have "len (errors_of ?d 1) \<le> int 2 * 1" by simp
  from error_pages_complete [OF zero_less_one this run] errors show ?thesis
    by (intro exI [of _ "concat (map (\<lambda>i. pg_items (projr (fst (?read i)))) [0..<2])"]) simp
qed

subsection \<open>Downloads\<close>

text \<open>
  The iteration over an open download: what it yields are the pieces in order, all of them if it ends by itself;
  at the end the adapter's generator is over, and its body has been closed if it had been started.
\<close>

definition still_to_come :: "bytes list \<Rightarrow> ('c, 'x) service_world_scheme \<Rightarrow> bool" where
  "still_to_come pieces w \<longleftrightarrow> sv_chunks w = Unstarted (length pieces) \<or> sv_chunks w = Suspended (length pieces)"

lemma chunks_remote [simp]: "remote m w = (r, w') \<Longrightarrow> sv_chunks w' = sv_chunks w"
  by (auto simp: remote_def split: prod.splits)

lemma finish_chunks_finished:
  "finish_chunks client (ret ()) w = (r, w') \<Longrightarrow> sv_chunks w' = Finished"
  "finish_chunks client (throw e) w = (r, w') \<Longrightarrow> sv_chunks w' = Finished"
  by (auto simp: finish_chunks_def act_simps remote_def split: prod.splits sum.splits)

lemma next_chunk_step:
  assumes "still_to_come pieces w" and "next_chunk client w = (r, w')"
  shows "(case r of Inl e \<Rightarrow> sv_chunks w' = Finished
    | Inr u \<Rightarrow> if pieces = [] then sv_chunks w' = Finished else still_to_come (tl pieces) w')"
proof -
  have "next_chunk client w = fetch_chunk client (length pieces) w"
    using assms(1) by (auto simp: still_to_come_def next_chunk_def)
  moreover obtain r1 w1 where b: "remote (s3_body_read client) w = (r1, w1)" by fastforce
  ultimately show ?thesis
    using assms(2) finish_chunks_finished(1) [of client w1 r w'] finish_chunks_finished(2) [of client StorageUnavailableError w1 r w']
    by (cases r1; cases r; cases pieces) (auto simp: fetch_chunk_def finish_chunks_def act_simps still_to_come_def split: prod.splits sum.splits)
qed

lemma logged_chunks_sent:
  "still_to_come pieces w \<Longrightarrow> logged_chunks client pieces n w = ((sent, ending), w') \<Longrightarrow>
     sv_chunks w' = Finished \<and> (\<exists>rest. pieces = sent @ rest \<and> (ending = Exhausted \<longrightarrow> rest = []))
     \<and> (ending = Closed \<longrightarrow> length sent = n)"
proof (induction client pieces n w arbitrary: sent ending w' rule: logged_chunks.induct)
  case (1 client pieces w)
  then show ?case
    by (auto simp: still_to_come_def close_chunks_def dest: finish_chunks_finished split: prod.splits)
next
  case (2 client n w)
  obtain r w1 where run: "next_chunk client w = (r, w1)" by fastforce
  with next_chunk_step [OF 2(1) run] 2(2) show ?case by (auto split: sum.splits)
next
  case (3 client piece pieces n w)
  obtain r w1 where run: "next_chunk client w = (r, w1)" by fastforce
  note step = next_chunk_step [OF 3(2) run]
  show ?case
  proof (cases r)
    case (Inl e)
    with run step 3(3) show ?thesis by auto
  next
    case (Inr u)
    obtain sent' ending' w'' where rest: "logged_chunks client pieces n w1 = ((sent', ending'), w'')" by (metis prod.exhaust)
    have "still_to_come pieces w1" using step Inr by simp
    from 3(1) [OF run [symmetric] Inr this rest] rest 3(3) run Inr show ?thesis by auto
  qed
qed

text \<open>If no read and no \<open>close\<close> of a body fails and the client stays, the iteration ends by itself.\<close>

definition bodies_deliver :: "'c s3_client \<Rightarrow> bool" where
  "bodies_deliver client \<longleftrightarrow>
     (\<forall>c. \<exists>c'. s3_body_read client c = (Inr (), c')) \<and> (\<forall>c. \<exists>c'. s3_body_close client c = (Inr (), c'))"

lemma next_chunk_delivers:
  assumes "bodies_deliver client" and "next_chunk client w = (r, w')"
  shows "r = Inr ()"
proof -
  obtain c where c: "s3_body_read client (sv_outside w) = (Inr (), c)" using assms(1) unfolding bodies_deliver_def by blast
  obtain c' where "s3_body_close client c = (Inr (), c')" using assms(1) unfolding bodies_deliver_def by blast
  with c have "fst (fetch_chunk client n w) = Inr ()" for n
    by (simp add: fetch_chunk_def finish_chunks_def act_simps remote_def)
  with assms(2) show ?thesis by (cases "sv_chunks w") (auto simp: next_chunk_def prod_eq_iff dest: arg_cong [of _ _ fst])
qed

lemma logged_chunks_exhausted:
  "bodies_deliver client \<Longrightarrow> length pieces < n \<Longrightarrow> logged_chunks client pieces n w = ((sent, ending), w') \<Longrightarrow> ending = Exhausted"
proof (induction client pieces n w arbitrary: sent ending w' rule: logged_chunks.induct)
  case (2 client n w)
  obtain r w1 where run: "next_chunk client w = (r, w1)" by fastforce
  with next_chunk_delivers [OF 2(1) run] 2(3) show ?case by simp
next
  case (3 client piece pieces n w)
  obtain r w1 where run: "next_chunk client w = (r, w1)" by fastforce
  obtain sent' ending' w'' where rest: "logged_chunks client pieces n w1 = ((sent', ending'), w'')" by (metis prod.exhaust)
  have r: "r = Inr ()" by (rule next_chunk_delivers [OF 3(2) run])
  from 3(1) [OF run [symmetric] r 3(2) _ rest] 3(3,4) run rest r show ?case by auto
qed simp

lemma download_stream_pieces:
  assumes "download_stream client b k w = (Inr pieces, w')"
  shows "still_to_come pieces w' \<and> length pieces \<le> length (concat pieces)"
proof -
  have long: "length xs \<le> length (concat xs)" if "\<forall>x \<in> set xs. x \<noteq> []" for xs :: "bytes list"
    using that
  proof (induction xs)
    case (Cons x xs)
    then have "1 \<le> length x" "length xs \<le> length (concat xs)" by (simp_all add: Suc_le_eq)
    then show ?case unfolding list.size concat.simps length_append by linarith
  qed simp
  obtain every v where "(Inr (takeWhile (\<lambda>chunk. chunk \<noteq> []) every),
      v\<lparr>sv_chunks := Unstarted (length (takeWhile (\<lambda>chunk. chunk \<noteq> []) every))\<rparr>) = (Inr pieces :: exn + bytes list, w')"
    using assms unfolding download_stream_def bind_act_Inr_iff Let_def by blast
  then have p: "pieces = takeWhile (\<lambda>chunk. chunk \<noteq> []) every" and w': "w' = v\<lparr>sv_chunks := Unstarted (length pieces)\<rparr>"
    by auto
  have "\<forall>x \<in> set pieces. x \<noteq> []" unfolding p using set_takeWhileD by fast
  from long [OF this] show ?thesis by (simp add: still_to_come_def w')
qed

text \<open>The report that a registration returned is found again, and its object is the file.\<close>

lemma registered_file:
  assumes "s3_service client objects uploads read left" and "service_ok objects w1"
    and "(bucket, report_object_key uuid) \<notin> set (map object_ref (db_reports (w_db w1)))"
    and "register_original client bucket max_bytes uuid read f filename w1 = (Inr r, w2)"
    and "service_runs client read lim batch_size w2 w3"
  shows "\<exists>r'. find_report (rp_id r) (w_db w3) = Some r' \<and> report_step r r' \<and> objects (sv_outside w3) (object_ref r') = Some (left f)
    \<and> rp_original_filename r = normalize_original_filename filename \<and> rp_size_bytes r = len (left f)"
proof -
  note adv_def = s3_service.advances_def [OF assms(1)]
  note reg = s3_upload.register_Inr [OF s3_service.axioms(1) [OF assms(1)] assms(4)]
  have "service_ok objects w2"
    using s3_service.registration_advances [OF assms(1,4,3,2)] by (simp add: adv_def)
  with s3_service.runs_advance [OF assms(1,5)] have 3: "s3_service.advances objects w2 w3" by blast
  have rep: "r \<in> set (db_reports (w_db w2))" and ref: "object_ref r = (bucket, report_object_key uuid)"
    and named: "rp_original_filename r = normalize_original_filename filename" "rp_size_bytes r = len (left f)"
    using reg by (auto simp: new_report_def object_ref_def)
  then obtain i where i: "i < length (db_reports (w_db w2))" "db_reports (w_db w2) ! i = r"
    unfolding in_set_conv_nth by blast
  let ?r' = "db_reports (w_db w3) ! i"
  have l: "list_all2 report_step (db_reports (w_db w2)) (take (length (db_reports (w_db w2))) (db_reports (w_db w3)))"
    using 3 by (simp add: adv_def)
  with i have st: "report_step r ?r'" and i': "i < length (db_reports (w_db w3))"
    using list_all2_lengthD [OF l] by (auto simp: list_all2_conv_all_nth)
  have same: "rp_id ?r' = rp_id r" "object_ref ?r' = object_ref r"
    using st unfolding report_step_def by blast+
  have "reports_ok (w_db w3)" using 3 by (simp add: adv_def service_ok_def world_ok_def constraints_ok_def)
  then have "find_report (rp_id ?r') (w_db w3) = Some ?r'"
    using i' by (intro find_report_in) (simp_all add: reports_ok_def)
  moreover have "objects (sv_outside w3) (object_ref r) = Some (left f)"
    using 3 rep reg ref by (simp add: adv_def)
  ultimately show ?thesis using same st named by auto
qed

text \<open>A download that is answered with a stream.\<close>

lemma api_download_Success:
  assumes "api_download_original client patience rid w = (Success status response, w')"
  shows "\<exists>r pieces w1 w2. get_report rid w = (Inr r, w1)
    \<and> download_stream client (rp_object_bucket r) (rp_object_key r) w1 = (Inr pieces, w2)
    \<and> logged_chunks client pieces patience w2 = ((or_sent response, or_ending response), w')
    \<and> status = 200 \<and> or_content_length response = py_str_int (rp_size_bytes r)
    \<and> content_disposition (rp_original_filename r) = Inr (or_content_disposition response)"
proof -
  obtain res v where dl: "download_original client rid w = (res, v)" by fastforce
  obtain r chunks where pair: "res = Inr (r, chunks)"
    using assms dl by (cases res) (auto simp: api_download_original_def endpoint_def act_simps handle_exception_def
        validation_error_handler_def service_error_handler_def unexpected_error_handler_def split: if_splits option.splits)
  from download_original_Inr [OF dl [unfolded pair]] obtain pieces w1 where
    g: "get_report rid w = (Inr r, w1)" "chunks = logged_chunks client pieces"
      "download_stream client (rp_object_bucket r) (rp_object_key r) w1 = (Inr pieces, v)" by blast
  obtain header where h: "content_disposition (rp_original_filename r) = Inr header"
    using assms dl pair
    by (cases "content_disposition (rp_original_filename r)")
      (auto simp: api_download_original_def endpoint_def act_simps lift_res_def handle_exception_def validation_error_handler_def
        service_error_handler_def unexpected_error_handler_def split: if_splits option.splits)
  obtain sent ending w2 where s: "logged_chunks client pieces patience v = ((sent, ending), w2)" by (metis prod.exhaust)
  have "status = 200 \<and> w2 = w' \<and> response = \<lparr>or_content_disposition = header, or_content_length = py_str_int (rp_size_bytes r),
      or_sent = sent, or_ending = ending\<rparr>"
    using assms dl pair h g(2) s
    by (auto simp: api_download_original_def endpoint_def act_simps lift_res_def validation_error_handler_def split: if_splits)
  with g h s show ?thesis by auto
qed

text \<open>C8: Upload and download are inverse. In any state the service can reach, whatever failed on the way, when a
  registration returns a report and then anything happens, a download of that report that is answered with its
  stream announces the length of the uploaded file and carries the header for its normalized name. What is sent
  is an initial piece of the uploaded bytes, whether a read of the body fails on the way or the client leaves
  after some number of chunks (\<open>patience\<close>); if the iteration ends by itself it is exactly these bytes; and it does end by
  itself if no read and no close of a body fails and the client stays. In each case the adapter's generator is
  over at the end.\<close>
theorem download_returns_upload:
  assumes "s3_service client objects uploads read left" and "w_db w0 = empty_db"
    and "service_runs client read lim batch_size w0 w1"
    and "(bucket, report_object_key uuid) \<notin> set (map object_ref (db_reports (w_db w1)))"
    and "register_original client bucket max_bytes uuid read f filename w1 = (Inr r, w2)"
    and "service_runs client read lim batch_size w2 w3"
    and "api_download_original client patience (rp_id r) w3 = (Success status response, w4)"
  shows "status = 200 \<and> or_content_length response = py_str_int (len (left f))
    \<and> content_disposition (normalize_original_filename filename) = Inr (or_content_disposition response)
    \<and> prefix (concat (or_sent response)) (left f)
    \<and> (or_ending response = Exhausted \<longrightarrow> concat (or_sent response) = left f)
    \<and> (or_ending response = Closed \<longrightarrow> length (or_sent response) = patience)
    \<and> (bodies_deliver client \<longrightarrow> length (left f) < patience \<longrightarrow> or_ending response = Exhausted)
    \<and> sv_chunks w4 = Finished"
proof -
  have 1: "service_ok objects w1"
    using s3_service.runs_advance [OF assms(1,3) service_ok_empty [OF assms(2)]]
    by (simp add: s3_service.advances_def [OF assms(1)])
  from registered_file [OF assms(1) this assms(4-6)] obtain r' where r': "find_report (rp_id r) (w_db w3) = Some r'"
    "report_step r r'" "objects (sv_outside w3) (object_ref r') = Some (left f)"
    and named: "rp_original_filename r = normalize_original_filename filename" "rp_size_bytes r = len (left f)"
    by blast
  have same: "rp_original_filename r' = rp_original_filename r" "rp_size_bytes r' = rp_size_bytes r"
    using r'(2) unfolding report_step_def by blast+
  from api_download_Success [OF assms(7)] obtain r1 pieces w5 w6 where
    g: "get_report (rp_id r) w3 = (Inr r1, w5)"
    and s: "download_stream client (rp_object_bucket r1) (rp_object_key r1) w5 = (Inr pieces, w6)"
    and sent: "logged_chunks client pieces patience w6 = ((or_sent response, or_ending response), w4)"
    and heads: "status = 200" "or_content_length response = py_str_int (rp_size_bytes r1)"
      "content_disposition (rp_original_filename r1) = Inr (or_content_disposition response)" by blast
  have r1: "r1 = r'" using get_report_Inr [OF g] r'(1) by simp
  have "objects (sv_outside w5) = objects (sv_outside w3)"
    using movesD [OF outside_queries(2) g, of objects] by (simp add: same_outside_def)
  then have body: "concat pieces = left f"
    using s3_store.download_found [OF s3_upload.axioms(1) [OF s3_service.axioms(1) [OF assms(1)]] s] r'(3)
    by (simp add: r1 object_ref_def)
  have fresh: "still_to_come pieces w6" and "length pieces \<le> length (left f)"
    using download_stream_pieces [OF s] body by simp_all
  then have "bodies_deliver client \<longrightarrow> length (left f) < patience \<longrightarrow> or_ending response = Exhausted"
    using logged_chunks_exhausted [OF _ _ sent] by auto
  moreover from logged_chunks_sent [OF fresh sent] obtain rest where
    rest: "pieces = or_sent response @ rest" and "or_ending response = Exhausted \<longrightarrow> rest = []"
    "or_ending response = Closed \<longrightarrow> length (or_sent response) = patience" "sv_chunks w4 = Finished" by blast
  moreover have "prefix (concat (or_sent response)) (left f)" using body rest by (intro prefixI [of _ _ "concat rest"]) simp
  ultimately show ?thesis using heads body r1 same named rest by auto
qed

definition abc_file :: bytes where
  "abc_file = map of_char ''abc''"

definition abc_service :: "memory_store service_world" where
  "abc_service = snd (register_file abc_file (new_service quiet_env))"

theorem download_returns_upload_witness:
  "\<exists>response :: original_response. concat (or_sent response) = abc_file \<and> or_content_length response = lit ''3''"
proof -
  let ?w = "new_service quiet_env" and ?get = "api_download_original reliable_client 4 1 abc_service"
  have "\<not> isl (fst (register_file abc_file ?w))" by code_simp
  then obtain r where reg: "register_file abc_file ?w = (Inr r, abc_service)"
    by (cases "fst (register_file abc_file ?w)") (auto simp: abc_service_def prod_eq_iff)
  have "rp_id r = 1" using reliable.register_Inr [OF reg] by (simp add: new_report_def new_service_def)
  moreover have "(case fst ?get of Success _ _ \<Rightarrow> True | _ \<Rightarrow> False)" by code_simp
  ultimately obtain status response where get: "api_download_original reliable_client 4 (rp_id r) abc_service = (Success status response, snd ?get)"
    by (cases "fst ?get") (auto simp: prod_eq_iff)
  have fresh: "(lit ''b'', report_object_key (lit ''u'')) \<notin> set (map object_ref (db_reports (w_db ?w)))"
    by (simp add: registered_runs(3) empty_db_def)
  have "py_str_int (len abc_file) = lit ''3''" "length abc_file < 4" by code_simp+
  moreover have "bodies_deliver reliable_client" by (simp add: bodies_deliver_def reliable_client_def)
  moreover note download_returns_upload [OF reliable.s3_service_axioms registered_runs(3) rtranclp.rtrancl_refl fresh reg rtranclp.rtrancl_refl get]
  ultimately show ?thesis by (intro exI [of _ response]) simp
qed

end
