(* ===== verification/ReadApiClaims.thy ===== *)
theory ReadApiClaims
  imports ReadApi StockSnapshot ApplyClaims "HOL-Library.List_Lexorder"
begin

text \<open>
  The properties of the paginated reads: the pages of a listing are its sorted rows, each of them once, and
  the stock that is read is the stock that reports have been applied to.
\<close>

subsection \<open>The stock that is read is the stock\<close>

lemma filter_unique:
  assumes "distinct (map f xs)" and "x \<in> set xs"
  shows "filter (\<lambda>y. f y = f x) xs = [x]"
  using assms
proof (induction xs)
  case (Cons y ys)
  show ?case
  proof (cases "y = x")
    case True
    then have "\<forall>z \<in> set ys. f z \<noteq> f x" using Cons.prems(1) by (metis distinct.simps(2) image_eqI list.simps(9) set_map)
    then show ?thesis using True by (simp add: filter_empty_conv)
  next
    case False
    then have "x \<in> set ys" "f y \<noteq> f x" using Cons.prems by auto
    with Cons show ?thesis by simp
  qed
qed simp

text \<open>Under the constraints the joins give one row for each balance.\<close>

lemma stock_rows_balances:
  assumes "constraints_ok d"
  shows "\<exists>f. stock_rows d = map f (db_stocks d) \<and> (\<forall>b \<in> set (db_stocks d).
      sm_warehouse_id (f b) = sb_warehouse_id b \<and> sm_product_id (f b) = sb_product_id b \<and> sm_quantity (f b) = sb_quantity b
      \<and> id_of (db_warehouses d) (sm_warehouse_code (f b)) = Some (sb_warehouse_id b)
      \<and> id_of (db_products d) (sm_sku (f b)) = Some (sb_product_id b))"
proof -
  have cat: "catalog_ok (db_warehouses d)" "catalog_ok (db_products d)" using assms by (simp_all add: constraints_ok_def)
  have "\<forall>b \<in> set (db_stocks d). \<exists>w p. filter (\<lambda>w. ct_id w = sb_warehouse_id b) (db_warehouses d) = [w]
      \<and> filter (\<lambda>p. ct_id p = sb_product_id b) (db_products d) = [p] \<and> w \<in> set (db_warehouses d) \<and> p \<in> set (db_products d)
      \<and> ct_id w = sb_warehouse_id b \<and> ct_id p = sb_product_id b"
  proof
    fix b
    assume "b \<in> set (db_stocks d)"
    with assms obtain w p where w: "w \<in> set (db_warehouses d)" "ct_id w = sb_warehouse_id b"
      and p: "p \<in> set (db_products d)" "ct_id p = sb_product_id b"
      by (auto simp: constraints_ok_def stocks_ok_def list_all_iff)
    then show "\<exists>w p. filter (\<lambda>w. ct_id w = sb_warehouse_id b) (db_warehouses d) = [w]
      \<and> filter (\<lambda>p. ct_id p = sb_product_id b) (db_products d) = [p] \<and> w \<in> set (db_warehouses d) \<and> p \<in> set (db_products d)
      \<and> ct_id w = sb_warehouse_id b \<and> ct_id p = sb_product_id b"
      using filter_unique [of ct_id "db_warehouses d" w] filter_unique [of ct_id "db_products d" p] cat
      by (intro exI [of _ w] exI [of _ p]) (simp add: catalog_ok_def)
  qed
  then obtain fw fp where f: "\<And>b. b \<in> set (db_stocks d) \<Longrightarrow> filter (\<lambda>w. ct_id w = sb_warehouse_id b) (db_warehouses d) = [fw b]
      \<and> filter (\<lambda>p. ct_id p = sb_product_id b) (db_products d) = [fp b] \<and> fw b \<in> set (db_warehouses d)
      \<and> fp b \<in> set (db_products d) \<and> ct_id (fw b) = sb_warehouse_id b \<and> ct_id (fp b) = sb_product_id b"
    by metis
  have "stock_rows d = concat (map (\<lambda>b. [stock_row b (fw b) (fp b)]) (db_stocks d))"
    unfolding stock_rows_def by (intro arg_cong [of _ _ concat] map_cong refl) (simp add: f)
  also have "\<dots> = map (\<lambda>b. stock_row b (fw b) (fp b)) (db_stocks d)" by (induction "db_stocks d") simp_all
  finally show ?thesis
    using f id_of_unique(1) [of "db_warehouses d"] id_of_unique(1) [of "db_products d"] cat
    by (intro exI [of _ "\<lambda>b. stock_row b (fw b) (fp b)"]) (metis (no_types, lifting) stock_row_simps)
qed

lemma stock_rows_abs:
  assumes "constraints_ok d"
  shows "(\<exists>m \<in> set (stock_rows d). sm_warehouse_code m = c \<and> sm_sku m = s \<and> sm_quantity m = q) \<longleftrightarrow> abs_stock d (c, s) = Some q"
    and "distinct (map (\<lambda>m. (sm_warehouse_code m, sm_sku m)) (stock_rows d))"
    and "length (stock_rows d) = length (db_stocks d)"
proof -
  from stock_rows_balances [OF assms] obtain f where rows: "stock_rows d = map f (db_stocks d)"
    and f: "\<And>b. b \<in> set (db_stocks d) \<Longrightarrow> sm_quantity (f b) = sb_quantity b
      \<and> id_of (db_warehouses d) (sm_warehouse_code (f b)) = Some (sb_warehouse_id b)
      \<and> id_of (db_products d) (sm_sku (f b)) = Some (sb_product_id b)" by blast
  have cat: "catalog_ok (db_warehouses d)" "catalog_ok (db_products d)" and dist: "distinct (map stock_key (db_stocks d))"
    using assms by (simp_all add: constraints_ok_def stocks_ok_def)
  note q = quantity_of_in [OF dist, unfolded stock_key_def]
  have shown: "abs_stock d (sm_warehouse_code (f b), sm_sku (f b)) = Some (sb_quantity b)" if "b \<in> set (db_stocks d)" for b
    using f [OF that] q [OF that] by (simp add: abs_stock_def)
  show "(\<exists>m \<in> set (stock_rows d). sm_warehouse_code m = c \<and> sm_sku m = s \<and> sm_quantity m = q) \<longleftrightarrow> abs_stock d (c, s) = Some q"
  proof
    assume "\<exists>m \<in> set (stock_rows d). sm_warehouse_code m = c \<and> sm_sku m = s \<and> sm_quantity m = q"
    then show "abs_stock d (c, s) = Some q" using shown f by (auto simp: rows)
  next
    assume "abs_stock d (c, s) = Some q"
    then obtain i j b where ids: "id_of (db_warehouses d) c = Some i" "id_of (db_products d) s = Some j"
      and b: "find_stock (db_stocks d) i j = Some b" "sb_quantity b = q"
      by (auto simp: abs_stock_def quantity_of_def split: option.splits)
    have b': "b \<in> set (db_stocks d)" "sb_warehouse_id b = i" "sb_product_id b = j"
      using find_stock_Some [OF b(1)] by (simp_all add: stock_key_def)
    have "id_of (db_warehouses d) (sm_warehouse_code (f b)) = Some i" "id_of (db_products d) (sm_sku (f b)) = Some j"
      using f [OF b'(1)] b'(2,3) by simp_all
    from id_of_inj [OF cat(1) this(1) ids(1)] id_of_inj [OF cat(2) this(2) ids(2)]
    have "sm_warehouse_code (f b) = c" "sm_sku (f b) = s" .
    with b(2) b'(1) f show "\<exists>m \<in> set (stock_rows d). sm_warehouse_code m = c \<and> sm_sku m = s \<and> sm_quantity m = q"
      by (auto simp: rows)
  qed
  have "inj_on (\<lambda>b. (sm_warehouse_code (f b), sm_sku (f b))) (set (db_stocks d))"
  proof (rule inj_onI)
    fix b b'
    assume b: "b \<in> set (db_stocks d)" "b' \<in> set (db_stocks d)"
      "(sm_warehouse_code (f b), sm_sku (f b)) = (sm_warehouse_code (f b'), sm_sku (f b'))"
    then have "stock_key b = stock_key b'" using f [of b] f [of b'] by (simp add: stock_key_def)
    with b dist show "b = b'" by (auto simp: distinct_map inj_on_def)
  qed
  then show "distinct (map (\<lambda>m. (sm_warehouse_code m, sm_sku m)) (stock_rows d))"
    using dist by (simp add: rows distinct_map comp_def)
  show "length (stock_rows d) = length (db_stocks d)" by (simp add: rows)
qed

lemma matching_all [simp]: "matching_stocks None None None None True d = stock_rows d"
  by (simp add: matching_stocks_def given_def)

text \<open>C26: The stock that the API reads is the stock: when the pages of the unfiltered stock listing are read one after
  another until they cover the total, on unchanged tables, the rows obtained name each pair of warehouse
  code and SKU at most once, name exactly the pairs that have a stock, each with its quantity, and are in the
  documented order; every page reports the number of balances as the total.\<close>
theorem stock_pages_are_the_stock:
  assumes "collation (env_collate e)" and "constraints_ok d" and "0 < limit" and "len (db_stocks d) \<le> int k * limit"
    and "\<forall>i \<in> {0..<k}. w_db (w i) = d \<and> w_env (w i) = e
      \<and> list_stocks None None None None True limit (int i * limit) (w i) = (Inr (page i), w' i)"
    and "items = concat (map (\<lambda>i. pg_items (page i)) [0..<k])"
  shows "(\<forall>code sku q. (\<exists>m \<in> set items. sm_warehouse_code m = code \<and> sm_sku m = sku \<and> sm_quantity m = q)
        \<longleftrightarrow> abs_stock d (code, sku) = Some q)
    \<and> distinct (map (\<lambda>m. (sm_warehouse_code m, sm_sku m)) items)
    \<and> sorted_wrt (stock_le (env_collate e)) items
    \<and> (\<forall>i \<in> {0..<k}. pg_total (page i) = len (db_stocks d))"
proof -
  let ?rows = "sort_by (stock_le (env_collate e)) (stock_rows d)"
  note rows = stock_rows_abs [OF assms(2)]
  have p: "pg_items (page i) = page_of limit (int i * limit) ?rows" "pg_total (page i) = len (db_stocks d)"
    if "i \<in> {0..<k}" for i
  proof -
    have wi: "w_db (w i) = d" "w_env (w i) = e" and run: "list_stocks None None None None True limit (int i * limit) (w i) = (Inr (page i), w' i)"
      using assms(5) that by blast+
    from listing_page [OF run [unfolded list_stocks_def Let_def]]
    show "pg_items (page i) = page_of limit (int i * limit) ?rows" "pg_total (page i) = len (db_stocks d)"
      by (simp_all add: wi rows(3))
  qed
  have "items = concat (map (\<lambda>i. page_of limit (int i * limit) ?rows) [0..<k])"
    unfolding assms(6) by (intro arg_cong [of _ _ concat] map_cong refl p) simp
  then have items: "items = ?rows" using pages_cover [OF assms(3), of ?rows k] assms(4) rows(3) by simp
  have "distinct (map (\<lambda>m. (sm_warehouse_code m, sm_sku m)) ?rows)"
    using rows(2) by (metis distinct_sort_by distinct_map set_sort_by)
  moreover have "sorted_wrt (stock_le (env_collate e)) ?rows"
    by (rule listing_order.sort_sorted [OF listing_stock_le [OF assms(1)]])
  ultimately show ?thesis using rows(1) p(2) items by simp
qed

definition ordered_env :: env where
  "ordered_env = quiet_env\<lparr>env_collate := (\<le>)\<rparr>"

definition reading_world :: world where
  "reading_world = shop_world\<lparr>w_env := ordered_env\<rparr>"

theorem stock_pages_are_the_stock_witness:
  "\<exists>items :: stock_read_model list. (\<exists>m \<in> set items. sm_warehouse_code m = lit ''B'' \<and> sm_sku m = lit ''X'' \<and> sm_quantity m = 9)
     \<and> distinct (map (\<lambda>m. (sm_warehouse_code m, sm_sku m)) items) \<and> length (db_stocks shop) = 3"
proof -
  let ?read = "\<lambda>i. list_stocks None None None None True 2 (int i * 2) reading_world"
  have "isl (fst (?read 0)) = False" "isl (fst (?read 1)) = False" by code_simp+
  then have ok: "\<forall>i \<in> {0..<2}. ?read i = (Inr (projr (fst (?read i))), snd (?read i))"
    by (auto simp: less_2_cases_iff prod_eq_iff)
  have w: "\<forall>i \<in> {0..<2::nat}. w_db reading_world = shop \<and> w_env reading_world = ordered_env
      \<and> ?read i = (Inr (projr (fst (?read i))), snd (?read i))"
    using ok by (simp add: reading_world_def shop_world_def)
  have c: "collation (env_collate ordered_env)" by (auto simp: ordered_env_def collation_def)
  have d: "constraints_ok shop" "len (db_stocks shop) \<le> int 2 * 2" "abs_stock shop (lit ''B'', lit ''X'') = Some 9"
    by code_simp+
  let ?items = "concat (map (\<lambda>i. pg_items (projr (fst (?read i)))) [0..<2])"
  have two: "(0 :: int) < 2" by simp
  note pages = stock_pages_are_the_stock [OF c d(1) two d(2) w refl]
  then have "\<exists>m \<in> set ?items. sm_warehouse_code m = lit ''B'' \<and> sm_sku m = lit ''X'' \<and> sm_quantity m = 9"
    using d(3) by blast
  moreover have "distinct (map (\<lambda>m. (sm_warehouse_code m, sm_sku m)) ?items)" using pages by blast
  moreover have "length (db_stocks shop) = 3" by (simp add: shop_def)
  ultimately show ?thesis by blast
qed

end
