(* ===== verification/Worker.thy ===== *)
theory Worker
  imports Config System
begin

text \<open>
  \<open>app/worker.py\<close>: the polling loop, its shutdown handler, and the worker process. Signals arrive between any
  two steps; the handlers touch nothing but the stop event and the list of signals, so that it is enough to
  know which ones arrive in each phase: before the loop (phase 0), during cycle \<open>k\<close> (phase \<open>2k + 1\<close>) and
  during the wait after it (phase \<open>2k + 2\<close>). How long a wait takes is left open.
\<close>

datatype worker_event = WorkerStarted | WorkerCycleFailed | WorkerShutdownRequested int | WorkerStopped

record 'w worker_process =
  wk_stop_event :: bool
  wk_received_signals :: "int list"
  wk_phase :: nat
  wk_log :: "worker_event list"
  wk_world :: 'w

text \<open>\<open>build_shutdown_handler\<close>\<close>

definition request_shutdown :: "int \<Rightarrow> 'w worker_process \<Rightarrow> 'w worker_process" where
  "request_shutdown signal_number s =
     s\<lparr>wk_received_signals := if wk_received_signals s = [] then [signal_number] else wk_received_signals s,
       wk_stop_event := True\<rparr>"

definition deliver :: "(nat \<Rightarrow> int list) \<Rightarrow> 'w worker_process \<Rightarrow> 'w worker_process" where
  "deliver arrivals s = (fold request_shutdown (arrivals (wk_phase s)) s)\<lparr>wk_phase := Suc (wk_phase s)\<rparr>"

definition try_cycle :: "('w, 'a) action \<Rightarrow> 'w worker_process \<Rightarrow> 'w worker_process" where
  "try_cycle process_cycle s = (case process_cycle (wk_world s) of
       (Inl e, w) \<Rightarrow> s\<lparr>wk_world := w, wk_log := wk_log s @ [WorkerCycleFailed]\<rparr>
     | (Inr _, w) \<Rightarrow> s\<lparr>wk_world := w\<rparr>)"

definition loop_body :: "(nat \<Rightarrow> int list) \<Rightarrow> ('w, 'a) action \<Rightarrow> 'w worker_process \<Rightarrow> 'w worker_process" where
  "loop_body arrivals process_cycle s = deliver arrivals (deliver arrivals (try_cycle process_cycle s))"

partial_function (option) run_worker_loop ::
  "(nat \<Rightarrow> int list) \<Rightarrow> ('w, 'a) action \<Rightarrow> 'w worker_process \<Rightarrow> 'w worker_process option" where
  "run_worker_loop arrivals process_cycle s =
     (if wk_stop_event s then Some s
      else run_worker_loop arrivals process_cycle (loop_body arrivals process_cycle s))"

text \<open>The \<open>finally\<close> block of \<open>main\<close>.\<close>

definition finish_worker :: "'w worker_process \<Rightarrow> 'w worker_process" where
  "finish_worker s = s\<lparr>wk_log := wk_log s
     @ (if wk_received_signals s = [] then [] else [WorkerShutdownRequested (hd (wk_received_signals s))]) @ [WorkerStopped]\<rparr>"

definition start_worker :: "'w \<Rightarrow> 'w worker_process" where
  "start_worker w = \<lparr>wk_stop_event = False, wk_received_signals = [], wk_phase = 0, wk_log = [WorkerStarted], wk_world = w\<rparr>"

definition worker_main ::
  "(nat \<Rightarrow> int list) \<Rightarrow> settings \<Rightarrow> 'c s3_client \<Rightarrow> (nat \<Rightarrow> nat) \<Rightarrow> (nat \<Rightarrow> bool) \<Rightarrow> 'c service_world
     \<Rightarrow> 'c service_world worker_process option" where
  "worker_main arrivals settings client fetches granted w =
     map_option finish_worker
       (run_worker_loop arrivals
          (process_next_report granted (s3_storage client fetches) (limits_of settings) (cf_validation_batch_size settings) None)
          (deliver arrivals (start_worker w)))"

subsection \<open>Signals\<close>

lemma request_shutdown_simps [simp]:
  "wk_stop_event (request_shutdown n s)" "wk_world (request_shutdown n s) = wk_world s"
  "wk_log (request_shutdown n s) = wk_log s" "wk_phase (request_shutdown n s) = wk_phase s"
  by (simp_all add: request_shutdown_def)

lemma requests [simp]:
  "wk_world (fold request_shutdown ns s) = wk_world s" "wk_log (fold request_shutdown ns s) = wk_log s"
  "wk_phase (fold request_shutdown ns s) = wk_phase s"
  "wk_stop_event (fold request_shutdown ns s) \<longleftrightarrow> ns \<noteq> [] \<or> wk_stop_event s"
  by (induction ns arbitrary: s) auto

lemma first_request [simp]:
  "wk_received_signals (fold request_shutdown ns s) =
     (if wk_received_signals s = [] then take 1 ns else wk_received_signals s)"
proof (induction ns arbitrary: s)
  case (Cons n ns)
  then show ?case by (auto simp: request_shutdown_def)
qed simp

lemma deliver_simps [simp]:
  "wk_world (deliver arrivals s) = wk_world s" "wk_log (deliver arrivals s) = wk_log s"
  "wk_phase (deliver arrivals s) = Suc (wk_phase s)"
  "wk_stop_event (deliver arrivals s) \<longleftrightarrow> arrivals (wk_phase s) \<noteq> [] \<or> wk_stop_event s"
  "wk_received_signals (deliver arrivals s) =
     (if wk_received_signals s = [] then take 1 (arrivals (wk_phase s)) else wk_received_signals s)"
  by (simp_all add: deliver_def)

lemma try_cycle_simps [simp]:
  "wk_world (try_cycle process_cycle s) = snd (process_cycle (wk_world s))"
  "wk_stop_event (try_cycle process_cycle s) = wk_stop_event s"
  "wk_received_signals (try_cycle process_cycle s) = wk_received_signals s"
  "wk_phase (try_cycle process_cycle s) = wk_phase s"
  "wk_log (try_cycle process_cycle s) = wk_log s @ (if isl (fst (process_cycle (wk_world s))) then [WorkerCycleFailed] else [])"
  by (simp_all add: try_cycle_def split: prod.split sum.split)

subsection \<open>The loop\<close>

text \<open>The world after a number of cycles, and how many of them raised.\<close>

primrec after_cycles :: "('w, 'a) action \<Rightarrow> nat \<Rightarrow> 'w \<Rightarrow> 'w" where
  "after_cycles process_cycle 0 w = w"
| "after_cycles process_cycle (Suc n) w = after_cycles process_cycle n (snd (process_cycle w))"

primrec failed_cycles :: "('w, 'a) action \<Rightarrow> nat \<Rightarrow> 'w \<Rightarrow> nat" where
  "failed_cycles process_cycle 0 w = 0"
| "failed_cycles process_cycle (Suc n) w =
     (if isl (fst (process_cycle w)) then 1 else 0) + failed_cycles process_cycle n (snd (process_cycle w))"

text \<open>With the first signal ahead, in phase \<open>p\<close>, the loop does the cycles up to it and ends.\<close>

lemma loop_stops:
  assumes "arrivals p \<noteq> []" and "\<And>q. wk_phase s \<le> q \<Longrightarrow> q < p \<Longrightarrow> arrivals q = []"
    and "wk_phase s \<le> p" and "\<not> wk_stop_event s" and "wk_received_signals s = []"
  shows "\<exists>s' n. run_worker_loop arrivals process_cycle s = Some s' \<and> n = (p - wk_phase s) div 2 + 1
    \<and> wk_received_signals s' = [hd (arrivals p)] \<and> wk_world s' = after_cycles process_cycle n (wk_world s)
    \<and> wk_log s' = wk_log s @ replicate (failed_cycles process_cycle n (wk_world s)) WorkerCycleFailed"
  using assms(2-)
proof (induction "p - wk_phase s" arbitrary: s rule: less_induct)
  case less
  let ?s = "loop_body arrivals process_cycle s"
  have step: "run_worker_loop arrivals process_cycle s = run_worker_loop arrivals process_cycle ?s"
    using less.prems by (subst run_worker_loop.simps) simp
  have first: "take 1 (arrivals p) = [hd (arrivals p)]" using assms(1) by (cases "arrivals p") auto
  show ?case
  proof (cases "p \<le> Suc (wk_phase s)")
    case True
    then consider "p = wk_phase s" | "p = Suc (wk_phase s)" using less.prems(2) by linarith
    then have "wk_stop_event ?s" "wk_received_signals ?s = [hd (arrivals p)]"
      using assms(1) less.prems(1,4) first by (auto simp: loop_body_def)
    moreover have "(p - wk_phase s) div 2 = 0" using True by simp
    ultimately show ?thesis
      by (subst step, subst run_worker_loop.simps) (simp add: loop_body_def)
  next
    case False
    then have ahead: "p - wk_phase ?s < p - wk_phase s" "wk_phase ?s \<le> p" "(p - wk_phase s) div 2 = Suc ((p - wk_phase ?s) div 2)"
      using less.prems(2) by (auto simp: loop_body_def)
    have quiet: "\<not> wk_stop_event ?s" "wk_received_signals ?s = []"
      using less.prems False by (simp_all add: loop_body_def)
    have "arrivals q = []" if "wk_phase ?s \<le> q" "q < p" for q
      using that less.prems(1) by (simp add: loop_body_def)
    from less.hyps [OF ahead(1) this ahead(2) quiet] show ?thesis
      unfolding step ahead(3) by (auto simp: loop_body_def)
  qed
qed

lemma loop_needs_signal:
  assumes "run_worker_loop arrivals process_cycle s = Some s'"
  shows "wk_stop_event s \<or> (\<exists>p. arrivals p \<noteq> [])"
proof (rule run_worker_loop.raw_induct [where P = "\<lambda>arrivals process_cycle s s'. wk_stop_event s \<or> (\<exists>p. arrivals p \<noteq> [])", OF _ assms])
  fix loop arrivals s s' and process_cycle :: "('a, 'b) action"
  assume "\<And>arrivals process_cycle s s'. loop arrivals process_cycle s = Some s' \<Longrightarrow> wk_stop_event s \<or> (\<exists>p. arrivals p \<noteq> [])"
    and "(if wk_stop_event s then Some s else loop arrivals process_cycle (loop_body arrivals process_cycle s)) = Some s'"
  then show "wk_stop_event s \<or> (\<exists>p. arrivals p \<noteq> [])"
    by (fastforce simp: loop_body_def split: if_splits)
qed

lemma cycles_run:
  "service_runs client read limits n w (after_cycles (process_next_report granted (s3_storage client fetches) limits n None) k w)"
proof (induction k arbitrary: w)
  case (Suc k)
  obtain outcome w' where run: "process_next_report granted (s3_storage client fetches) limits n None w = (outcome, w')" by fastforce
  from converse_rtranclp_into_rtranclp [of "service_step client read limits n", OF service_step.cycle [OF run] Suc.IH]
  show ?case using run by simp
qed simp

end
