(* ===== verification/WorkerClaims.thy ===== *)
theory WorkerClaims
  imports Worker ServiceClaims
begin

text \<open>The property of the worker process.\<close>

text \<open>C9: The worker process ends if and only if a signal arrives, and an exception of a cycle does not end it: with the
  first signal in phase \<open>p\<close> it completes the cycle under way and starts no other, so that it has run exactly
  the cycles up to then, each on the state its predecessor left, however many raised. It reports the first
  signal only, and what it did is a run of worker cycles of the service.\<close>
theorem worker_stops_on_signal:
  "(worker_main arrivals settings client fetches granted w = None \<longleftrightarrow> (\<forall>p. arrivals p = []))
   \<and> (\<forall>p. arrivals p \<noteq> [] \<and> (\<forall>q < p. arrivals q = []) \<longrightarrow>
        (\<exists>s cycle n. worker_main arrivals settings client fetches granted w = Some s
           \<and> cycle = process_next_report granted (s3_storage client fetches) (limits_of settings) (cf_validation_batch_size settings) None
           \<and> n = (p + 1) div 2 \<and> wk_world s = after_cycles cycle n w
           \<and> wk_log s = WorkerStarted # replicate (failed_cycles cycle n w) WorkerCycleFailed
               @ [WorkerShutdownRequested (hd (arrivals p)), WorkerStopped]
           \<and> service_runs client read (limits_of settings) (cf_validation_batch_size settings) w (wk_world s)))"
proof -
  define cycle :: "('a service_world, worker_cycle_outcome) action" where "cycle = process_next_report granted (s3_storage client fetches) (limits_of settings)
    (cf_validation_batch_size settings) None"
  let ?s = "deliver arrivals (start_worker w)"
  have main: "worker_main arrivals settings client fetches granted w = map_option finish_worker (run_worker_loop arrivals cycle ?s)"
    by (simp add: worker_main_def cycle_def)
  have start: "wk_phase ?s = 1" "wk_world ?s = w" "wk_log ?s = [WorkerStarted]"
    "wk_stop_event ?s \<longleftrightarrow> arrivals 0 \<noteq> []" "wk_received_signals ?s = take 1 (arrivals 0)"
    by (simp_all add: start_worker_def)
  have stops: "\<exists>s n. worker_main arrivals settings client fetches granted w = Some s
           \<and> n = (p + 1) div 2 \<and> wk_world s = after_cycles cycle n w
           \<and> wk_log s = WorkerStarted # replicate (failed_cycles cycle n w) WorkerCycleFailed
               @ [WorkerShutdownRequested (hd (arrivals p)), WorkerStopped]"
    if p: "arrivals p \<noteq> []" "\<forall>q < p. arrivals q = []" for p
  proof (cases p)
    case 0
    with p(1) have "run_worker_loop arrivals cycle ?s = Some ?s" using start(4) by (subst run_worker_loop.simps) simp
    moreover have "wk_received_signals ?s = [hd (arrivals 0)]" using p(1) 0 start(5) by (cases "arrivals 0") simp_all
    ultimately show ?thesis unfolding main using p(1) 0 start by (simp add: finish_worker_def)
  next
    case (Suc k)
    have "(p - wk_phase ?s) div 2 + 1 = (p + 1) div 2" using Suc by (simp add: start_worker_def)
    moreover have "\<not> wk_stop_event ?s" "wk_received_signals ?s = []" "wk_phase ?s \<le> p" using p(2) Suc start by auto
    ultimately show ?thesis using loop_stops [of arrivals p ?s cycle] p start(2,3) unfolding main
      by (fastforce simp: finish_worker_def)
  qed
  have "worker_main arrivals settings client fetches granted w = None \<longleftrightarrow> (\<forall>p. arrivals p = [])"
  proof
    assume none: "worker_main arrivals settings client fetches granted w = None"
    show "\<forall>p. arrivals p = []"
    proof (rule ccontr)
      assume "\<not> (\<forall>p. arrivals p = [])"
      then obtain p where "arrivals p \<noteq> []" "\<forall>q < p. arrivals q = []"
        using exists_least_iff [of "\<lambda>p. arrivals p \<noteq> []"] by auto
      from stops [OF this] none show False by simp
    qed
  next
    assume "\<forall>p. arrivals p = []"
    then show "worker_main arrivals settings client fetches granted w = None"
      using loop_needs_signal [of arrivals cycle ?s] unfolding main
      by (cases "run_worker_loop arrivals cycle ?s") (auto simp: start_worker_def)
  qed
  with stops cycles_run [of client read "limits_of settings" "cf_validation_batch_size settings" w granted fetches]
  show ?thesis unfolding cycle_def [symmetric] by fastforce
qed

theorem worker_stops_on_signal_witness:
  "\<exists>s. worker_main (\<lambda>p. if p = 3 then [15, 2] else []) default_settings memory_client (\<lambda>_. 1) (\<lambda>_. True) (new_service failing_env) = Some s
     \<and> last (butlast (wk_log s)) = WorkerShutdownRequested 15"
proof -
  let ?arrivals = "\<lambda>p :: nat. if p = 3 then [15, 2 :: int] else []"
  have "?arrivals 3 \<noteq> [] \<and> (\<forall>q < 3. ?arrivals q = [])" by simp
  from worker_stops_on_signal [THEN conjunct2, rule_format, OF this,
      of default_settings memory_client "\<lambda>_. 1" "\<lambda>_. True" "new_service failing_env" read_bytes]
  show ?thesis by (auto simp: butlast_append)
qed

end
