(* ===== verification/Schema.thy ===== *)
theory Schema
  imports Main
begin

text \<open>
  The database schema: the tables that \<open>app/models.py\<close> declares, with the names that its naming convention
  gives, and the migrations under \<open>alembic/versions\<close> as sequences of schema operations. As in PostgreSQL, tables,
  indexes and the indexes behind primary keys and unique constraints share one namespace, and an operation fails
  when it makes a name that is taken there, a second constraint or column of a name in a table, or when a table,
  column, constraint or index that it needs is missing, a foreign key's target that is not a key included. Views,
  sequences, other schemas and the rows of the tables are not part of this model. Columns, constraints and indexes
  are data here; what the constraints say of rows is in the theory of the tables.
\<close>

subsection \<open>Schemas\<close>

datatype sql_type = BIGINT | TEXT | VARCHAR int | TIMESTAMPTZ | JSONB

record column =
  cl_name :: string
  cl_type :: sql_type
  cl_nullable :: bool
  cl_identity :: bool
  cl_server_default :: "string option"

datatype sql_condition = In string "string list" | AllNonnegative "string list" | Matches string string

text \<open>\<open>ForeignKey name columns table columns ondelete\<close>\<close>

datatype table_constraint =
    Check string sql_condition
  | PrimaryKey string "string list"
  | Unique string "string list"
  | ForeignKey string "string list" string "string list" "string option"

datatype sort_order = ASC | DESC

record table_index =
  ix_name :: string
  ix_columns :: "(string \<times> sort_order) list"
  ix_where :: "sql_condition option"

record table =
  tb_name :: string
  tb_columns :: "column list"
  tb_constraints :: "table_constraint list"
  tb_indexes :: "table_index list"

type_synonym schema = "table list"
type_synonym schema_op = "schema \<Rightarrow> schema option"

abbreviation required :: "string \<Rightarrow> sql_type \<Rightarrow> column" where
  "required n ty \<equiv> \<lparr>cl_name = n, cl_type = ty, cl_nullable = False, cl_identity = False, cl_server_default = None\<rparr>"

abbreviation nullable :: "string \<Rightarrow> sql_type \<Rightarrow> column" where
  "nullable n ty \<equiv> \<lparr>cl_name = n, cl_type = ty, cl_nullable = True, cl_identity = False, cl_server_default = None\<rparr>"

abbreviation defaulted :: "string \<Rightarrow> sql_type \<Rightarrow> string \<Rightarrow> column" where
  "defaulted n ty value \<equiv>
     \<lparr>cl_name = n, cl_type = ty, cl_nullable = False, cl_identity = False, cl_server_default = Some value\<rparr>"

abbreviation identity :: "string \<Rightarrow> column" where
  "identity n \<equiv> \<lparr>cl_name = n, cl_type = BIGINT, cl_nullable = False, cl_identity = True, cl_server_default = None\<rparr>"

abbreviation index_on :: "string \<Rightarrow> string list \<Rightarrow> table_index" where
  "index_on n columns \<equiv> \<lparr>ix_name = n, ix_columns = map (\<lambda>c. (c, ASC)) columns, ix_where = None\<rparr>"

abbreviation created_desc :: table_index where
  "created_desc \<equiv> \<lparr>ix_name = ''ix_reports_created_desc'', ix_columns = [(''created_at'', DESC), (''id'', DESC)], ix_where = None\<rparr>"

fun constraint_name :: "table_constraint \<Rightarrow> string" where
  "constraint_name (Check n condition) = n"
| "constraint_name (PrimaryKey n columns) = n"
| "constraint_name (Unique n columns) = n"
| "constraint_name (ForeignKey n columns t referred ondelete) = n"

fun referred_table :: "table_constraint \<Rightarrow> string option" where
  "referred_table (ForeignKey n columns t referred ondelete) = Some t"
| "referred_table _ = None"

fun condition_columns :: "sql_condition \<Rightarrow> string list" where
  "condition_columns (In c allowed) = [c]"
| "condition_columns (AllNonnegative cs) = cs"
| "condition_columns (Matches c regex) = [c]"

fun constraint_columns :: "table_constraint \<Rightarrow> string list" where
  "constraint_columns (Check n condition) = condition_columns condition"
| "constraint_columns (PrimaryKey n columns) = columns"
| "constraint_columns (Unique n columns) = columns"
| "constraint_columns (ForeignKey n columns t referred ondelete) = columns"

definition index_columns :: "table_index \<Rightarrow> string list" where
  "index_columns ix = map fst (ix_columns ix) @ (case ix_where ix of None \<Rightarrow> [] | Some condition \<Rightarrow> condition_columns condition)"

definition has_columns :: "table \<Rightarrow> string list \<Rightarrow> bool" where
  "has_columns t cs \<longleftrightarrow> list_all (\<lambda>c. c \<in> set (map cl_name (tb_columns t))) cs"

text \<open>The columns of a key, and what a table puts into the namespace of relations.\<close>

fun key_columns :: "table_constraint \<Rightarrow> string set option" where
  "key_columns (PrimaryKey n columns) = Some (set columns)"
| "key_columns (Unique n columns) = Some (set columns)"
| "key_columns _ = None"

definition own_relations :: "table \<Rightarrow> string list" where
  "own_relations t = tb_name t # map ix_name (tb_indexes t)
     @ map constraint_name (filter (\<lambda>k. key_columns k \<noteq> None) (tb_constraints t))"

fun refers_to :: "schema \<Rightarrow> table_constraint \<Rightarrow> bool" where
  "refers_to s (ForeignKey n columns t referred ondelete) =
     list_ex (\<lambda>t'. tb_name t' = t \<and> list_ex (\<lambda>k. key_columns k = Some (set referred)) (tb_constraints t')) s"
| "refers_to s _ = True"

subsection \<open>Operations\<close>

text \<open>
  What name a check constraint gets in the database is up to the migration library: \<open>op_name table name\<close>. Given a
  \<open>target_metadata\<close> with a naming convention it documents to apply the convention to the name.
\<close>

type_synonym naming = "string \<Rightarrow> string \<Rightarrow> string"

fun rename_check :: "naming \<Rightarrow> string \<Rightarrow> table_constraint \<Rightarrow> table_constraint" where
  "rename_check op_name t (Check n condition) = Check (op_name t n) condition"
| "rename_check op_name t c = c"

definition rename_checks :: "naming \<Rightarrow> table \<Rightarrow> table" where
  "rename_checks op_name t = t\<lparr>tb_constraints := map (rename_check op_name (tb_name t)) (tb_constraints t)\<rparr>"

definition table_names :: "schema \<Rightarrow> string list" where
  "table_names s = map tb_name s"

definition relation_names :: "schema \<Rightarrow> string list" where
  "relation_names s = concat (map own_relations s)"

definition alter_table :: "string \<Rightarrow> (table \<Rightarrow> bool) \<Rightarrow> (table \<Rightarrow> table) \<Rightarrow> schema_op" where
  "alter_table n accepts f s =
     (if list_ex (\<lambda>t. tb_name t = n \<and> accepts t) s then Some (map (\<lambda>t. if tb_name t = n then f t else t) s) else None)"

definition create_table :: "naming \<Rightarrow> table \<Rightarrow> schema_op" where
  "create_table op_name t s =
     (if list_all (\<lambda>n. n \<notin> set (relation_names s)) (own_relations t) \<and> distinct (own_relations t)
         \<and> distinct (map cl_name (tb_columns t)) \<and> distinct (map constraint_name (tb_constraints (rename_checks op_name t)))
         \<and> list_all (\<lambda>k. has_columns t (constraint_columns k) \<and> refers_to (s @ [t]) k) (tb_constraints t)
      then Some (s @ [rename_checks op_name t]) else None)"

definition drop_table :: "string \<Rightarrow> schema_op" where
  "drop_table n s =
     (if n \<in> set (table_names s)
         \<and> list_all (\<lambda>t. tb_name t = n \<or> list_all (\<lambda>c. referred_table c \<noteq> Some n) (tb_constraints t)) s
      then Some (filter (\<lambda>t. tb_name t \<noteq> n) s) else None)"

definition create_index :: "table_index \<Rightarrow> string \<Rightarrow> schema_op" where
  "create_index ix n s =
     (if ix_name ix \<in> set (relation_names s) then None
      else alter_table n (\<lambda>t. has_columns t (index_columns ix)) (\<lambda>t. t\<lparr>tb_indexes := tb_indexes t @ [ix]\<rparr>) s)"

definition drop_index :: "string \<Rightarrow> string \<Rightarrow> schema_op" where
  "drop_index i n = alter_table n (\<lambda>t. i \<in> set (map ix_name (tb_indexes t)))
     (\<lambda>t. t\<lparr>tb_indexes := filter (\<lambda>ix. ix_name ix \<noteq> i) (tb_indexes t)\<rparr>)"

definition add_column :: "string \<Rightarrow> column \<Rightarrow> schema_op" where
  "add_column n c = alter_table n (\<lambda>t. cl_name c \<notin> set (map cl_name (tb_columns t)))
     (\<lambda>t. t\<lparr>tb_columns := tb_columns t @ [c]\<rparr>)"

text \<open>Constraints and indexes on a column go with it.\<close>

definition drop_column :: "string \<Rightarrow> string \<Rightarrow> schema_op" where
  "drop_column n c = alter_table n (\<lambda>t. c \<in> set (map cl_name (tb_columns t)))
     (\<lambda>t. t\<lparr>tb_columns := filter (\<lambda>c'. cl_name c' \<noteq> c) (tb_columns t),
       tb_constraints := filter (\<lambda>k. c \<notin> set (constraint_columns k)) (tb_constraints t),
       tb_indexes := filter (\<lambda>ix. c \<notin> set (index_columns ix)) (tb_indexes t)\<rparr>)"

definition create_check_constraint :: "naming \<Rightarrow> string \<Rightarrow> string \<Rightarrow> sql_condition \<Rightarrow> schema_op" where
  "create_check_constraint op_name c n condition =
     alter_table n (\<lambda>t. op_name n c \<notin> set (map constraint_name (tb_constraints t)) \<and> has_columns t (condition_columns condition))
       (\<lambda>t. t\<lparr>tb_constraints := tb_constraints t @ [Check (op_name n c) condition]\<rparr>)"

definition drop_check_constraint :: "naming \<Rightarrow> string \<Rightarrow> string \<Rightarrow> schema_op" where
  "drop_check_constraint op_name c n =
     alter_table n (\<lambda>t. op_name n c \<in> set (map constraint_name (tb_constraints t)))
       (\<lambda>t. t\<lparr>tb_constraints := filter (\<lambda>k. constraint_name k \<noteq> op_name n c) (tb_constraints t)\<rparr>)"

fun run_ops :: "schema_op list \<Rightarrow> schema_op" where
  "run_ops [] s = Some s"
| "run_ops (f # fs) s = (case f s of None \<Rightarrow> None | Some s' \<Rightarrow> run_ops fs s')"

subsection \<open>The models\<close>

text \<open>\<open>NAMING_CONVENTION\<close>: check constraints and primary keys are the ones it names.\<close>

definition ck_name :: naming where
  "ck_name t n = ''ck_'' @ t @ ''_'' @ n"

definition pk_name :: "string \<Rightarrow> string" where
  "pk_name t = ''pk_'' @ t"

definition report_table :: table where
  "report_table = \<lparr>tb_name = ''reports'',
     tb_columns = [identity ''id'',
       required ''status'' (VARCHAR 20),
       required ''original_filename'' TEXT,
       required ''object_bucket'' TEXT,
       required ''object_key'' TEXT,
       required ''size_bytes'' BIGINT,
       nullable ''checksum_sha256'' (VARCHAR 64),
       defaulted ''created_at'' TIMESTAMPTZ ''now()'',
       nullable ''processing_started_at'' TIMESTAMPTZ,
       nullable ''finished_at'' TIMESTAMPTZ,
       defaulted ''row_count'' BIGINT ''0'',
       defaulted ''error_count'' BIGINT ''0'',
       defaulted ''stocks_created'' BIGINT ''0'',
       defaulted ''stocks_updated'' BIGINT ''0'',
       defaulted ''stocks_zeroed'' BIGINT ''0'',
       nullable ''failure_kind'' (VARCHAR 20),
       nullable ''failure_message'' TEXT],
     tb_constraints = [Unique ''uq_reports_object_bucket_object_key'' [''object_bucket'', ''object_key''],
       Check (ck_name ''reports'' ''status_allowed'') (In ''status'' [''pending'', ''processing'', ''completed'', ''failed'']),
       Check (ck_name ''reports'' ''nonnegative_counters'') (AllNonnegative [''row_count'', ''error_count'', ''stocks_created'', ''stocks_updated'', ''stocks_zeroed'']),
       Check (ck_name ''reports'' ''checksum_sha256_format'') (Matches ''checksum_sha256'' ''^[0-9a-f]{64}$''),
       PrimaryKey (pk_name ''reports'') [''id'']],
     tb_indexes = [\<lparr>ix_name = ''ix_reports_queue'', ix_columns = [(''created_at'', ASC), (''id'', ASC)], ix_where = Some (In ''status'' [''pending'', ''processing''])\<rparr>,
       created_desc]\<rparr>"

definition warehouse_table :: table where
  "warehouse_table = \<lparr>tb_name = ''warehouses'',
     tb_columns = [identity ''id'',
       required ''code'' TEXT,
       required ''name'' TEXT,
       defaulted ''created_at'' TIMESTAMPTZ ''now()'',
       defaulted ''updated_at'' TIMESTAMPTZ ''now()''],
     tb_constraints = [Unique ''uq_warehouses_code'' [''code''],
       PrimaryKey (pk_name ''warehouses'') [''id'']],
     tb_indexes = []\<rparr>"

definition product_table :: table where
  "product_table = \<lparr>tb_name = ''products'',
     tb_columns = [identity ''id'',
       required ''sku'' TEXT,
       required ''name'' TEXT,
       defaulted ''created_at'' TIMESTAMPTZ ''now()'',
       defaulted ''updated_at'' TIMESTAMPTZ ''now()''],
     tb_constraints = [Unique ''uq_products_sku'' [''sku''],
       PrimaryKey (pk_name ''products'') [''id'']],
     tb_indexes = []\<rparr>"

definition stock_balance_table :: table where
  "stock_balance_table = \<lparr>tb_name = ''stock_balances'',
     tb_columns = [required ''warehouse_id'' BIGINT,
       required ''product_id'' BIGINT,
       required ''quantity'' BIGINT,
       defaulted ''created_at'' TIMESTAMPTZ ''now()'',
       defaulted ''updated_at'' TIMESTAMPTZ ''now()''],
     tb_constraints = [PrimaryKey ''pk_stock_balances'' [''warehouse_id'', ''product_id''],
       Check (ck_name ''stock_balances'' ''quantity_nonnegative'') (AllNonnegative [''quantity'']),
       ForeignKey ''fk_stock_balances_warehouse_id_warehouses'' [''warehouse_id''] ''warehouses'' [''id''] None,
       ForeignKey ''fk_stock_balances_product_id_products'' [''product_id''] ''products'' [''id''] None],
     tb_indexes = [index_on ''ix_stock_balances_product_id_warehouse_id'' [''product_id'', ''warehouse_id'']]\<rparr>"

definition report_staging_row_table :: table where
  "report_staging_row_table = \<lparr>tb_name = ''report_staging_rows'',
     tb_columns = [required ''report_id'' BIGINT,
       required ''line_number'' BIGINT,
       required ''warehouse_code'' TEXT,
       required ''warehouse_name'' TEXT,
       required ''sku'' TEXT,
       required ''product_name'' TEXT,
       required ''quantity'' BIGINT],
     tb_constraints = [PrimaryKey ''pk_report_staging_rows'' [''report_id'', ''line_number''],
       Check (ck_name ''report_staging_rows'' ''quantity_nonnegative'') (AllNonnegative [''quantity'']),
       ForeignKey ''fk_report_staging_rows_report_id_reports'' [''report_id''] ''reports'' [''id''] (Some ''CASCADE'')],
     tb_indexes = [index_on ''ix_report_staging_rows_report_id_warehouse_code_sku'' [''report_id'', ''warehouse_code'', ''sku'']]\<rparr>"

definition report_error_table :: table where
  "report_error_table = \<lparr>tb_name = ''report_errors'',
     tb_columns = [identity ''id'',
       required ''report_id'' BIGINT,
       nullable ''line_number'' BIGINT,
       nullable ''field_name'' TEXT,
       required ''code'' TEXT,
       required ''message'' TEXT,
       nullable ''raw_data'' JSONB,
       defaulted ''created_at'' TIMESTAMPTZ ''now()''],
     tb_constraints = [ForeignKey ''fk_report_errors_report_id_reports'' [''report_id''] ''reports'' [''id''] (Some ''CASCADE''),
       PrimaryKey (pk_name ''report_errors'') [''id'']],
     tb_indexes = [index_on ''ix_report_errors_report_id_line_number_id'' [''report_id'', ''line_number'', ''id'']]\<rparr>"

definition metadata :: schema where
  "metadata = [report_table, warehouse_table, product_table, stock_balance_table, report_staging_row_table, report_error_table]"

subsection \<open>\<open>0001_initial_schema\<close>\<close>

definition reports_0001 :: table where
  "reports_0001 = \<lparr>tb_name = ''reports'',
     tb_columns = [identity ''id'',
       required ''status'' (VARCHAR 20),
       required ''original_filename'' TEXT,
       required ''object_bucket'' TEXT,
       required ''object_key'' TEXT,
       required ''size_bytes'' BIGINT,
       defaulted ''created_at'' TIMESTAMPTZ ''now()'',
       nullable ''processing_started_at'' TIMESTAMPTZ,
       nullable ''finished_at'' TIMESTAMPTZ,
       defaulted ''row_count'' BIGINT ''0'',
       defaulted ''error_count'' BIGINT ''0'',
       defaulted ''stocks_created'' BIGINT ''0'',
       defaulted ''stocks_updated'' BIGINT ''0'',
       defaulted ''stocks_zeroed'' BIGINT ''0'',
       nullable ''failure_kind'' (VARCHAR 20),
       nullable ''failure_message'' TEXT],
     tb_constraints = [Check ''ck_reports_nonnegative_counters'' (AllNonnegative [''row_count'', ''error_count'', ''stocks_created'', ''stocks_updated'', ''stocks_zeroed'']),
       Check ''ck_reports_status_allowed'' (In ''status'' [''pending'', ''processing'', ''completed'', ''failed'']),
       PrimaryKey ''pk_reports'' [''id''],
       Unique ''uq_reports_object_bucket_object_key'' [''object_bucket'', ''object_key'']],
     tb_indexes = []\<rparr>"

definition warehouses_0001 :: table where
  "warehouses_0001 = \<lparr>tb_name = ''warehouses'',
     tb_columns = [identity ''id'',
       required ''code'' TEXT,
       required ''name'' TEXT,
       defaulted ''created_at'' TIMESTAMPTZ ''now()'',
       defaulted ''updated_at'' TIMESTAMPTZ ''now()''],
     tb_constraints = [PrimaryKey ''pk_warehouses'' [''id''],
       Unique ''uq_warehouses_code'' [''code'']],
     tb_indexes = []\<rparr>"

definition products_0001 :: table where
  "products_0001 = \<lparr>tb_name = ''products'',
     tb_columns = [identity ''id'',
       required ''sku'' TEXT,
       required ''name'' TEXT,
       defaulted ''created_at'' TIMESTAMPTZ ''now()'',
       defaulted ''updated_at'' TIMESTAMPTZ ''now()''],
     tb_constraints = [PrimaryKey ''pk_products'' [''id''],
       Unique ''uq_products_sku'' [''sku'']],
     tb_indexes = []\<rparr>"

definition stock_balances_0001 :: table where
  "stock_balances_0001 = \<lparr>tb_name = ''stock_balances'',
     tb_columns = [required ''warehouse_id'' BIGINT,
       required ''product_id'' BIGINT,
       required ''quantity'' BIGINT,
       defaulted ''created_at'' TIMESTAMPTZ ''now()'',
       defaulted ''updated_at'' TIMESTAMPTZ ''now()''],
     tb_constraints = [Check ''ck_stock_balances_quantity_nonnegative'' (AllNonnegative [''quantity'']),
       ForeignKey ''fk_stock_balances_product_id_products'' [''product_id''] ''products'' [''id''] None,
       ForeignKey ''fk_stock_balances_warehouse_id_warehouses'' [''warehouse_id''] ''warehouses'' [''id''] None,
       PrimaryKey ''pk_stock_balances'' [''warehouse_id'', ''product_id'']],
     tb_indexes = []\<rparr>"

definition report_staging_rows_0001 :: table where
  "report_staging_rows_0001 = \<lparr>tb_name = ''report_staging_rows'',
     tb_columns = [required ''report_id'' BIGINT,
       required ''line_number'' BIGINT,
       required ''warehouse_code'' TEXT,
       required ''warehouse_name'' TEXT,
       required ''sku'' TEXT,
       required ''product_name'' TEXT,
       required ''quantity'' BIGINT],
     tb_constraints = [Check ''ck_report_staging_rows_quantity_nonnegative'' (AllNonnegative [''quantity'']),
       ForeignKey ''fk_report_staging_rows_report_id_reports'' [''report_id''] ''reports'' [''id''] (Some ''CASCADE''),
       PrimaryKey ''pk_report_staging_rows'' [''report_id'', ''line_number'']],
     tb_indexes = []\<rparr>"

definition report_errors_0001 :: table where
  "report_errors_0001 = \<lparr>tb_name = ''report_errors'',
     tb_columns = [identity ''id'',
       required ''report_id'' BIGINT,
       nullable ''line_number'' BIGINT,
       nullable ''field_name'' TEXT,
       required ''code'' TEXT,
       required ''message'' TEXT,
       nullable ''raw_data'' JSONB,
       defaulted ''created_at'' TIMESTAMPTZ ''now()''],
     tb_constraints = [ForeignKey ''fk_report_errors_report_id_reports'' [''report_id''] ''reports'' [''id''] (Some ''CASCADE''),
       PrimaryKey ''pk_report_errors'' [''id'']],
     tb_indexes = []\<rparr>"

definition upgrade_0001 :: "naming \<Rightarrow> schema_op" where
  "upgrade_0001 op_name = run_ops
     [create_table op_name reports_0001,
      create_index created_desc ''reports'',
      create_index \<lparr>ix_name = ''ix_reports_queue'', ix_columns = [(''created_at'', ASC), (''id'', ASC)], ix_where = Some (In ''status'' [''pending'', ''processing''])\<rparr> ''reports'',
      create_table op_name warehouses_0001,
      create_table op_name products_0001,
      create_table op_name stock_balances_0001,
      create_index (index_on ''ix_stock_balances_product_id_warehouse_id'' [''product_id'', ''warehouse_id'']) ''stock_balances'',
      create_table op_name report_staging_rows_0001,
      create_index (index_on ''ix_report_staging_rows_report_id_warehouse_code_sku'' [''report_id'', ''warehouse_code'', ''sku'']) ''report_staging_rows'',
      create_table op_name report_errors_0001,
      create_index (index_on ''ix_report_errors_report_id_line_number_id'' [''report_id'', ''line_number'', ''id'']) ''report_errors'']"

definition downgrade_0001 :: schema_op where
  "downgrade_0001 = run_ops
     [drop_index ''ix_report_errors_report_id_line_number_id'' ''report_errors'',
      drop_table ''report_errors'',
      drop_index ''ix_report_staging_rows_report_id_warehouse_code_sku'' ''report_staging_rows'',
      drop_table ''report_staging_rows'',
      drop_index ''ix_stock_balances_product_id_warehouse_id'' ''stock_balances'',
      drop_table ''stock_balances'',
      drop_table ''products'',
      drop_table ''warehouses'',
      drop_index ''ix_reports_queue'' ''reports'',
      drop_index ''ix_reports_created_desc'' ''reports'',
      drop_table ''reports'']"

subsection \<open>\<open>0002_add_report_checksum\<close>\<close>

definition upgrade_0002 :: "naming \<Rightarrow> schema_op" where
  "upgrade_0002 op_name = run_ops
     [add_column ''reports'' (nullable ''checksum_sha256'' (VARCHAR 64)),
      create_check_constraint op_name ''ck_reports_checksum_sha256_format'' ''reports'' (Matches ''checksum_sha256'' ''^[0-9a-f]{64}$'')]"

definition downgrade_0002 :: "naming \<Rightarrow> schema_op" where
  "downgrade_0002 op_name = run_ops
     [drop_check_constraint op_name ''ck_reports_checksum_sha256_format'' ''reports'',
      drop_column ''reports'' ''checksum_sha256'']"

text \<open>\<open>alembic upgrade head\<close> and \<open>alembic downgrade base\<close>, in the order of \<open>down_revision\<close>.\<close>

definition upgrade_head :: "naming \<Rightarrow> schema_op" where
  "upgrade_head op_name = run_ops [upgrade_0001 op_name, upgrade_0002 op_name]"

definition downgrade_base :: "naming \<Rightarrow> schema_op" where
  "downgrade_base op_name = run_ops [downgrade_0002 op_name, downgrade_0001]"

end
