(* ===== verification/SchemaClaims.thy ===== *)
theory SchemaClaims
  imports Schema
begin

text \<open>
  The properties of the migrations: they arrive at the schema that the models declare, and going down undoes
  going up, whatever else the database contains.
\<close>

subsection \<open>The migrated schema\<close>

text \<open>Equality up to the order of tables, columns, constraints and indexes.\<close>

definition table_content :: "table \<Rightarrow> string \<times> column set \<times> table_constraint set \<times> table_index set" where
  "table_content t = (tb_name t, set (tb_columns t), set (tb_constraints t), set (tb_indexes t))"

definition same_schema :: "schema \<Rightarrow> schema \<Rightarrow> bool" where
  "same_schema s s' \<longleftrightarrow> distinct (table_names s) \<and> distinct (table_names s')
     \<and> set (map table_content s) = set (map table_content s')"

text \<open>
  What is asked of the names that check constraints are given: within a table of the models they stay apart from
  one another and from the names of the keys. Taking names as they stand does this, and so does the naming
  convention of the models, whether or not long names are then cut to distinct shorter ones.
\<close>

definition separates :: "naming \<Rightarrow> bool" where
  "separates op_name \<longleftrightarrow> list_all (\<lambda>t. distinct (map constraint_name (tb_constraints (rename_checks op_name t)))) metadata"

abbreviation plain :: naming where
  "plain \<equiv> \<lambda>t n. n"

lemma separates_plain: "separates plain" and separates_ck: "separates ck_name"
  by code_simp+

text \<open>The migrations take the same course whatever the names of check constraints become.\<close>

lemma rename_check_fields [simp]:
  "constraint_columns (rename_check op_name n k) = constraint_columns k"
  "key_columns (rename_check op_name n k) = key_columns k"
  "referred_table (rename_check op_name n k) = referred_table k"
  "key_columns k \<noteq> None \<Longrightarrow> rename_check op_name n k = k"
  by (cases k; simp)+

lemma rename_checks_fields [simp]:
  "tb_name (rename_checks op_name t) = tb_name t" "tb_columns (rename_checks op_name t) = tb_columns t"
  "tb_indexes (rename_checks op_name t) = tb_indexes t"
  "tb_constraints (rename_checks op_name t) = map (rename_check op_name (tb_name t)) (tb_constraints t)"
  "has_columns (rename_checks op_name t) cs = has_columns t cs"
  by (simp_all add: rename_checks_def has_columns_def)

lemma rename_plain [simp]: "rename_checks plain t = t"
proof -
  have "rename_check plain n c = c" for n c by (cases c) simp_all
  then show ?thesis by (simp add: rename_checks_def map_idI)
qed

lemma own_relations_rename [simp]: "own_relations (rename_checks op_name t) = own_relations t"
proof -
  have "map constraint_name (filter (\<lambda>k. key_columns k \<noteq> None) (map (rename_check op_name n) ks))
      = map constraint_name (filter (\<lambda>k. key_columns k \<noteq> None) ks)" for n ks
    by (induction ks) auto
  then show ?thesis by (simp add: own_relations_def)
qed

lemma relation_names_rename [simp]:
  "relation_names (map (rename_checks op_name) s) = relation_names s"
  "table_names (map (rename_checks op_name) s) = table_names s"
  by (simp_all add: relation_names_def table_names_def comp_def)

lemma refers_to_rename: "refers_to (map (rename_checks op_name) s @ ts) k = refers_to (s @ ts) k"
  by (cases k) (simp_all add: list_ex_iff bex_Un)

lemma create_table_rename:
  assumes "distinct (map constraint_name (tb_constraints t))"
    and "distinct (map constraint_name (tb_constraints (rename_checks op_name t)))"
  shows "create_table op_name t (map (rename_checks op_name) s) = map_option (map (rename_checks op_name)) (create_table plain t s)"
  using assms by (simp add: create_table_def refers_to_rename)

lemma alter_table_rename:
  assumes "\<And>t. t \<in> set s \<Longrightarrow> tb_name t = n \<Longrightarrow>
    accepts (rename_checks op_name t) = accepts' t \<and> f (rename_checks op_name t) = rename_checks op_name (f' t)"
  shows "alter_table n accepts f (map (rename_checks op_name) s) = map_option (map (rename_checks op_name)) (alter_table n accepts' f' s)"
  using assms by (auto simp: alter_table_def list_ex_iff)

lemma columns_rename:
  "create_index ix n (map (rename_checks op_name) s) = map_option (map (rename_checks op_name)) (create_index ix n s)"
  "drop_index i n (map (rename_checks op_name) s) = map_option (map (rename_checks op_name)) (drop_index i n s)"
  "add_column n c (map (rename_checks op_name) s) = map_option (map (rename_checks op_name)) (add_column n c s)"
  "drop_column n col (map (rename_checks op_name) s) = map_option (map (rename_checks op_name)) (drop_column n col s)"
  by (auto simp: create_index_def drop_index_def add_column_def drop_column_def rename_checks_def filter_map comp_def
      has_columns_def intro!: alter_table_rename)

lemma drop_table_rename:
  "drop_table n (map (rename_checks op_name) s) = map_option (map (rename_checks op_name)) (drop_table n s)"
  by (simp add: drop_table_def list_all_iff filter_map comp_def)

text \<open>A check constraint of a given name is found under its new name.\<close>

definition found :: "naming \<Rightarrow> string \<Rightarrow> string \<Rightarrow> schema \<Rightarrow> bool" where
  "found op_name c n s \<longleftrightarrow> list_all (\<lambda>t. tb_name t = n \<longrightarrow>
     list_all (\<lambda>k. constraint_name (rename_check op_name n k) = op_name n c \<longleftrightarrow> constraint_name k = c) (tb_constraints t)) s"

lemma check_rename:
  assumes "found op_name c n s"
  shows "create_check_constraint op_name c n cond (map (rename_checks op_name) s)
      = map_option (map (rename_checks op_name)) (create_check_constraint plain c n cond s)"
    and "drop_check_constraint op_name c n (map (rename_checks op_name) s)
      = map_option (map (rename_checks op_name)) (drop_check_constraint plain c n s)"
proof -
  have k: "constraint_name (rename_check op_name n k) = op_name n c \<longleftrightarrow> constraint_name k = c"
    if "t \<in> set s" "tb_name t = n" "k \<in> set (tb_constraints t)" for t k
    using assms that by (auto simp: found_def list_all_iff)
  then have f: "filter (\<lambda>k. constraint_name (rename_check op_name n k) \<noteq> op_name n c) (tb_constraints t)
      = filter (\<lambda>k. constraint_name k \<noteq> c) (tb_constraints t)" if "t \<in> set s" "tb_name t = n" for t
    using that by (auto intro: filter_cong)
  have m: "op_name n c \<in> (\<lambda>k. constraint_name (rename_check op_name n k)) ` set (tb_constraints t)
      \<longleftrightarrow> c \<in> constraint_name ` set (tb_constraints t)" if "t \<in> set s" "tb_name t = n" for t
    using k [OF that] by (force simp: image_iff)
  show "create_check_constraint op_name c n cond (map (rename_checks op_name) s)
      = map_option (map (rename_checks op_name)) (create_check_constraint plain c n cond s)"
    unfolding create_check_constraint_def
    by (rule alter_table_rename) (intro conjI, simp add: m, simp add: rename_checks_def)
  show "drop_check_constraint op_name c n (map (rename_checks op_name) s)
      = map_option (map (rename_checks op_name)) (drop_check_constraint plain c n s)"
    unfolding drop_check_constraint_def
    by (rule alter_table_rename) (intro conjI, simp add: m, simp add: rename_checks_def filter_map comp_def f)
qed

text \<open>The tables that the migrations create, and the runs of the migrations on an empty database.\<close>

abbreviation created_tables :: "table list" where
  "created_tables \<equiv> [reports_0001, warehouses_0001, products_0001, stock_balances_0001, report_staging_rows_0001, report_errors_0001]"

lemma created_tables_apart:
  assumes "separates op_name"
  shows "list_all (\<lambda>t. distinct (map constraint_name (tb_constraints t))
     \<and> distinct (map constraint_name (tb_constraints (rename_checks op_name t)))) created_tables"
proof -
  have plain: "list_all (\<lambda>t. distinct (map constraint_name (tb_constraints t))) created_tables" by code_simp
  have sub: "list_all (\<lambda>t. list_ex (\<lambda>t'. tb_name t' = tb_name t
      \<and> set (tb_constraints t) \<subseteq> set (tb_constraints t')) metadata) created_tables" by code_simp
  have dist: "list_all (\<lambda>t. distinct (tb_constraints t)) created_tables" by code_simp
  have "distinct (map constraint_name (tb_constraints (rename_checks op_name t)))" if t: "t \<in> set created_tables" for t
  proof -
    obtain t' where t': "t' \<in> set metadata" "tb_name t' = tb_name t" "set (tb_constraints t) \<subseteq> set (tb_constraints t')"
      using sub t unfolding list_all_iff list_ex_iff by blast
    have "distinct (map constraint_name (tb_constraints (rename_checks op_name t')))"
      using assms t'(1) by (auto simp: separates_def list_all_iff simp del: rename_checks_fields)
    then have "inj_on (\<lambda>k. constraint_name (rename_check op_name (tb_name t) k)) (set (tb_constraints t'))"
      using t'(2) by (simp add: distinct_map comp_def inj_on_def)
    with t'(3) have "inj_on (\<lambda>k. constraint_name (rename_check op_name (tb_name t) k)) (set (tb_constraints t))"
      by (rule inj_on_subset [rotated])
    moreover have "distinct (tb_constraints t)" using dist t unfolding list_all_iff by blast
    ultimately show ?thesis by (simp add: distinct_map comp_def)
  qed
  with plain show ?thesis by (simp add: list_all_iff)
qed

lemma run_ops_rename:
  assumes "list_all2 (\<lambda>f g. \<forall>s. f (map (rename_checks op_name) s) = map_option (map (rename_checks op_name)) (g s)) fs gs"
  shows "run_ops fs (map (rename_checks op_name) s) = map_option (map (rename_checks op_name)) (run_ops gs s)"
  using assms by (induction arbitrary: s rule: list_all2_induct) (auto split: option.splits)

lemma initial_rename:
  assumes "separates op_name"
  shows "upgrade_0001 op_name (map (rename_checks op_name) s) = map_option (map (rename_checks op_name)) (upgrade_0001 plain s)"
proof -
  have t: "create_table op_name t (map (rename_checks op_name) s) = map_option (map (rename_checks op_name)) (create_table plain t s)"
    if "t \<in> set created_tables" for t s
    using created_tables_apart [OF assms] that create_table_rename unfolding list_all_iff by blast
  show ?thesis
    unfolding upgrade_0001_def by (rule run_ops_rename) (simp add: t columns_rename)
qed

lemma initial_down_rename:
  "downgrade_0001 (map (rename_checks op_name) s) = map_option (map (rename_checks op_name)) (downgrade_0001 s)"
  unfolding downgrade_0001_def by (rule run_ops_rename) (simp add: columns_rename drop_table_rename)

definition initial_schema :: schema where
  "initial_schema = the (upgrade_0001 plain [])"

definition plain_head :: schema where
  "plain_head = the (upgrade_head plain [])"

lemma plain_runs:
  "upgrade_0001 plain [] = Some initial_schema" "upgrade_head plain [] = Some plain_head"
  "downgrade_0002 plain plain_head = Some initial_schema" "downgrade_0001 initial_schema = Some []"
  "same_schema plain_head metadata"
proof -
  have "upgrade_0001 plain [] \<noteq> None" "upgrade_head plain [] \<noteq> None" by code_simp+
  then show "upgrade_0001 plain [] = Some initial_schema" "upgrade_head plain [] = Some plain_head"
    by (simp_all add: initial_schema_def plain_head_def)
  show "downgrade_0002 plain plain_head = Some initial_schema" "downgrade_0001 initial_schema = Some []"
    "same_schema plain_head metadata"
    by code_simp+
qed

text \<open>The constraint that the second migration adds is found, as the names of the report table stay apart.\<close>

lemma checksum_found:
  assumes "separates op_name"
    and "list_all (\<lambda>t. tb_name t = ''reports'' \<longrightarrow> list_all (\<lambda>k. k \<in> set (tb_constraints report_table)) (tb_constraints t)) s"
  shows "found op_name ''ck_reports_checksum_sha256_format'' ''reports'' s"
proof -
  let ?K = "Check ''ck_reports_checksum_sha256_format'' (Matches ''checksum_sha256'' ''^[0-9a-f]{64}$'')"
  have K: "list_ex (\<lambda>k. k = ?K) (tb_constraints report_table)" and n: "tb_name report_table = ''reports''"
    and m: "list_ex (\<lambda>t. t = report_table) metadata" by code_simp+
  have inj: "inj_on (\<lambda>k. constraint_name (rename_check f ''reports'' k)) (set (tb_constraints report_table))"
    if "separates f" for f
    using that m n by (auto simp: separates_def list_all_iff list_ex_iff distinct_map comp_def inj_on_def)
  have id: "rename_check plain t k = k" for t k by (cases k) simp_all
  have "constraint_name (rename_check op_name ''reports'' k) = op_name ''reports'' ''ck_reports_checksum_sha256_format''
      \<longleftrightarrow> constraint_name k = ''ck_reports_checksum_sha256_format''" if "k \<in> set (tb_constraints report_table)" for k
  proof -
    have "?K \<in> set (tb_constraints report_table)" using K unfolding list_ex_iff by blast
    then have "constraint_name (rename_check op_name ''reports'' k) = constraint_name (rename_check op_name ''reports'' ?K) \<longleftrightarrow> k = ?K"
      "constraint_name k = constraint_name ?K \<longleftrightarrow> k = ?K"
      using inj_on_eq_iff [OF inj [OF assms(1)] that] inj_on_eq_iff [OF inj [OF separates_plain] that]
      unfolding id by blast+
    then show ?thesis by simp
  qed
  then show ?thesis using assms(2) unfolding found_def list_all_iff by blast
qed

lemma checksum_rename:
  assumes "separates op_name"
  shows "upgrade_0002 op_name (map (rename_checks op_name) initial_schema)
      = map_option (map (rename_checks op_name)) (upgrade_0002 plain initial_schema)"
    and "downgrade_0002 op_name (map (rename_checks op_name) plain_head)
      = map_option (map (rename_checks op_name)) (downgrade_0002 plain plain_head)"
proof -
  let ?added = "add_column ''reports'' (nullable ''checksum_sha256'' (VARCHAR 64)) initial_schema"
  have "?added \<noteq> None" by code_simp
  then obtain s where s: "?added = Some s" by auto
  have "list_all (\<lambda>t. tb_name t = ''reports'' \<longrightarrow> list_all (\<lambda>k. k \<in> set (tb_constraints report_table)) (tb_constraints t)) (the ?added)"
    and head: "list_all (\<lambda>t. tb_name t = ''reports'' \<longrightarrow> list_all (\<lambda>k. k \<in> set (tb_constraints report_table)) (tb_constraints t)) plain_head"
    by code_simp+
  then have "found op_name ''ck_reports_checksum_sha256_format'' ''reports'' s" using checksum_found [OF assms] s by simp
  from check_rename(1) [OF this] s show "upgrade_0002 op_name (map (rename_checks op_name) initial_schema)
      = map_option (map (rename_checks op_name)) (upgrade_0002 plain initial_schema)"
    by (auto simp: upgrade_0002_def columns_rename split: option.splits)
  from check_rename(2) [OF checksum_found [OF assms head]] show "downgrade_0002 op_name (map (rename_checks op_name) plain_head)
      = map_option (map (rename_checks op_name)) (downgrade_0002 plain plain_head)"
    by (auto simp: downgrade_0002_def columns_rename split: option.splits)
qed

definition head_schema :: "naming \<Rightarrow> schema" where
  "head_schema op_name = map (rename_checks op_name) plain_head"

lemma head_runs:
  assumes "separates op_name"
  shows "upgrade_0001 op_name [] = Some (map (rename_checks op_name) initial_schema)"
    and "upgrade_head op_name [] = Some (head_schema op_name)"
    and "downgrade_0002 op_name (head_schema op_name) = Some (map (rename_checks op_name) initial_schema)"
    and "downgrade_base op_name (head_schema op_name) = Some []"
proof -
  show up: "upgrade_0001 op_name [] = Some (map (rename_checks op_name) initial_schema)"
    using initial_rename [OF assms, of "[]"] by (simp add: plain_runs)
  have "upgrade_0002 plain initial_schema = Some plain_head"
    using plain_runs(1,2) by (simp add: upgrade_head_def split: option.splits)
  with up show "upgrade_head op_name [] = Some (head_schema op_name)"
    using checksum_rename(1) [OF assms] by (simp add: upgrade_head_def head_schema_def)
  show down: "downgrade_0002 op_name (head_schema op_name) = Some (map (rename_checks op_name) initial_schema)"
    using checksum_rename(2) [OF assms] by (simp add: head_schema_def plain_runs)
  show "downgrade_base op_name (head_schema op_name) = Some []"
    using down initial_down_rename [of op_name initial_schema] by (simp add: downgrade_base_def plain_runs)
qed

lemma head_same: "same_schema (head_schema op_name) (map (rename_checks op_name) metadata)"
proof -
  define content where "content c = (fst c, fst (snd c), rename_check op_name (fst c) ` fst (snd (snd c)), snd (snd (snd c)))"
    for c :: "string \<times> column set \<times> table_constraint set \<times> table_index set"
  have "table_content (rename_checks op_name t) = content (table_content t)" for t
    by (simp add: table_content_def content_def)
  then have "set (map table_content (map (rename_checks op_name) s)) = content ` set (map table_content s)" for s
    by (simp add: image_image)
  then show ?thesis using plain_runs(5) by (simp only: same_schema_def head_schema_def relation_names_rename)
qed

subsection \<open>Beside other tables\<close>

text \<open>An operation that acts on the tables \<open>ts\<close> of a database as if the tables \<open>s\<close> were not there.\<close>

definition beside :: "schema \<Rightarrow> schema_op \<Rightarrow> bool" where
  "beside s f \<longleftrightarrow> (\<forall>ts. f (s @ ts) = map_option ((@) s) (f ts))"

text \<open>
  A database with other tables: none of their names, of their indexes' and of their keys' is a name that the
  application's tables, indexes or keys take, and none of them refers to a table of the application.
\<close>

definition app_tables :: "string list" where
  "app_tables = [''reports'', ''warehouses'', ''products'', ''stock_balances'', ''report_staging_rows'', ''report_errors'']"

definition app_relations :: "string list" where
  "app_relations = app_tables @
     [''ix_reports_created_desc'', ''ix_reports_queue'', ''ix_stock_balances_product_id_warehouse_id'',
      ''ix_report_staging_rows_report_id_warehouse_code_sku'', ''ix_report_errors_report_id_line_number_id'',
      ''pk_reports'', ''uq_reports_object_bucket_object_key'', ''pk_warehouses'', ''uq_warehouses_code'',
      ''pk_products'', ''uq_products_sku'', ''pk_stock_balances'', ''pk_report_staging_rows'', ''pk_report_errors'']"

definition unrelated :: "schema \<Rightarrow> bool" where
  "unrelated s \<longleftrightarrow> list_all (\<lambda>t. list_all (\<lambda>n. n \<notin> set app_relations) (own_relations t)
     \<and> list_all (\<lambda>c. case referred_table c of None \<Rightarrow> True | Some n \<Rightarrow> n \<notin> set app_tables) (tb_constraints t)) s"

lemma app_relations_metadata: "set app_relations = set (relation_names metadata)"
  by code_simp

lemma unrelated_names:
  assumes "unrelated s"
  shows "t \<in> set s \<Longrightarrow> tb_name t \<notin> set app_tables" and "n \<in> set app_relations \<Longrightarrow> n \<notin> set (relation_names s)"
    and "t \<in> set s \<Longrightarrow> c \<in> set (tb_constraints t) \<Longrightarrow> referred_table c = Some m \<Longrightarrow> m \<notin> set app_tables"
  using assms
  by (fastforce simp: unrelated_def list_all_iff relation_names_def own_relations_def app_relations_def)+

lemma beside_alter [intro]:
  assumes "unrelated s" and "n \<in> set app_tables"
  shows "beside s (alter_table n accepts f)"
proof -
  have "map (\<lambda>t. if tb_name t = n then f t else t) s = s" "\<not> list_ex (\<lambda>t. tb_name t = n \<and> accepts t) s"
    using assms(2) unrelated_names(1) [OF assms(1)] by (auto simp: list_ex_iff intro!: map_idI)
  then show ?thesis by (simp add: beside_def alter_table_def)
qed

lemma beside_columns [intro]:
  assumes "unrelated s" and "n \<in> set app_tables"
  shows "beside s (drop_index i n)" "beside s (add_column n c)" "beside s (drop_column n col)"
    "beside s (create_check_constraint op_name k n condition)" "beside s (drop_check_constraint op_name k n)"
  unfolding drop_index_def add_column_def drop_column_def create_check_constraint_def drop_check_constraint_def
  using assms by blast+

lemma beside_create_index [intro]:
  assumes "unrelated s" and "n \<in> set app_tables" and "ix_name ix \<in> set app_relations"
  shows "beside s (create_index ix n)"
proof -
  have "ix_name ix \<notin> set (relation_names s)" by (rule unrelated_names(2) [OF assms(1,3)])
  moreover have "beside s (alter_table n (\<lambda>t. has_columns t (index_columns ix)) (\<lambda>t. t\<lparr>tb_indexes := tb_indexes t @ [ix]\<rparr>))"
    using assms by blast
  ultimately show ?thesis by (auto simp: beside_def create_index_def relation_names_def)
qed

lemma refers_beside:
  assumes "unrelated s" and "case referred_table c of None \<Rightarrow> True | Some n \<Rightarrow> n \<in> set app_tables"
  shows "refers_to (s @ ts) c = refers_to ts c"
  using assms(2) unrelated_names(1) [OF assms(1)] by (cases c) (auto simp: list_ex_iff)

lemma beside_create_table [intro]:
  assumes "unrelated s" and "list_all (\<lambda>n. n \<in> set app_relations) (own_relations t)"
    and "list_all (\<lambda>c. case referred_table c of None \<Rightarrow> True | Some n \<Rightarrow> n \<in> set app_tables) (tb_constraints t)"
  shows "beside s (create_table op_name t)"
proof -
  have "list_all (\<lambda>n. n \<notin> set (relation_names (s @ ts))) (own_relations t)
      = list_all (\<lambda>n. n \<notin> set (relation_names ts)) (own_relations t)" for ts
    using assms(2) unrelated_names(2) [OF assms(1)] by (auto simp: list_all_iff relation_names_def)
  moreover have "list_all (\<lambda>k. has_columns t (constraint_columns k) \<and> refers_to (s @ ts) k) (tb_constraints t)
      = list_all (\<lambda>k. has_columns t (constraint_columns k) \<and> refers_to ts k) (tb_constraints t)" for ts
    using assms(3) refers_beside [OF assms(1)] by (auto simp: list_all_iff)
  ultimately show ?thesis by (simp add: beside_def create_table_def)
qed

lemma beside_drop_table [intro]:
  assumes "unrelated s" and "n \<in> set app_tables"
  shows "beside s (drop_table n)"
proof -
  have "n \<notin> set (table_names s)" "filter (\<lambda>t. tb_name t \<noteq> n) s = s"
    using assms(2) unrelated_names(1) [OF assms(1)] by (auto simp: table_names_def filter_id_conv)
  moreover have "list_all (\<lambda>t. tb_name t = n \<or> list_all (\<lambda>c. referred_table c \<noteq> Some n) (tb_constraints t)) s"
    using assms(2) unrelated_names(3) [OF assms(1)] by (auto simp: list_all_iff)
  ultimately show ?thesis by (auto simp: beside_def drop_table_def table_names_def)
qed

lemma beside_run_ops [intro]: "list_all (beside s) fs \<Longrightarrow> beside s (run_ops fs)"
proof (induction fs)
  case Nil
  show ?case by (simp add: beside_def)
next
  case (Cons f fs)
  then have "beside s f" "beside s (run_ops fs)" by simp_all
  then show ?case unfolding beside_def by (auto split: option.split)
qed

lemma beside_migrations:
  assumes "unrelated s"
  shows "beside s (upgrade_head op_name)" "beside s (downgrade_base op_name)" "beside s (upgrade_0001 op_name)"
    "beside s (downgrade_0002 op_name)"
proof -
  have names: "set app_tables = {''reports'', ''warehouses'', ''products'', ''stock_balances'', ''report_staging_rows'', ''report_errors''}"
    by (simp add: app_tables_def)
  have "list_all (\<lambda>t. list_all (\<lambda>n. n \<in> set app_relations) (own_relations t)
      \<and> list_all (\<lambda>c. case referred_table c of None \<Rightarrow> True | Some n \<Rightarrow> n \<in> set app_tables) (tb_constraints t)) created_tables"
    by code_simp
  then have tables: "beside s (create_table op_name t)" if "t \<in> set created_tables" for t
    using that beside_create_table [OF assms] unfolding list_all_iff by blast
  have indexes: "beside s (create_index ix n)" if "n \<in> set app_tables" "ix_name ix \<in> set app_relations" for ix n
    using that assms by blast
  note steps = beside_columns [OF assms] beside_drop_table [OF assms] tables indexes
  show up: "beside s (upgrade_0001 op_name)"
    unfolding upgrade_0001_def
    by (rule beside_run_ops) (simp add: tables, intro conjI indexes; simp add: names app_relations_def)
  have up2: "beside s (upgrade_0002 op_name)"
    unfolding upgrade_0002_def by (rule beside_run_ops) (simp, intro conjI steps; simp add: names)
  show down: "beside s (downgrade_0002 op_name)"
    unfolding downgrade_0002_def by (rule beside_run_ops) (simp, intro conjI steps; simp add: names)
  have down1: "beside s downgrade_0001"
    unfolding downgrade_0001_def by (rule beside_run_ops) (simp, intro conjI steps; simp add: names)
  show "beside s (upgrade_head op_name)" "beside s (downgrade_base op_name)"
    unfolding upgrade_head_def downgrade_base_def using up up2 down down1 by (auto intro!: beside_run_ops)
qed

lemma besideD: "beside s f \<Longrightarrow> f s = map_option ((@) s) (f [])"
  unfolding beside_def by (metis append_Nil2)

subsection \<open>The properties\<close>

text \<open>C24: The migrations arrive at the models: run on any database with other tables only, none of whose tables,
  indexes and keys has a name of the application's, they succeed, leave the other tables alone, and add exactly the
  tables that the models declare, with the same columns, types, defaults, keys, foreign keys, checks and indexes,
  under the same names except for the check constraints. The check constraint that the models call \<open>n\<close>, of a table
  \<open>t\<close>, is called \<open>op_name t n\<close>, so its name is the models' when the migration library takes names as they stand;
  whatever else it does to names, as long as it keeps those of a table apart, the rest of the schema is the same.\<close>
theorem migrations_match_models:
  assumes "unrelated s" and "separates op_name"
  shows "\<exists>added. upgrade_head op_name s = Some (s @ added) \<and> same_schema added (map (rename_checks op_name) metadata)
    \<and> (op_name = (\<lambda>t n. n) \<longrightarrow> same_schema added metadata)"
  using besideD [OF beside_migrations(1) [OF assms(1)], of op_name] head_runs(2) [OF assms(2)] head_same [of op_name]
  by (auto simp: map_idI)

definition version_table :: table where
  "version_table = \<lparr>tb_name = ''alembic_version'', tb_columns = [required ''version_num'' (VARCHAR 32)],
     tb_constraints = [PrimaryKey ''alembic_version_pkc'' [''version_num'']], tb_indexes = []\<rparr>"

lemma unrelated_version: "unrelated [version_table]"
  by code_simp

theorem migrations_match_models_witness: "upgrade_head ck_name [version_table] \<noteq> None"
  using migrations_match_models [OF unrelated_version separates_ck] by auto

text \<open>C25: Going down undoes going up: on any database with other tables only, none of whose tables, indexes and
  keys has a name of the application's, and whatever the names of check constraints become, as long as those of a
  table stay apart, the second downgrade step restores the schema of the first migration exactly, and both
  restore the database as it was.\<close>
theorem downgrade_undoes_upgrade:
  assumes "unrelated s" and "separates op_name"
  shows "Option.bind (upgrade_head op_name s) (downgrade_base op_name) = Some s
    \<and> Option.bind (upgrade_head op_name s) (downgrade_0002 op_name) = upgrade_0001 op_name s"
proof -
  note b = beside_migrations [OF assms(1), unfolded beside_def, rule_format, of op_name]
  show ?thesis using b [of "[]"] b [of "head_schema op_name"] head_runs [OF assms(2)] by simp
qed

theorem downgrade_undoes_upgrade_witness:
  "Option.bind (upgrade_head ck_name [version_table]) (downgrade_base ck_name) = Some [version_table]"
  using downgrade_undoes_upgrade [OF unrelated_version separates_ck] by simp

text \<open>
  When the operations apply the naming convention of \<open>target_metadata\<close>, which \<open>alembic/env.py\<close> passes, the
  check constraints, whose convention contains the given name, end up with their prefix twice.
\<close>

lemma check_names_prefixed_twice:
  "\<exists>added. upgrade_head ck_name [] = Some added
     \<and> ''ck_reports_ck_reports_status_allowed'' \<in> set (concat (map (\<lambda>t. map constraint_name (tb_constraints t)) added))
     \<and> ''ck_reports_status_allowed'' \<notin> set (concat (map (\<lambda>t. map constraint_name (tb_constraints t)) added))"
proof -
  have "''ck_reports_ck_reports_status_allowed'' \<in> set (concat (map (\<lambda>t. map constraint_name (tb_constraints t)) (head_schema ck_name)))"
    "''ck_reports_status_allowed'' \<notin> set (concat (map (\<lambda>t. map constraint_name (tb_constraints t)) (head_schema ck_name)))"
    by code_simp+
  then show ?thesis using head_runs(2) [OF separates_ck] by simp
qed

end
