(* ===== verification/CalmCycle.thy ===== *)
theory CalmCycle
  imports ReadyReports
begin

text \<open>
  Liveness of a worker cycle: once nothing fails any more, every operation of report processing
  returns. Together with what returned operations have done this makes them totally correct.
\<close>

subsection \<open>Actions that return\<close>

definition returns :: "('x, 'a) proc \<Rightarrow> 'x world_scheme \<Rightarrow> bool" where
  "returns m w \<longleftrightarrow> calm w \<and> (\<exists>a w'. m w = (Inr a, w') \<and> calm w' \<and> w_env w' = w_env w)"

lemma calm_batches [simp]:
  "calm (w\<lparr>vb_staging_batch := rows\<rparr>) = calm w" "calm (w\<lparr>vb_error_batch := issues\<rparr>) = calm w"
  by (simp_all add: calm_def)

lemma returnsE:
  assumes "returns m w"
  obtains a w' where "m w = (Inr a, w')" "w_env w' = w_env w" "calm w'"
  using assms by (auto simp: returns_def)

lemma returnsD: "returns m w \<Longrightarrow> m w = (r, w') \<Longrightarrow> calm w'"
  by (auto simp: returns_def)

lemma returns_ret [simp]: "returns (ret a) w \<longleftrightarrow> calm w"
  by (simp add: returns_def act_simps)

lemma returns_bind:
  assumes "returns m w" and "\<And>a w'. m w = (Inr a, w') \<Longrightarrow> calm w' \<Longrightarrow> returns (f a) w'"
  shows "returns (bind_act m f) w"
proof -
  obtain a w1 where 1: "m w = (Inr a, w1)" "calm w1" "w_env w1 = w_env w" using assms(1) by (auto simp: returns_def)
  moreover from assms(2) [OF 1(1,2)] obtain b w2 where "f a w1 = (Inr b, w2)" "calm w2" "w_env w2 = w_env w1"
    by (auto simp: returns_def)
  ultimately show ?thesis using assms(1) by (simp add: returns_def act_simps)
qed

lemma returns_then:
  assumes "returns m w" and "\<And>a w'. m w = (Inr a, w') \<Longrightarrow> calm w' \<Longrightarrow> returns n w'"
  shows "returns (then_act m n) w"
  unfolding then_act_def using assms by (rule returns_bind)

lemma returns_catch: "returns m w \<Longrightarrow> returns (catch_act m h) w"
  by (auto simp: returns_def act_simps)

lemma returns_finally:
  assumes "returns m w" and "\<And>a w'. m w = (Inr a, w') \<Longrightarrow> calm w' \<Longrightarrow> returns c w'"
  shows "returns (finally_act m c) w"
proof -
  obtain a w1 where 1: "m w = (Inr a, w1)" "calm w1" "w_env w1 = w_env w" using assms(1) by (auto simp: returns_def)
  moreover from assms(2) [OF 1(1,2)] obtain b w2 where "c w1 = (Inr b, w2)" "calm w2" "w_env w2 = w_env w1"
    by (auto simp: returns_def)
  ultimately show ?thesis using assms(1) by (simp add: returns_def act_simps)
qed

lemma returns_query [simp]: "returns (query f) w \<longleftrightarrow> calm w"
  by (auto simp: returns_def query_def dest: calm_now)

lemma returns_alive [simp]: "returns ensure_lock_connection_alive w \<longleftrightarrow> calm w"
proof -
  have "calm w \<Longrightarrow> ensure_lock_connection_alive w = (Inr (), tick w)"
    using calm_now [of w] by (simp add: ensure_lock_connection_alive_def)
  then show ?thesis by (auto simp: returns_def)
qed

lemma returns_execute:
  assumes "calm w" and "f (w_now w) (w_db w) (w_seq w) = Some (d', sq')" and "constraints_ok d'"
  shows "returns (execute f) w"
  using assms calm_now [OF assms(1)] by (simp add: returns_def execute_def)

lemma returns_transaction:
  assumes "returns body (w\<lparr>w_now := env_time (w_env w) (w_tick w)\<rparr>)"
  shows "returns (transaction body) w"
proof -
  obtain a w1 where "body (w\<lparr>w_now := env_time (w_env w) (w_tick w)\<rparr>) = (Inr a, w1)" "calm w1" "w_env w1 = w_env w" "calm w"
    using assms by (auto simp: returns_def)
  then show ?thesis using calm_now [of w1] by (simp add: returns_def transaction_def)
qed

lemma returns_write:
  assumes "calm w" and "\<And>now. \<exists>d' sq'. f now (w_db w) (w_seq w) = Some (d', sq') \<and> constraints_ok d'"
  shows "returns (transaction (execute f)) w"
proof (rule returns_transaction)
  let ?w = "w\<lparr>w_now := env_time (w_env w) (w_tick w)\<rparr>"
  from assms(2) [of "w_now ?w"] obtain d' sq' where "f (w_now ?w) (w_db ?w) (w_seq ?w) = Some (d', sq')" "constraints_ok d'"
    by auto
  then show "returns (execute f) ?w" using assms(1) by (intro returns_execute) simp_all
qed

lemma returns_write_batch:
  assumes "calm w" and "\<And>now. \<exists>d' sq'. f now (w_db w) (w_seq w) = Some (d', sq') \<and> constraints_ok d'"
  shows "returns (write_batch ensure_lock_connection_alive f) w"
  unfolding write_batch_def
proof (rule returns_then)
  fix a w'
  assume alive: "ensure_lock_connection_alive w = (Inr a, w')" and calm: "calm w'"
  then have "w' = tick w" by (auto dest: lock_check_db)
  then show "returns (transaction (execute f)) w'" using assms(2) calm by (intro returns_write) auto
qed (simp add: assms(1))

subsection \<open>Insertions that satisfy the constraints\<close>

lemma insert_staging_constraints:
  assumes "constraints_ok d" and "rid \<in> set (map rp_id (db_reports d))"
    and "distinct (map sg_line_number (staged d rid @ map (staging_values rid) rows))"
    and "\<forall>row \<in> set rows. staging_row_ok (staging_values rid row)"
  shows "constraints_ok (d\<lparr>db_staging := db_staging d @ map (staging_values rid) rows\<rparr>)"
proof -
  let ?new = "map (staging_values rid) rows"
  have rid: "sg_report_id s = rid" if "s \<in> set ?new" for s using that by (auto simp: staging_values_def)
  have "map staging_key ?new = map (Pair rid) (map sg_line_number ?new)"
    by (simp add: staging_key_def staging_values_def)
  moreover have "distinct (map sg_line_number ?new)" using assms(3) by (simp only: map_append distinct_append)
  ultimately have "distinct (map staging_key ?new)"
    by (simp only: distinct_map [of "Pair rid"]) (simp add: inj_on_def)
  moreover have "set (map staging_key (db_staging d)) \<inter> set (map staging_key ?new) = {}"
  proof -
    have "staging_key s \<noteq> staging_key t" if "s \<in> set (db_staging d)" "t \<in> set ?new" for s t
    proof
      assume "staging_key s = staging_key t"
      then have "s \<in> set (staged d rid)" "sg_line_number s = sg_line_number t"
        using that rid [OF that(2)] by (simp_all add: staging_key_def staged_def)
      moreover have "sg_line_number t \<notin> set (map sg_line_number (staged d rid))"
        using assms(3) that(2) by auto
      ultimately show False by (metis image_eqI list.set_map)
    qed
    then show ?thesis unfolding set_map by blast
  qed
  moreover have "list_all (\<lambda>s. staging_row_ok s \<and> sg_report_id s \<in> set (map rp_id (db_reports d))) ?new"
    unfolding list_all_iff using assms(2,4) by (simp add: staging_values_def)
  moreover have "staging_ok d" using assms(1) by (simp add: constraints_ok_def)
  ultimately have "staging_ok (d\<lparr>db_staging := db_staging d @ ?new\<rparr>)"
    by (simp add: staging_ok_def del: map_map)
  then show ?thesis using assms(1) by (simp add: constraints_ok_def reports_ok_def stocks_ok_def errors_ok_def)
qed

definition issue_storable :: "validation_issue \<Rightarrow> bool" where
  "issue_storable issue \<longleftrightarrow> error_ok (error_row 0 0 0 issue)"

lemma error_row_storable: "error_ok (error_row now rid i issue) = issue_storable issue"
  by (simp add: issue_storable_def error_ok_def error_row_def)

lemma error_row_simps [simp]: "er_id (error_row now rid i issue) = i" "er_report_id (error_row now rid i issue) = rid"
  by (simp_all add: error_row_def)

lemma insert_errors_constraints:
  assumes "constraints_ok d" and "sequences_ok d sq" and "rid \<in> set (map rp_id (db_reports d))"
    and "\<forall>i \<in> set issues. issue_storable i"
  shows "\<exists>d' sq'. insert_errors rid issues now d sq = Some (d', sq') \<and> constraints_ok d'"
proof -
  let ?new = "map (\<lambda>(k, issue). error_row now rid (sq_errors sq + int k) issue) (enumerate 0 issues)"
  have ids: "map er_id ?new = map (\<lambda>k. sq_errors sq + int k) [0..<length issues]"
    by (rule nth_equalityI) (simp_all add: nth_enumerate_eq)
  have "distinct (map er_id ?new)" unfolding ids by (simp add: distinct_map inj_on_def)
  moreover have "set (map er_id (db_errors d)) \<inter> set (map er_id ?new) = {}"
    unfolding ids using assms(2) by (fastforce simp: sequences_ok_def list_all_iff)
  moreover have "error_ok e \<and> er_report_id e \<in> set (map rp_id (db_reports d))" if "e \<in> set ?new" for e
  proof -
    obtain p where "p \<in> set (enumerate 0 issues)" "e = (\<lambda>(k, issue). error_row now rid (sq_errors sq + int k) issue) p"
      using \<open>e \<in> set ?new\<close> unfolding set_map by blast
    then obtain k issue where "(k, issue) \<in> set (enumerate 0 issues)" "e = error_row now rid (sq_errors sq + int k) issue"
      by (metis (no_types, lifting) case_prod_conv surj_pair)
    moreover from this(1) have "issue \<in> set issues" by (auto simp: in_set_enumerate_eq)
    ultimately show ?thesis using assms(3,4) by (simp add: error_row_storable)
  qed
  ultimately have "constraints_ok (d\<lparr>db_errors := db_errors d @ ?new\<rparr>)"
    using assms(1) unfolding constraints_ok_def reports_ok_def stocks_ok_def staging_ok_def errors_ok_def
    by (simp add: list_all_iff del: map_map) blast
  then show ?thesis by (simp add: insert_errors_def)
qed

subsection \<open>The batch writer\<close>

text \<open>What the writer relies on, and keeps, whatever is in its batches.\<close>

definition writable :: "int \<Rightarrow> 'x world_scheme \<Rightarrow> bool" where
  "writable rid w \<longleftrightarrow> world_ok w \<and> rid \<in> set (map rp_id (db_reports (w_db w)))"

definition writer_ok :: "int \<Rightarrow> 'x writer_world_scheme \<Rightarrow> bool" where
  "writer_ok rid w \<longleftrightarrow> calm w \<and> writable rid w
     \<and> distinct (map sg_line_number (rows_in rid w))
     \<and> (\<forall>row \<in> set (vb_staging_batch w). staging_row_ok (staging_values rid row))
     \<and> (\<forall>issue \<in> set (vb_error_batch w). issue_storable issue)"

lemma writable_moves:
  assumes "keeps m" and "moves (on_tables same_reports) m" and "m w = (r, w')" and "writable rid w"
  shows "writable rid w'"
  using keepsD [OF assms(1) _ assms(3)] movesD [OF assms(2,3)] assms(4)
  by (simp add: writable_def on_tables_def same_reports_def)

lemma aloof_alive: "aloof ensure_lock_connection_alive"
  by (rule aloof_lock_check)

lemma writable_flush:
  assumes "writable rid w"
  shows "flush_staging rid ensure_lock_connection_alive w = (r, w') \<Longrightarrow> writable rid w'"
    and "flush_errors rid ensure_lock_connection_alive w = (r, w') \<Longrightarrow> writable rid w'"
  using writable_moves [OF kept.moves_flush(1) unreported.moves_flush(1) _ assms]
    writable_moves [OF kept.moves_flush(2) unreported.moves_flush(2) _ assms] by blast+

lemma returns_flush_staging:
  assumes "writer_ok rid w"
  shows "returns (flush_staging rid ensure_lock_connection_alive) w"
proof (cases "vb_staging_batch w = []")
  case True
  with assms show ?thesis by (simp add: returns_def flush_staging_def writer_ok_def)
next
  case False
  let ?w = "w\<lparr>vb_staging_batch := []\<rparr>"
  have "returns (write_batch ensure_lock_connection_alive (insert_staging rid (vb_staging_batch w))) ?w"
  proof (rule returns_write_batch)
    fix now
    have "constraints_ok ((w_db w)\<lparr>db_staging := db_staging (w_db w) @ map (staging_values rid) (vb_staging_batch w)\<rparr>)"
      using assms by (intro insert_staging_constraints) (auto simp: writer_ok_def writable_def world_ok_def rows_in_def)
    then show "\<exists>d' sq'. insert_staging rid (vb_staging_batch w) now (w_db ?w) (w_seq ?w) = Some (d', sq') \<and> constraints_ok d'"
      by (simp add: insert_staging_def)
  qed (use assms in \<open>simp add: writer_ok_def\<close>)
  with False show ?thesis by (simp add: returns_def flush_staging_def)
qed

lemma returns_flush_errors:
  assumes "writer_ok rid w"
  shows "returns (flush_errors rid ensure_lock_connection_alive) w"
proof (cases "vb_error_batch w = []")
  case True
  with assms show ?thesis by (simp add: returns_def flush_errors_def writer_ok_def)
next
  case False
  let ?w = "w\<lparr>vb_error_batch := []\<rparr>"
  have "returns (write_batch ensure_lock_connection_alive (insert_errors rid (vb_error_batch w))) ?w"
    by (intro returns_write_batch insert_errors_constraints)
      (use assms in \<open>auto simp: writer_ok_def writable_def world_ok_def\<close>)
  with False show ?thesis by (simp add: returns_def flush_errors_def)
qed

lemma writer_ok_flush:
  assumes "writer_ok rid w"
  shows "flush_staging rid ensure_lock_connection_alive w = (Inr u, w') \<Longrightarrow> writer_ok rid w'"
    and "flush_errors rid ensure_lock_connection_alive w = (Inr u, w') \<Longrightarrow> writer_ok rid w'"
proof -
  assume run: "flush_staging rid ensure_lock_connection_alive w = (Inr u, w')"
  with flush_staging_Inr [OF aloof_alive run] returnsD [OF returns_flush_staging [OF assms] run]
    writable_flush(1) [of rid w "Inr u" w'] assms show "writer_ok rid w'" by (simp add: writer_ok_def)
next
  assume run: "flush_errors rid ensure_lock_connection_alive w = (Inr u, w')"
  with flush_errors_Inr [OF aloof_alive run] returnsD [OF returns_flush_errors [OF assms] run]
    writable_flush(2) [of rid w "Inr u" w'] assms show "writer_ok rid w'" by (simp add: writer_ok_def)
qed

text \<open>An action that returns and keeps the writer as it should be.\<close>

definition safe :: "int \<Rightarrow> ('x, 'a) wproc \<Rightarrow> 'x writer_world_scheme \<Rightarrow> bool" where
  "safe rid m w \<longleftrightarrow> returns m w \<and> (\<forall>a w'. m w = (Inr a, w') \<longrightarrow> writer_ok rid w')"

lemma safeE:
  assumes "safe rid m w"
  obtains a w' where "m w = (Inr a, w')" "writer_ok rid w'" "calm w" "w_env w' = w_env w"
  using assms by (auto simp: safe_def returns_def)

lemma safe_flush:
  "writer_ok rid w \<Longrightarrow> safe rid (flush_staging rid ensure_lock_connection_alive) w"
  "writer_ok rid w \<Longrightarrow> safe rid (flush_errors rid ensure_lock_connection_alive) w"
  by (auto simp: safe_def returns_flush_staging returns_flush_errors intro: writer_ok_flush)

lemma safe_then:
  assumes "safe rid m w" and "\<And>a w'. m w = (Inr a, w') \<Longrightarrow> writer_ok rid w' \<Longrightarrow> safe rid n w'"
  shows "safe rid (then_act m n) w"
  unfolding safe_def
proof (intro conjI allI impI)
  show "returns (then_act m n) w" using assms by (intro returns_then) (auto simp: safe_def)
  fix a w'
  assume "then_act m n w = (Inr a, w')"
  then obtain b w1 where "m w = (Inr b, w1)" "n w1 = (Inr a, w')" by (auto simp: then_act_Inr_iff)
  with assms show "writer_ok rid w'" unfolding safe_def by blast
qed

lemma safe_aloof:
  assumes "aloof m" and "returns m w" and "writer_ok rid w"
  shows "safe rid m w"
  unfolding safe_def
proof (intro conjI allI impI assms(2))
  fix a w'
  assume run: "m w = (Inr a, w')"
  note same = aloof_Inr [OF assms(1) run] returnsD [OF assms(2) run]
  show "writer_ok rid w'" using assms(3) same by (simp add: writer_ok_def writable_def world_ok_def rows_in_def)
qed

lemma safe_add_valid_row:
  assumes "writer_ok rid w" and "v_line_number row \<notin> set (map sg_line_number (rows_in rid w))"
    and "staging_row_ok (staging_values rid row)"
  shows "safe rid (add_valid_row rid n ensure_lock_connection_alive row) w"
proof -
  let ?w = "w\<lparr>vb_staging_batch := vb_staging_batch w @ [row]\<rparr>"
  have "sg_line_number (staging_values rid row) = v_line_number row" by (simp add: staging_values_def)
  then have ok: "writer_ok rid ?w" using assms by (auto simp: writer_ok_def writable_def world_ok_def rows_in_def)
  from safe_flush(1) [OF this] show ?thesis
    using ok by (simp add: safe_def returns_def add_valid_row_def Let_def writer_ok_def)
qed

lemma safe_add_issue:
  assumes "writer_ok rid w" and "issue_storable issue"
  shows "safe rid (add_issue rid n ensure_lock_connection_alive issue) w"
proof -
  let ?w = "w\<lparr>vb_error_batch := vb_error_batch w @ [issue]\<rparr>"
  have ok: "writer_ok rid ?w" using assms by (auto simp: writer_ok_def writable_def world_ok_def rows_in_def)
  from safe_flush(2) [OF this] show ?thesis
    using ok by (simp add: safe_def returns_def add_issue_def Let_def writer_ok_def)
qed

lemma safe_ret: "writer_ok rid w \<Longrightarrow> safe rid (ret a) w"
  by (simp add: safe_def returns_def act_simps writer_ok_def)

lemma safe_add_issues:
  assumes "writer_ok rid w" and "\<forall>issue \<in> set issues. issue_storable issue"
  shows "safe rid (add_issues rid n ensure_lock_connection_alive issues) w"
  unfolding add_issues_def using assms
proof (induction issues arbitrary: w)
  case (Cons i issues)
  then show ?case by (auto intro!: safe_then safe_add_issue)
qed (simp add: safe_ret)

subsection \<open>The stream\<close>

text \<open>A storage whose body can be read and closed without failures.\<close>

definition steady_storage :: "'x object_storage \<Rightarrow> bool" where
  "steady_storage st \<longleftrightarrow> aloof_storage st
     \<and> (\<forall>w. calm w \<longrightarrow> returns (st_next_chunk st) w \<and> returns (st_close st) w)"

lemma safe_alive: "writer_ok rid w \<Longrightarrow> safe rid ensure_lock_connection_alive w"
  by (rule safe_aloof) (simp_all add: aloof_alive writer_ok_def)

lemma safe_read_chunks:
  assumes "steady_storage st" and "writer_ok rid w"
  shows "safe rid (read_chunks st ensure_lock_connection_alive) w"
proof -
  have fetch: "safe rid (st_next_chunk st) w" if "writer_ok rid w" for w
    using assms(1) that by (intro safe_aloof) (auto simp: steady_storage_def aloof_storage_def writer_ok_def)
  have "safe rid (each_act (\<lambda>_. then_act ensure_lock_connection_alive (st_next_chunk st)) xs) w" if "writer_ok rid w"
    for xs :: "nat list" and w
    using that by (induction xs arbitrary: w) (auto intro!: safe_then safe_alive fetch safe_ret)
  from this [OF assms(2)] show ?thesis by (simp add: safe_def returns_def read_chunks_def)
qed

lemma safe_dispatch:
  assumes "steady_storage st" and "writer_ok rid w"
    and "\<forall>row \<in> set (item_rows i). staging_row_ok (staging_values rid row)
      \<and> v_line_number row \<notin> set (map sg_line_number (rows_in rid w))"
    and "\<forall>issue \<in> set (item_issues i). issue_storable issue"
  shows "safe rid (dispatch (writer_callbacks st rid n ensure_lock_connection_alive) i) w"
  using assms by (cases i) (simp_all add: writer_callbacks_def safe_read_chunks safe_add_valid_row safe_add_issues)

lemma safe_items:
  assumes "steady_storage st" and "writer_ok rid w"
    and "distinct (map sg_line_number (rows_in rid w) @ map v_line_number (delivered items))"
    and "\<forall>row \<in> set (delivered items). staging_row_ok (staging_values rid row)"
    and "\<forall>issue \<in> set (reported_issues items). issue_storable issue"
  shows "safe rid (each_act (dispatch (writer_callbacks st rid n ensure_lock_connection_alive)) items) w"
  using assms(2-)
proof (induction items arbitrary: w)
  case (Cons i items)
  let ?d = "dispatch (writer_callbacks st rid n ensure_lock_connection_alive)"
  have split: "delivered (i # items) = item_rows i @ delivered items" "reported_issues (i # items) = item_issues i @ reported_issues items"
    by (simp_all add: delivered_def reported_issues_def)
  have st: "aloof_storage st" using assms(1) by (simp add: steady_storage_def)
  have "safe rid (?d i) w"
    using Cons.prems by (intro safe_dispatch [OF assms(1)]) (auto simp: split)
  moreover have "safe rid (each_act ?d items) w1" if run: "?d i w = (Inr a, w1)" and ok: "writer_ok rid w1" for a w1
  proof (rule Cons.IH [OF ok])
    have "rows_in rid w1 = rows_in rid w @ map (staging_values rid) (item_rows i)"
      using writesD [OF writes_dispatch [OF aloof_alive st] run] by simp
    then have "map sg_line_number (rows_in rid w1) = map sg_line_number (rows_in rid w) @ map v_line_number (item_rows i)"
      by (simp add: staging_values_def)
    then show "distinct (map sg_line_number (rows_in rid w1) @ map v_line_number (delivered items))"
      using Cons.prems(2) by (simp only: split map_append append_assoc)
  qed (use Cons.prems in \<open>simp_all add: split\<close>)
  ultimately show ?case by (simp add: safe_then)
qed (simp add: safe_ret)

text \<open>What is asked of the outcome of a file for the tables to take it.\<close>

definition outcome_fits :: "int \<Rightarrow> csv_item list \<Rightarrow> bool" where
  "outcome_fits rid items \<longleftrightarrow> distinct (map v_line_number (delivered items))
     \<and> (\<forall>row \<in> set (delivered items). staging_row_ok (staging_values rid row))
     \<and> (\<forall>issue \<in> set (reported_issues items). issue_storable issue)"

lemma outcome_fits_shown: "outcome_fits rid (shown items) = outcome_fits rid items"
  by (simp add: outcome_fits_def delivered_shown)

lemma safe_stream:
  assumes st: "steady_storage st" and ok: "writer_ok rid w" and fresh: "rows_in rid w = []"
    and lim: "check_limits lim = Inr ()" and out: "csv_outcome lim (stream_text chunks) = (items, Inr s)"
    and fits: "outcome_fits rid items"
  shows "safe rid (validate_csv_stream (writer_callbacks st rid n ensure_lock_connection_alive) lim chunks) w"
proof -
  let ?cb = "writer_callbacks st rid n ensure_lock_connection_alive"
  obtain r all where tr: "csv_trace lim (text_pieces (nat TEXT_READ_CHARS) (stream_text chunks)) = (r, all)" by fastforce
  have shown: "shown all = items" "r = Inr s"
    using csv_trace_outcome [OF lim stream_pieces(1) tr] out by (simp_all add: stream_pieces(2))
  have "outcome_fits rid all" using fits outcome_fits_shown [of rid all] shown(1) by simp
  then have body: "safe rid (each_act (dispatch ?cb) all) w"
    using fresh by (intro safe_items [OF st ok]) (auto simp: outcome_fits_def)
  have eq: "validate_csv_stream ?cb lim chunks = finally_act (then_act (each_act (dispatch ?cb) all) (ret s)) (st_close st)"
    using validate_stream_trace [OF lim, of ?cb chunks] tr shown(2) by (simp add: writer_callbacks_def lift_res_def ret_def)
  from body obtain u w1 where 1: "each_act (dispatch ?cb) all w = (Inr u, w1)" "writer_ok rid w1" "w_env w1 = w_env w" "calm w"
    by (elim safeE)
  have "safe rid (st_close st) w1"
    using st 1(2) by (intro safe_aloof) (auto simp: steady_storage_def aloof_storage_def writer_ok_def)
  then obtain v w2 where 2: "st_close st w1 = (Inr v, w2)" "writer_ok rid w2" "w_env w2 = w_env w1" by (elim safeE)
  have "calm w2" using 2(2) by (simp add: writer_ok_def)
  with 1 2 show ?thesis unfolding eq by (simp add: safe_def returns_def act_simps)
qed

lemma safe_flush_all: "writer_ok rid w \<Longrightarrow> safe rid (flush_all rid ensure_lock_connection_alive) w"
  unfolding flush_all_def by (intro safe_then safe_flush)

subsection \<open>Verdict and claim\<close>

lemma delete_errors_constraints: "constraints_ok d \<Longrightarrow> delete_errors rid now d sq = Some (d', sq') \<Longrightarrow> constraints_ok d'"
  unfolding delete_errors_def constraints_ok_def reports_ok_def stocks_ok_def staging_ok_def errors_ok_def
  by clarsimp (simp add: list_all_iff distinct_map_filter)

lemma small_bigint: "bigint 0" "bigint 1"
  by (simp_all add: bigint_def POSTGRES_BIGINT_MAX_def)

lemma verdict_texts:
  "storable (lit ''validation'')" "len (lit ''validation'') \<le> 20" "storable (lit ''Report contains validation errors'')"
  by code_simp+

lemma report_ok_changes:
  "report_ok r \<Longrightarrow> 0 \<le> n \<Longrightarrow> bigint n \<Longrightarrow> report_ok (validated n now r)"
  "report_ok r \<Longrightarrow> 0 \<le> n \<Longrightarrow> bigint n \<Longrightarrow> 0 \<le> m \<Longrightarrow> bigint m \<Longrightarrow> report_ok (validation_failed n m now r)"
  "report_ok r \<Longrightarrow> report_ok (claimed now r)"
  using verdict_texts small_bigint
  by (simp_all add: report_ok_def validated_def validation_failed_def claimed_def storable_opt_def)

lemma returns_update:
  assumes "calm w" and "constraints_ok (w_db w)"
    and "\<And>now r. rp_id (change now r) = rp_id r \<and> object_ref (change now r) = object_ref r"
    and "\<And>now r. report_ok r \<Longrightarrow> report_ok (change now r)"
  shows "returns (execute (update_reports cond change)) w"
proof -
  obtain d' sq' where u: "update_reports cond change (w_now w) (w_db w) (w_seq w) = Some (d', sq')"
    by (simp add: update_reports_def)
  have "constraints_ok d'"
    by (rule update_reports_constraints [OF assms(2) u])
      (use assms(2-4) in \<open>auto simp: constraints_ok_def reports_ok_def list_all_iff\<close>)
  then show ?thesis using assms(1) u by (intro returns_execute)
qed

lemma returns_delete:
  assumes "calm w" and "constraints_ok (w_db w)"
  shows "returns (execute (delete_staging rid)) w" "returns (execute (delete_errors rid)) w"
proof -
  obtain d sq where "delete_staging rid (w_now w) (w_db w) (w_seq w) = Some (d, sq)" by (simp add: delete_staging_def)
  from returns_execute [where f = "delete_staging rid", OF assms(1) this delete_staging_constraints [OF assms(2) this]]
  show "returns (execute (delete_staging rid)) w" .
  obtain d sq where "delete_errors rid (w_now w) (w_db w) (w_seq w) = Some (d, sq)" by (simp add: delete_errors_def)
  from returns_execute [where f = "delete_errors rid", OF assms(1) this delete_errors_constraints [OF assms(2) this]]
  show "returns (execute (delete_errors rid)) w" .
qed

lemma execute_constraints: "execute f w = (Inr u, w') \<Longrightarrow> constraints_ok (w_db w')"
  using execute_Inr [of f w u w'] by blast

lemma changes_keep:
  "rp_id (validated n now r) = rp_id r \<and> object_ref (validated n now r) = object_ref r"
  "rp_id (validation_failed n m now r) = rp_id r \<and> object_ref (validation_failed n m now r) = object_ref r"
  "rp_id (claimed now r) = rp_id r \<and> object_ref (claimed now r) = object_ref r"
  by (simp_all add: validated_def validation_failed_def claimed_def object_ref_def)

lemma returns_conclude:
  assumes calm: "calm w" and ok: "constraints_ok (w_db w)"
    and n: "0 \<le> s_row_count s" "bigint (s_row_count s)" and m: "bigint (len (errors_of (w_db w) rid))"
    and clean: "errors_of (w_db w) rid = [] \<Longrightarrow> s_reached_eof s \<and> s_row_count s \<noteq> 0"
  shows "returns (conclude_validation rid ensure_lock_connection_alive s) w"
  unfolding conclude_validation_def
proof (rule returns_bind)
  show "returns (count_errors rid) w"
    unfolding count_errors_def using calm by (intro returns_transaction) simp
  fix k w1
  assume "count_errors rid w = (Inr k, w1)" and calm1: "calm w1"
  then have k: "k = len (errors_of (w_db w) rid)" and d1: "w_db w1 = w_db w"
    using count_errors_Inr [of rid w k w1] by (simp_all add: stored_error_count_def)
  have fin: "returns (finalize_validation_failure rid (s_row_count s) k) w2" if "ensure_lock_connection_alive w1 = (Inr a, w2)" "calm w2" for a w2
  proof -
    have d2: "w_db w2 = w_db w" using lock_check_db [OF that(1)] d1 by simp
    show ?thesis
      unfolding finalize_validation_failure_def
    proof (rule returns_transaction, rule returns_then)
      let ?w = "w2\<lparr>w_now := env_time (w_env w2) (w_tick w2)\<rparr>"
      show "returns (execute (delete_staging rid)) ?w" using that(2) ok d2 by (intro returns_delete) simp_all
      fix u w3
      assume "execute (delete_staging rid) ?w = (Inr u, w3)" and "calm w3"
      then show "returns (execute (update_reports (of_processing rid) (validation_failed (s_row_count s) k))) w3"
        using execute_constraints report_ok_changes(2) [OF _ n] m k changes_keep(2) by (intro returns_update) auto
    qed
  qed
  have val: "returns (transaction (execute (update_reports (of_processing rid) (validated (s_row_count s))))) w2"
    if "ensure_lock_connection_alive w1 = (Inr a, w2)" "calm w2" for a w2
    using lock_check_db [OF that(1)] d1 ok that(2) report_ok_changes(1) [OF _ n] changes_keep(1)
    by (intro returns_transaction returns_update) auto
  show "returns (if k \<noteq> 0 then then_act ensure_lock_connection_alive (then_act (finalize_validation_failure rid (s_row_count s) k) (ret VALIDATION_FAILED))
       else if \<not> s_reached_eof s \<or> s_row_count s = 0 then throw RuntimeErr
       else then_act ensure_lock_connection_alive
         (then_act (transaction (execute (update_reports (of_processing rid) (validated (s_row_count s))))) (ret VALIDATED))) w1"
    using clean calm1 k by (auto intro!: returns_then fin [unfolded k] val)
qed

lemma returns_claim:
  assumes "calm w" and "constraints_ok (w_db w)"
  shows "returns claim_or_recover_next_report w"
  unfolding claim_or_recover_next_report_def claim_body_def
proof (intro returns_transaction returns_bind)
  let ?w = "w\<lparr>w_now := env_time (w_env w) (w_tick w)\<rparr>"
  show "returns (query next_report) ?w" using assms(1) by simp
  fix report w1
  assume "query next_report ?w = (Inr report, w1)" and calm1: "calm w1"
  then have ok1: "constraints_ok (w_db w1)" using assms(2) by (auto dest: query_db)
  have complete: "returns (validation_is_complete r) w1" for r
    unfolding validation_is_complete_def using calm1 by (auto intro!: returns_bind)
  have same: "constraints_ok (w_db w2)" if "validation_is_complete r w1 = (Inr b, w2)" for r b w2
    using that ok1 by (auto simp: validation_is_complete_def act_iffs ret_def dest!: query_db split: if_splits)
  have reset: "returns (then_act (execute (delete_staging rid)) (then_act (execute (delete_errors rid))
      (then_act (execute (update_reports cond claimed)) (ret x)))) w2"
    if "calm w2" "constraints_ok (w_db w2)" for rid cond w2 and x :: "report_source option \<times> bool"
    using that report_ok_changes(3) changes_keep(3)
    by (auto intro!: returns_then returns_delete returns_update dest: execute_constraints)
  show "returns (case report of None \<Rightarrow> ret (None, False)
       | Some report \<Rightarrow>
           bind_act (if rp_status report = Processing then validation_is_complete report else ret False) (\<lambda>complete.
             if complete then ret (Some (report_source_of report), True)
             else
               then_act (execute (delete_staging (rp_id report)))
               (then_act (execute (delete_errors (rp_id report)))
               (then_act (execute (update_reports (\<lambda>r. rp_id r = rp_id report) claimed))
                 (ret (Some (report_source_of report), False)))))) w1"
    using calm1 ok1
    by (auto split: option.split intro!: returns_bind complete reset intro: same simp: act_simps)
qed

end
