(* ===== verification/CalmRun.thy ===== *)
theory CalmRun
  imports CalmCycle System
begin

text \<open>
  The two cycles that import a file, once nothing fails any more: the validating one returns
  when the tables can take the outcome of the file, the applying one when the balances fit their counters.
\<close>

subsection \<open>Duplicates\<close>

lemma storable_take: "storable t \<Longrightarrow> storable (take k t)"
  by (auto simp: storable_def list_all_iff dest: in_set_takeD)

lemma duplicate_texts:
  "storable (lit ''warehouse_code+sku'')" "storable (lit ''duplicate_warehouse_sku'')"
  "storable (lit ''The warehouse_code and sku pair is duplicated in this report'')"
  "storable WAREHOUSE_CODE" "storable WAREHOUSE_NAME" "storable SKU" "storable PRODUCT_NAME" "storable QUANTITY"
  "storable TRUNCATED_KEY"
  by code_simp+

lemma duplicate_issue_storable: "staging_row_ok s \<Longrightarrow> issue_storable (duplicate_issue n s)"
  by (simp add: issue_storable_def error_ok_def error_row_def duplicate_issue_def storable_opt_def raw_data_ok_def
      staging_row_ok_def duplicate_texts storable_take)

lemma returns_insert_duplicates:
  assumes "calm w" and "writable rid w"
  shows "returns (transaction (execute (insert_duplicate_errors rid n))) w"
proof (rule returns_write [OF assms(1)])
  fix now
  have "list_all staging_row_ok (db_staging (w_db w))"
    using assms(2) by (auto simp: writable_def world_ok_def constraints_ok_def staging_ok_def list_all_iff)
  then have "\<forall>issue \<in> set (map (duplicate_issue n) (duplicate_rows (w_db w) rid)). issue_storable issue"
    by (auto simp: duplicate_rows_def staged_def list_all_iff intro: duplicate_issue_storable)
  with insert_errors_constraints [of "w_db w" "w_seq w" rid] assms(2)
  show "\<exists>d' sq'. insert_duplicate_errors rid n now (w_db w) (w_seq w) = Some (d', sq') \<and> constraints_ok d'"
    by (simp add: insert_duplicate_errors_def writable_def world_ok_def)
qed

subsection \<open>Validation\<close>

text \<open>What is asked of a file: its outcome fits the tables, and the counts of rows and issues their columns.\<close>

definition file_fits :: "csv_limits \<Rightarrow> int \<Rightarrow> bytes list \<Rightarrow> bool" where
  "file_fits lim rid chunks \<longleftrightarrow> (\<exists>items s. csv_outcome lim (stream_text chunks) = (items, Inr s)
     \<and> outcome_fits rid items \<and> 0 \<le> s_row_count s \<and> bigint (s_row_count s) \<and> bigint (len (run_issues lim rid items))
     \<and> (run_issues lim rid items = [] \<longrightarrow> s_reached_eof s \<and> s_row_count s \<noteq> 0))"

lemma returns_conclude_file:
  assumes ok: "writer_ok rid w" and s: "0 \<le> s_row_count s" "bigint (s_row_count s)"
    and rows: "staged (w_db w) rid = run_rows rid items" "map issue_of (errors_of (w_db w) rid) = reported_issues items"
    and n: "bigint (len (run_issues lim rid items))"
    and clean: "run_issues lim rid items = [] \<Longrightarrow> s_reached_eof s \<and> s_row_count s \<noteq> 0"
  shows "returns (then_act (transaction (execute (insert_duplicate_errors rid (duplicate_raw_value_chars lim))))
     (then_act ensure_lock_connection_alive (conclude_validation rid ensure_lock_connection_alive s))) w"
proof (rule returns_then)
  show "returns (transaction (execute (insert_duplicate_errors rid (duplicate_raw_value_chars lim)))) w"
    using ok by (intro returns_insert_duplicates) (simp_all add: writer_ok_def)
  fix u w1
  assume run: "transaction (execute (insert_duplicate_errors rid (duplicate_raw_value_chars lim))) w = (Inr u, w1)"
    and calm: "calm w1"
  from transaction_execute_Inr [OF run] obtain now sq sq' where
    ins: "insert_errors rid (map (duplicate_issue (duplicate_raw_value_chars lim)) (duplicate_rows (w_db w) rid)) now (w_db w) sq
      = Some (w_db w1, sq')" and ok1: "constraints_ok (w_db w1)"
    unfolding insert_duplicate_errors_def by blast
  have "duplicate_rows (w_db w) rid = duplicates_in (run_rows rid items)"
    by (simp add: duplicate_rows_def duplicates_in_def rows(1))
  with insert_errors_of [OF ins] rows have issues: "map issue_of (errors_of (w_db w1) rid) = run_issues lim rid items"
    by (simp add: run_issues_def)
  have e: "errors_of (w_db w1) rid = [] \<longleftrightarrow> run_issues lim rid items = []"
    "length (errors_of (w_db w1) rid) = length (run_issues lim rid items)"
    unfolding issues [symmetric] by simp_all
  show "returns (then_act ensure_lock_connection_alive (conclude_validation rid ensure_lock_connection_alive s)) w1"
  proof (rule returns_then)
    show "returns ensure_lock_connection_alive w1" using calm by simp
    fix v w2
    assume "ensure_lock_connection_alive w1 = (Inr v, w2)" and "calm w2"
    moreover from this(1) have "w_db w2 = w_db w1" using lock_check_db [of w1] by simp
    ultimately show "returns (conclude_validation rid ensure_lock_connection_alive s) w2"
      using ok1 s n clean e by (intro returns_conclude) simp_all
  qed
qed

lemma returns_validate_chunks:
  assumes st: "steady_storage st" and calm: "calm w" and ok: "writable rid w"
    and fresh: "staged (w_db w) rid = []" "errors_of (w_db w) rid = []"
    and lim: "check_limits lim = Inr ()" and fits_in: "file_fits lim rid chunks"
  shows "returns (validate_chunks st lim n rid ensure_lock_connection_alive chunks) w"
  unfolding validate_chunks_def
proof (rule returns_then)
  obtain items s where out: "csv_outcome lim (stream_text chunks) = (items, Inr s)" and fits: "outcome_fits rid items"
    and s: "0 \<le> s_row_count s" "bigint (s_row_count s)" "bigint (len (run_issues lim rid items))"
      "run_issues lim rid items = [] \<Longrightarrow> s_reached_eof s \<and> s_row_count s \<noteq> 0"
    using fits_in unfolding file_fits_def by blast
  have al: "aloof_storage st" using st by (simp add: steady_storage_def)
  show "returns new_writer w" by (simp add: returns_def new_writer_def calm)
  fix u w1
  assume "new_writer w = (Inr u, w1)"
  then have "w1 = w\<lparr>vb_staging_batch := [], vb_error_batch := []\<rparr>" by (simp add: new_writer_def)
  then have ok1: "writer_ok rid w1" "rows_in rid w1 = []" "issues_in rid w1 = []"
    using calm ok fresh by (simp_all add: writer_ok_def writable_def world_ok_def rows_in_def issues_in_def)
  let ?stream = "validate_csv_stream (writer_callbacks st rid n ensure_lock_connection_alive) lim chunks"
  note stream = safe_stream [OF st ok1(1,2) lim out fits, of n]
  show "returns (bind_act ?stream (\<lambda>result. then_act (flush_all rid ensure_lock_connection_alive)
      (then_act ensure_lock_connection_alive
        (then_act (transaction (execute (insert_duplicate_errors rid (duplicate_raw_value_chars lim))))
          (then_act ensure_lock_connection_alive (conclude_validation rid ensure_lock_connection_alive result)))))) w1"
  proof (rule returns_bind)
    show "returns ?stream w1" using stream by (simp add: safe_def)
    fix s' w2
    assume run: "?stream w1 = (Inr s', w2)"
    with stream have ok2: "writer_ok rid w2" unfolding safe_def by blast
    from validate_stream_Inr [OF aloof_alive al run] out ok1 have s': "s' = s"
      and w2: "rows_in rid w2 = run_rows rid items" "issues_in rid w2 = reported_issues items"
      by (auto simp: run_rows_def)
    show "returns (then_act (flush_all rid ensure_lock_connection_alive)
      (then_act ensure_lock_connection_alive
        (then_act (transaction (execute (insert_duplicate_errors rid (duplicate_raw_value_chars lim))))
          (then_act ensure_lock_connection_alive (conclude_validation rid ensure_lock_connection_alive s'))))) w2"
    proof (rule returns_then)
      show "returns (flush_all rid ensure_lock_connection_alive) w2" using safe_flush_all [OF ok2] by (simp add: safe_def)
      fix v w3
      assume fl: "flush_all rid ensure_lock_connection_alive w2 = (Inr v, w3)"
      have ok3: "writer_ok rid w3" using safe_flush_all [OF ok2] fl unfolding safe_def by blast
      have w3: "staged (w_db w3) rid = run_rows rid items" "map issue_of (errors_of (w_db w3) rid) = reported_issues items"
        using flush_all_Inr [OF aloof_alive fl] w2 by simp_all
      show "returns (then_act ensure_lock_connection_alive
        (then_act (transaction (execute (insert_duplicate_errors rid (duplicate_raw_value_chars lim))))
          (then_act ensure_lock_connection_alive (conclude_validation rid ensure_lock_connection_alive s')))) w3"
      proof (rule returns_then)
        show "returns ensure_lock_connection_alive w3" using ok3 by (simp add: writer_ok_def)
        fix x w4
        assume run4: "ensure_lock_connection_alive w3 = (Inr x, w4)"
        have "writer_ok rid w4" using safe_alive [OF ok3] run4 unfolding safe_def by blast
        then show "returns (then_act (transaction (execute (insert_duplicate_errors rid (duplicate_raw_value_chars lim))))
          (then_act ensure_lock_connection_alive (conclude_validation rid ensure_lock_connection_alive s'))) w4"
          unfolding s' by (rule returns_conclude_file) (use s w3 lock_check_db [OF run4] in simp_all)
      qed
    qed
  qed
qed

lemma returns_validate_report:
  assumes st: "steady_storage st" and calm: "calm w" and ok: "writable (rs_id src) w"
    and fresh: "staged (w_db w) (rs_id src) = []" "errors_of (w_db w) (rs_id src) = []"
    and lim: "check_limits lim = Inr ()"
    and dl: "returns (st_download_stream st (rs_object_bucket src) (rs_object_key src)) (tick w)"
    and fits: "\<And>chunks w1. st_download_stream st (rs_object_bucket src) (rs_object_key src) (tick w) = (Inr chunks, w1)
      \<Longrightarrow> file_fits lim (rs_id src) chunks"
  shows "returns (validate_report st lim n src ensure_lock_connection_alive) w"
  unfolding validate_report_def
proof (rule returns_then)
  show "returns ensure_lock_connection_alive w" using calm by simp
  fix u w1
  assume "ensure_lock_connection_alive w = (Inr u, w1)"
  then have w1: "w1 = tick w" by (rule lock_check_db)
  show "returns (bind_act (st_download_stream st (rs_object_bucket src) (rs_object_key src))
      (validate_chunks st lim n (rs_id src) ensure_lock_connection_alive)) w1"
    unfolding w1
  proof (rule returns_bind [OF dl])
    fix chunks w2
    assume run: "st_download_stream st (rs_object_bucket src) (rs_object_key src) (tick w) = (Inr chunks, w2)"
      and calm2: "calm w2"
    have "aloof (st_download_stream st (rs_object_bucket src) (rs_object_key src))"
      using st by (simp add: steady_storage_def aloof_storage_def)
    note same = aloof_Inr [OF this run]
    show "returns (validate_chunks st lim n (rs_id src) ensure_lock_connection_alive chunks) w2"
      by (rule returns_validate_chunks [OF st calm2 _ _ _ lim fits [OF run]])
        (use ok fresh same in \<open>simp_all add: writable_def world_ok_def\<close>)
  qed
qed

subsection \<open>Cycles\<close>

lemma calm_cycle:
  assumes "calm w" and "calm w2"
    and "process_report st lim n hook ensure_lock_connection_alive (tick (tick w)) = (Inr out, w2)"
  shows "process_next_report (\<lambda>_. True) st lim n hook w = (Inr out, tick w2)"
  using assms calm_now [OF assms(1)] calm_now [OF calm_tick [OF assms(1)]] calm_now [OF assms(2)]
  by (simp add: process_next_report_def connect_def try_advisory_lock_def release_lock_def query_def act_simps)

text \<open>A report that is still unfinished after a cycle is still the next one.\<close>

lemma next_report_kept:
  assumes step: "progress d sq d' sq'" and ok: "reports_ok d" "reports_ok d'" and r: "next_report d = Some r"
    and r': "find_report (rp_id r) d' = Some r'" "unfinished r'"
  shows "next_report d' = Some r'"
proof -
  note n = next_report_Some [OF r]
  have in_r': "r' \<in> set (db_reports d')" using r'(1) by (auto simp: find_report_def find_Some_iff)
  with r'(2) obtain q where q: "next_report d' = Some q" using next_report_None [of d'] by fastforce
  note m = next_report_Some [OF q]
  obtain q0 where q0: "q0 \<in> set (db_reports d)" "report_step q0 q" using progress_report [OF step] m by blast
  have "unfinished q0"
  proof (rule ccontr)
    assume "\<not> unfinished q0"
    then have "rp_status q0 = Completed \<or> rp_status q0 = Failed" by (cases "rp_status q0") (simp_all add: unfinished_def)
    with q0(2) have "q = q0" unfolding report_step_def by blast
    with m \<open>\<not> unfinished q0\<close> show False by blast
  qed
  then have "queue_le r q0" using n q0(1) by blast
  moreover have "queue_le q r'" using m in_r' r'(2) by blast
  moreover have "report_step r r'"
    using progress_find [OF step find_report_in [OF ok(1)]] n r'(1) by force
  ultimately have "rp_id q = rp_id r'"
    using q0(2) unfolding report_step_def queue_le_def by (elim conjE) linarith
  with find_report_in [OF ok(2)] m in_r' q show ?thesis by (metis option.inject)
qed

subsection \<open>The service\<close>

text \<open>A client that serves every object there is.\<close>

definition serving :: "'c s3_client \<Rightarrow> ('c \<Rightarrow> pystr \<times> pystr \<Rightarrow> bytes option) \<Rightarrow> bool" where
  "serving client objects \<longleftrightarrow>
     (\<forall>b k c. objects c (b, k) \<noteq> None \<longrightarrow> (\<exists>pieces c'. s3_get_object client b k c = (Inr pieces, c')))
     \<and> (\<forall>c. \<exists>c'. s3_body_read client c = (Inr (), c')) \<and> (\<forall>c. \<exists>c'. s3_body_close client c = (Inr (), c'))"

lemma calm_outside [simp]: "calm (w\<lparr>sv_outside := c\<rparr>) = calm w" "calm (w\<lparr>sv_chunks := g\<rparr>) = calm w"
  by (simp_all add: calm_def)

lemma returns_finish:
  assumes "serving client objects" and "calm w"
  shows "returns (finish_chunks client (ret ())) w"
proof -
  obtain c' where "s3_body_close client (sv_outside w) = (Inr (), c')" using assms(1) unfolding serving_def by blast
  then show ?thesis using assms(2) by (simp add: returns_def finish_chunks_def remote_def act_simps)
qed

lemma returns_fetch:
  assumes "serving client objects" and "calm w"
  shows "returns (fetch_chunk client n) w"
proof -
  obtain c' where read: "s3_body_read client (sv_outside w) = (Inr (), c')" using assms(1) unfolding serving_def by blast
  have "returns (finish_chunks client (ret ())) (w\<lparr>sv_outside := c'\<rparr>)"
    using assms by (intro returns_finish) simp_all
  then show ?thesis using assms(2) read by (simp add: returns_def fetch_chunk_def remote_def)
qed

lemma steady_s3:
  assumes "serving client objects"
  shows "steady_storage (s3_storage client fetches :: ('c, 'x) service_world_ext object_storage)"
  unfolding steady_storage_def
proof (intro conjI allI impI aloof_s3_storage)
  fix w :: "('c, 'x) service_world_scheme"
  assume calm: "calm w"
  show "returns (st_next_chunk (s3_storage client fetches)) w"
    using returns_fetch [OF assms calm] calm
    by (cases "sv_chunks w") (simp_all add: s3_storage_def next_chunk_def returns_def)
  show "returns (st_close (s3_storage client fetches)) w"
    using returns_finish [OF assms calm] calm
    by (cases "sv_chunks w") (simp_all add: s3_storage_def close_chunks_def returns_def)
qed

lemma returns_download:
  assumes "serving client objects" and "calm w" and "objects (sv_outside w) (b, k) \<noteq> None"
  shows "returns (st_download_stream (s3_storage client fetches) b k) w"
proof -
  obtain pieces c' where "s3_get_object client b k (sv_outside w) = (Inr pieces, c')"
    using assms(1,3) unfolding serving_def by blast
  then show ?thesis using assms(2) by (simp add: returns_def s3_storage_def download_stream_def remote_def act_simps Let_def)
qed

text \<open>A file without issues and duplicates, whose rows the tables can hold.\<close>

lemma delivered_rows [simp]: "delivered (map Deliver rows) = rows" "reported_issues (map Deliver rows) = []"
  by (induction rows) (simp_all add: delivered_def reported_issues_def)

lemma no_duplicates_none:
  assumes "no_duplicates rows"
  shows "duplicates_in rows = []"
proof -
  have "\<not> duplicate_rank rows s > 1" if "s \<in> set rows" for s
    unfolding duplicate_rank_one using assms that by (auto simp: no_duplicates_def distinct_map inj_on_def)
  then show ?thesis by (simp add: duplicates_in_def)
qed

lemma good_file:
  assumes out: "csv_outcome lim (stream_text chunks) = (map Deliver rows, Inr s)"
    and ok: "\<forall>row \<in> set rows. staging_row_ok (staging_values rid row)"
    and nd: "no_duplicates (map (staging_values rid) rows)"
  shows "file_fits lim rid chunks" and "run_issues lim rid (map Deliver rows) = []"
    and "s_row_count s = len rows" and "rows \<noteq> []"
proof -
  have no_report: "Report issues \<notin> set (map Deliver rows)" for issues by auto
  obtain rows' where rows': "map Deliver rows = map Deliver rows'" "rows' \<noteq> []" "s = summary (len rows') True"
    "map v_line_number rows' = [2 .. len rows' + 1]"
    using csv_outcome_clean [OF out no_report] by blast
  then have same: "rows' = rows" by (auto dest: map_injective simp: inj_def)
  note r = rows'(2-4) [unfolded same]
  have "distinct (map v_line_number rows)" using r(3) by simp
  moreover have "bigint (len rows)"
  proof -
    have "v_line_number (last rows) = last [2 .. len rows + 1]" using r(1,3) by (metis last_map)
    moreover have "last [2 .. len rows + 1] = len rows + 1"
      using r(1) by (subst upto_rec2) (simp_all add: Suc_le_eq)
    moreover have "bigint (v_line_number (last rows))"
      using ok r(1) by (simp add: staging_row_ok_def staging_values_def)
    ultimately show ?thesis by (simp add: bigint_def POSTGRES_BIGINT_MAX_def)
  qed
  ultimately show "run_issues lim rid (map Deliver rows) = []" "s_row_count s = len rows" "rows \<noteq> []"
    and "file_fits lim rid chunks"
    using out ok r no_duplicates_none [OF nd] small_bigint
    by (auto simp: file_fits_def outcome_fits_def run_issues_def run_rows_def intro!: exI [of _ s])
qed

end
