(* ===== verification/ImportClaims.thy ===== *)
theory ImportClaims
  imports CalmRun ServiceClaims
begin

text \<open>
  The import of a file from end to end: once nothing fails any more, two cycles bring the stock of a good file in,
  whatever has happened before.
\<close>

lemma claim_calm:
  assumes "calm w" and "world_ok w" and "next_report (w_db w) = Some r"
  obtains now w1 where
    "claim_or_recover_next_report w = (Inr (Some (report_source_of r), ready (w_db w) r), w1)"
    "w_db w1 = (if ready (w_db w) r then w_db w else claimed_db now r (w_db w))"
    "calm w1" "world_ok w1"
proof -
  have "returns claim_or_recover_next_report w"
    using assms(1,2) by (intro returns_claim) (simp_all add: world_ok_def)
  then obtain x w1 where cl: "claim_or_recover_next_report w = (Inr x, w1)" "calm w1" by (elim returnsE)
  have x: "x = (Some (report_source_of r), ready (w_db w) r)"
    "w_db w1 = (if ready (w_db w) r then w_db w else claimed_db (env_time (w_env w) (w_tick w)) r (w_db w))"
    using claim_Inr [OF cl(1)] assms(3) by (auto simp: claim_result_def split: if_splits)
  have "world_ok w1"
    using movesD [OF living_claim cl(1)] assms(2) by (simp add: on_tables_def living_def world_ok_def)
  with that cl x show ?thesis by blast
qed

lemma validating_cycle:
  fixes w :: "'c service_world"
  assumes up: "s3_upload client objects uploads read left" and sv: "serving client objects"
    and calm: "calm w" and ok: "world_ok w"
    and r: "next_report (w_db w) = Some r" "\<not> ready (w_db w) r"
    and body: "objects (sv_outside w) (rp_object_bucket r, rp_object_key r) = Some body"
    and lim: "check_limits lim = Inr ()" and fits: "\<And>chunks. concat chunks = body \<Longrightarrow> file_fits lim (rp_id r) chunks"
  shows "\<exists>out w' now items s. process_next_report (\<lambda>_. True) (s3_storage client fetches) lim n None w = (Inr out, w')
    \<and> csv_outcome lim (decode_utf8_sig body) = (items, Inr s)
    \<and> concluded lim (rp_id r) (claimed now r) items s out (w_db w')
    \<and> others_kept (rp_id r) (w_db w) sq (w_db w') sq' \<and> calm w'"
proof -
  let ?st = "s3_storage client fetches" and ?w = "tick (tick w)"
  have "calm ?w" "world_ok ?w" "next_report (w_db ?w) = Some r" using calm ok r(1) by (simp_all add: world_ok_def)
  then obtain now w1 where c: "claim_or_recover_next_report ?w = (Inr (Some (report_source_of r), ready (w_db ?w) r), w1)"
    "w_db w1 = (if ready (w_db ?w) r then w_db ?w else claimed_db now r (w_db ?w))" and ok1: "calm w1" "world_ok w1"
    by (rule claim_calm)
  have cl: "claim_or_recover_next_report ?w = (Inr (Some (report_source_of r), False), w1)"
    and d1: "w_db w1 = claimed_db now r (w_db w)" using c r(2) by simp_all
  have src: "rs_id (report_source_of r) = rp_id r" "rs_object_bucket (report_source_of r) = rp_object_bucket r"
    "rs_object_key (report_source_of r) = rp_object_key r" by (simp_all add: report_source_of_def)
  have "same_outside objects ?w w1" by (rule movesD [OF outside_claim cl])
  then have body1: "objects (sv_outside (tick w1)) (rp_object_bucket r, rp_object_key r) = Some body"
    using body by (simp add: same_outside_def tick_def)
  have "map rp_id (db_reports (w_db w1)) = map rp_id (db_reports (w_db w))"
    by (simp add: d1 claimed_db_def claimed_def)
  then have "writable (rp_id r) w1" using ok1(2) next_report_Some [OF r(1)] by (simp add: writable_def)
  moreover have fresh: "staged (w_db w1) (rp_id r) = []" "errors_of (w_db w1) (rp_id r) = []"
    by (simp_all add: d1 claimed_db_def staged_def errors_of_def)
  moreover have "returns (st_download_stream ?st (rp_object_bucket r) (rp_object_key r)) (tick w1)"
    using ok1(1) body1 by (intro returns_download [OF sv]) simp_all
  moreover have chunks: "concat chunks = body"
    if "st_download_stream ?st (rp_object_bucket r) (rp_object_key r) (tick w1) = (Inr chunks, w2)" for chunks w2
    using s3_store.download_found [OF s3_upload.axioms(1) [OF up], of "rp_object_bucket r" "rp_object_key r" "tick w1" chunks w2]
      that body1 by (simp add: s3_storage_def)
  ultimately have "returns (validate_report ?st lim n (report_source_of r) ensure_lock_connection_alive) w1"
    by (intro returns_validate_report steady_s3 [OF sv] ok1(1) lim) (simp_all add: src fits)
  then obtain out w2 where vr: "validate_report ?st lim n (report_source_of r) ensure_lock_connection_alive w1 = (Inr out, w2)"
    and calm2: "calm w2" by (elim returnsE)
  then have pv: "process_validation ?st lim n ensure_lock_connection_alive (report_source_of r) w1 = (Inr out, w2)"
    by (simp add: process_validation_def act_simps)
  with cl have "process_report ?st lim n None ensure_lock_connection_alive ?w = (Inr out, w2)"
    by (simp add: process_report_def act_simps)
  from calm_cycle [OF calm calm2 this]
  have run: "process_next_report (\<lambda>_. True) ?st lim n None w = (Inr out, tick w2)" .
  have "others_kept (rp_id r) (w_db w1) sq (w_db w2) sq'"
  proof -
    have "moves (on_tables (others_kept (rp_id r))) (process_validation ?st lim n ensure_lock_connection_alive (report_source_of r))"
      by (rule own.moves_process_validation) (simp_all add: src)
    from movesD [OF this pv] show ?thesis by (simp add: on_tables_def others_kept_def)
  qed
  moreover have "others_kept (rp_id r) (w_db w) sq (w_db w1) sq'"
    using claimed_others [of r "w_db w" now] by (simp add: d1 others_rows_def others_kept_def claimed_db_def)
  ultimately have "others_kept (rp_id r) (w_db w) sq (w_db w2) sq'" by (simp add: others_kept_def)
  moreover obtain items s where "csv_outcome lim (decode_utf8_sig body) = (items, Inr s)"
    and "concluded lim (rp_id r) (claimed now r) items s out (w_db w2)"
  proof -
    have "r \<in> set (db_reports (w_db w))" "reports_ok (w_db w)"
      using next_report_Some [OF r(1)] ok by (simp_all add: world_ok_def constraints_ok_def)
    then have f: "find_report (rp_id r) (w_db w1) = Some (claimed now r)" "rp_status (claimed now r) = Processing"
      using find_report_update [of "w_db w1" "rp_id r" "claimed now" "w_db w" "rp_id r"] find_report_in [of "w_db w" r]
      by (simp_all add: d1 claimed_db_def claimed_def)
    from validate_report_Inr [OF aloof_lock_check aloof_s3_storage _ _ _ _ vr, of "claimed now r"] f fresh
    obtain w5 w6 cs items s where "ensure_lock_connection_alive w1 = (Inr (), w5)"
      "st_download_stream ?st (rp_object_bucket r) (rp_object_key r) w5 = (Inr cs, w6)"
      "csv_outcome lim (stream_text cs) = (items, Inr s)" "concluded lim (rp_id r) (claimed now r) items s out (w_db w2)"
      by (auto simp: src)
    with lock_check_db [of w1] chunks [of cs] that show ?thesis by (auto simp: stream_text_decode)
  qed
  ultimately show ?thesis using run calm_tick [OF calm2]
    by (intro exI [of _ out] exI [of _ "tick w2"] exI [of _ now] exI [of _ items] exI [of _ s]) simp
qed

lemma applying_cycle:
  fixes w :: "'c service_world"
  assumes calm: "calm w" and ok: "world_ok w" "ready_ok (w_db w)"
    and r: "next_report (w_db w) = Some r" "ready (w_db w) r" and stocks: "len (db_stocks (w_db w)) \<le> POSTGRES_BIGINT_MAX"
  shows "\<exists>w' now c. process_next_report (\<lambda>_. True) st lim n None w = (Inr COMPLETED, w')
    \<and> applied (rp_id r) now (w_db w) (w_db w') c"
proof -
  let ?w = "tick (tick w)"
  have "calm ?w" "world_ok ?w" "next_report (w_db ?w) = Some r" using calm ok(1) r(1) by (simp_all add: world_ok_def)
  then obtain now w1 where c: "claim_or_recover_next_report ?w = (Inr (Some (report_source_of r), ready (w_db ?w) r), w1)"
    "w_db w1 = (if ready (w_db ?w) r then w_db ?w else claimed_db now r (w_db ?w))" and ok1: "calm w1" "world_ok w1"
    by (rule claim_calm)
  have cl: "claim_or_recover_next_report ?w = (Inr (Some (report_source_of r), True), w1)"
    and d1: "w_db w1 = w_db w" using c r(2) by simp_all
  have nd: "no_duplicates (staged (w_db w1) (rp_id r))" using ready_no_duplicates [OF ok(2) r] by (simp add: d1)
  have f: "find_report (rp_id r) (w_db w1) = Some r"
    using next_report_Some [OF r(1)] ok(1) find_report_in by (auto simp: d1 world_ok_def constraints_ok_def)
  have nr: "\<not> not_ready r (staging_count (rp_id r) (w_db w1))"
    using r(2) by (simp add: d1 ready_def not_ready_def staging_count_def)
  obtain res w2 where ap: "apply_report None (rp_id r) ensure_lock_connection_alive w1 = (Inr res, w2)" and calm2: "calm w2"
    using worker_guards.calm_apply_report [OF calm_at_self [OF ok1(1)] _ world_ok_catalogs [OF ok1(2)] nd f nr] stocks ok1(2)
    by (auto simp: d1 world_ok_def)
  have "process_report st lim n None ensure_lock_connection_alive ?w = (Inr COMPLETED, w2)"
    using cl ap by (simp add: process_report_def process_apply_def act_simps report_source_of_def)
  from calm_cycle [OF calm calm2 this] worker_guards.apply_report_Inr [OF ok1(2) nd ap] show ?thesis by (auto simp: d1)
qed

text \<open>C3: A good file is imported. In any state the service can reach, whatever has failed on the way, when the next
  report is not ready (it was just registered, or an earlier attempt was interrupted), its original is in the
  store and has no issues and no pair twice, the tables can hold its rows, and from now on neither the database
  nor the store fails, then the next cycle validates the report and the one after it completes it: the stock
  becomes the snapshot of the file's rows, and the report is completed with their number.\<close>
theorem import_completes:
  assumes "s3_service client objects uploads read left" and "serving client objects"
    and "w_db w0 = empty_db" and "service_runs client read lim batch_size w0 w" and "calm w"
    and "next_report (w_db w) = Some r" and "\<not> ready (w_db w) r"
    and "objects (sv_outside w) (rp_object_bucket r, rp_object_key r) = Some body"
    and "check_limits lim = Inr ()" and "csv_outcome lim (decode_utf8_sig body) = (map Deliver rows, Inr s)"
    and "no_duplicates (map (staging_values (rp_id r)) rows)"
    and "\<forall>row \<in> set rows. staging_row_ok (staging_values (rp_id r) row)"
    and "len (db_stocks (w_db w)) \<le> POSTGRES_BIGINT_MAX"
  shows "\<exists>w1 w2 r2.
      process_next_report (\<lambda>_. True) (s3_storage client fetches) lim batch_size None w = (Inr VALIDATED, w1)
    \<and> process_next_report (\<lambda>_. True) (s3_storage client fetches) lim batch_size None w1 = (Inr COMPLETED, w2)
    \<and> abs_stock (w_db w2) = snapshot (map (staging_values (rp_id r)) rows) (abs_stock (w_db w))
    \<and> find_report (rp_id r) (w_db w2) = Some r2 \<and> rp_status r2 = Completed \<and> rp_row_count r2 = len rows"
proof -
  have "service_ok objects w"
    using s3_service.runs_advance [OF assms(1,4) service_ok_empty [OF assms(3)]]
    by (simp add: s3_service.advances_def [OF assms(1)])
  then have ok: "world_ok w" "ready_ok (w_db w)" by (simp_all add: service_ok_def)
  have good: "file_fits lim (rp_id r) chunks" "run_issues lim (rp_id r) (map Deliver rows) = []"
    "s_row_count s = len rows" "rows \<noteq> []" if "concat chunks = body" for chunks
    using good_file [of lim chunks rows s "rp_id r"] assms(10,11,12) that by (simp_all add: stream_text_decode)
  obtain out w1 now items s' where
    run: "process_next_report (\<lambda>_. True) (s3_storage client fetches) lim batch_size None w = (Inr out, w1)"
    and out: "csv_outcome lim (decode_utf8_sig body) = (items, Inr s')"
    and conc: "concluded lim (rp_id r) (claimed now r) items s' out (w_db w1)"
    and kept: "others_kept (rp_id r) (w_db w) (w_seq w) (w_db w1) (w_seq w)" and calm1: "calm w1"
    using validating_cycle [where fetches = fetches and n = batch_size and sq = "w_seq w" and sq' = "w_seq w",
        OF s3_service.axioms(1) [OF assms(1)] assms(2,5) ok(1) assms(6,7,8,9) good(1)] by blast
  let ?r = "(claimed now r)\<lparr>rp_row_count := len rows, rp_error_count := 0\<rparr>"
  have "items = map Deliver rows" "s' = s" using out assms(10) by simp_all
  with conc good(2,3) [of "[body]"] have v: "out = VALIDATED" "staged (w_db w1) (rp_id r) = map (staging_values (rp_id r)) rows"
    "errors_of (w_db w1) (rp_id r) = []" "find_report (rp_id r) (w_db w1) = Some ?r"
    by (simp_all add: concluded_def run_rows_def)
  have "on_tables living w w1" by (rule movesD [OF s3_cycle.living_cycle run])
  then have ok1: "world_ok w1" and step: "progress (w_db w) (w_seq w) (w_db w1) (w_seq w1)"
    using ok(1) by (auto simp: on_tables_def living_def world_ok_def)
  have ready1: "ready_ok (w_db w1)"
    by (rule cycle_parts.cycle_ready_ok [OF s3_cycle.cycle_parts_axioms ok run])
  have id: "rp_id ?r = rp_id r" by (simp add: claimed_def)
  have next1: "next_report (w_db w1) = Some ?r"
    by (rule next_report_kept [OF step _ _ assms(6) v(4)])
      (use ok(1) ok1 in \<open>simp_all add: world_ok_def constraints_ok_def unfinished_def claimed_def\<close>)
  have r1: "ready (w_db w1) ?r" using v good(4) [of "[body]"] by (simp add: ready_def id) (simp add: claimed_def)
  have few: "len (db_stocks (w_db w1)) \<le> POSTGRES_BIGINT_MAX" using kept assms(13) by (simp add: others_kept_def)
  from applying_cycle [OF calm1 ok1 ready1 next1 r1 few] obtain w2 now' c where
    run2: "process_next_report (\<lambda>_. True) (s3_storage client fetches) lim batch_size None w1 = (Inr COMPLETED, w2)"
    and a: "applied (rp_id r) now' (w_db w1) (w_db w2) c" unfolding id by blast
  have "abs_stock (w_db w1) = abs_stock (w_db w)" using kept by (intro abs_stock_cong) (simp_all add: others_kept_def)
  with appliedD(1) [OF a] have "abs_stock (w_db w2) = snapshot (map (staging_values (rp_id r)) rows) (abs_stock (w_db w))"
    by (simp add: v(2))
  moreover have "find_report (rp_id r) (w_db w2) = Some (complete_report c now' ?r)" using applied_report [OF a v(4)] .
  ultimately show ?thesis using run run2 v(1)
    by (intro exI [of _ w1] exI [of _ w2] exI [of _ "complete_report c now' ?r"])
      (simp add: complete_report_def split: prod.split)
qed

lemma reliable_serves: "serving reliable_client memory_objects"
  by (auto simp: serving_def reliable_client_def split: option.split)

text \<open>The rows of the small file.\<close>

definition small_row :: "int \<Rightarrow> string \<Rightarrow> string \<Rightarrow> string \<Rightarrow> int \<Rightarrow> validated_row" where
  "small_row n c name k q = \<lparr>v_line_number = n, v_warehouse_code = lit c, v_warehouse_name = lit name, v_sku = lit k,
     v_product_name = lit k, v_quantity = q\<rparr>"

definition small_rows :: "validated_row list" where
  "small_rows = [small_row 2 ''A'' ''N'' ''X'' 7, small_row 3 ''C'' ''E'' ''Z'' 2]"

text \<open>
  The small file registered, and its first validation broken off: the connection that holds the lock is lost after
  the rows have been staged.
\<close>

definition breaking_env :: env where
  "breaking_env = quiet_env\<lparr>env_lock := (\<lambda>n. if n = 14 then LockClosed else LockOpen)\<rparr>"

definition broken_service :: "memory_store service_world" where
  "broken_service = snd (work_stored (snd (register_file small_file (new_service breaking_env))))"

lemma broken_facts:
  "map (\<lambda>r. (rp_id r, rp_status r, rp_object_bucket r, rp_object_key r, rp_row_count r)) (db_reports (w_db broken_service))
       = [(1, Processing, lit ''b'', report_object_key (lit ''u''), 0)]
    \<and> db_stocks (w_db broken_service) = [] \<and> length (db_staging (w_db broken_service)) = 2 \<and> w_tick broken_service = 16
    \<and> memory_objects (sv_outside broken_service) (lit ''b'', report_object_key (lit ''u'')) = Some small_file"
proof -
  have "case work_stored (snd (register_file small_file (new_service breaking_env))) of (res, w) \<Rightarrow>
    map (\<lambda>r. (rp_id r, rp_status r, rp_object_bucket r, rp_object_key r, rp_row_count r)) (db_reports (w_db w))
       = [(1, Processing, lit ''b'', report_object_key (lit ''u''), 0)]
    \<and> db_stocks (w_db w) = [] \<and> length (db_staging (w_db w)) = 2 \<and> w_tick w = 16
    \<and> memory_objects (sv_outside w) (lit ''b'', report_object_key (lit ''u'')) = Some small_file"
    by code_simp
  then show ?thesis by (simp add: broken_service_def split: prod.splits)
qed

lemma broken_runs: "service_runs reliable_client read_bytes default_limits 2 (new_service breaking_env) broken_service"
proof -
  obtain reg v where reg: "register_file small_file (new_service breaking_env) = (reg, v)" by fastforce
  have cycle: "work_stored v = (fst (work_stored v), broken_service)" by (simp add: broken_service_def reg)
  have "service_step reliable_client read_bytes default_limits 2 v broken_service" by (rule service_step.cycle [OF cycle])
  moreover have "service_runs reliable_client read_bytes default_limits 2 (new_service breaking_env) v"
    by (intro r_into_rtranclp service_step.registration [OF reg]) (simp add: new_service_def empty_db_def)
  ultimately show ?thesis by (rule rtranclp.rtrancl_into_rtrancl [rotated])
qed

theorem import_completes_witness:
  "\<exists>w1 w2. work_stored broken_service = (Inr VALIDATED, w1) \<and> work_stored w1 = (Inr COMPLETED, w2)
    \<and> abs_stock (w_db w2) (lit ''A'', lit ''X'') = Some 7"
proof -
  have start: "w_db (new_service breaking_env) = empty_db" by (simp add: new_service_def)
  have "w_env broken_service = w_env (new_service breaking_env)"
    using reliable.runs_advance [OF broken_runs service_ok_empty [OF start]] by (simp add: reliable.advances_def)
  then have calm: "calm broken_service" using broken_facts by (simp add: calm_def new_service_def breaking_env_def quiet_env_def)
  obtain r where db: "db_reports (w_db broken_service) = [r]" and r: "rp_id r = 1" "rp_status r = Processing"
    "rp_object_bucket r = lit ''b''" "rp_object_key r = report_object_key (lit ''u'')" "rp_row_count r = 0"
    using broken_facts by (auto simp: Cons_eq_map_conv)
  have "next_report (w_db broken_service) = Some r" "\<not> ready (w_db broken_service) r"
    by (simp_all add: db next_report_def unfinished_def r sort_by_def ready_def)
  moreover have "memory_objects (sv_outside broken_service) (rp_object_bucket r, rp_object_key r) = Some small_file"
    using broken_facts by (simp add: r)
  moreover have "check_limits default_limits = Inr ()"
    "csv_outcome default_limits (decode_utf8_sig small_file) = (map Deliver small_rows, Inr (summary 2 True))"
    "no_duplicates (map (staging_values 1) small_rows)" "\<forall>row \<in> set small_rows. staging_row_ok (staging_values 1 row)"
    by code_simp+
  moreover have "snapshot (map (staging_values 1) small_rows) m (lit ''A'', lit ''X'') = Some 7" for m by code_simp
  moreover have "len (db_stocks (w_db broken_service)) \<le> POSTGRES_BIGINT_MAX"
    using broken_facts by (simp add: POSTGRES_BIGINT_MAX_def)
  ultimately show ?thesis
    using import_completes [where fetches = "\<lambda>_. 1" and rows = small_rows and r = r,
        OF reliable.s3_service_axioms reliable_serves start broken_runs calm] r(1) by fastforce
qed

end
