(* ===== verification/Spec2Isabelle.thy ===== *)
theory Spec2Isabelle
  imports CsvProperties DownloadClaims ReadApiClaims WorkerClaims SchemaClaims ImportClaims
begin

text \<open>
  The report import service: clients upload CSV files with the stock of warehouses, a worker validates each
  file and applies it to the stock, and clients read reports, errors and stock. This development models the
  Python code under \<open>src/app\<close> and \<open>src/alembic\<close> and proves what makes it correct. This theory imports all
  others; it holds the overview.

  The program. An upload (\<open>api/reports.py\<close>) is stored in an S3 bucket through \<open>services/storage.py\<close> and recorded as a
  pending report (\<open>services/reports.py\<close>). The worker (\<open>worker.py\<close>) repeats one cycle, \<open>process_next_report\<close>
  (\<open>services/report_processing.py\<close>), under an advisory lock: it claims the oldest unfinished report; if
  its validation is not complete, it streams the object through \<open>services/csv_validation.py\<close>, writes rows and
  issues in batches to staging tables and concludes; if it is complete, it applies the staged rows
  in one transaction (\<open>services/apply_report.py\<close>). Reads go through \<open>services/read_api.py\<close> and \<open>services/reports.py\<close>. All
  of them meet in the tables of \<open>models.py\<close>, which the migrations create.

  How code is modelled. Text is a list of code points (\<open>pystr\<close>), since surrogates matter; bytes are 8-bit
  words; integers are \<open>int\<close>. A method that acts and may raise is an \<open>action\<close>, a function from a state to \<open>exn + 'a\<close> and a
  state (Prelude). The state of the services is the record \<open>world\<close> of Database: the tables, the sequences of the identity
  columns, the time of the transaction, and an environment that decides at every interaction whether a
  statement fails, how a commit ends (also: taking effect without being acknowledged), whether the lock's
  connection is alive, and the time. It is extended by the batch writer's batches (\<open>writer_world\<close>) and by the
  object store with the state of a download (\<open>service_world\<close>). A SQL statement is a function on the tables whose result is
  checked against all constraints (and whose parameters must fit their types); \<open>transaction\<close> restores the tables when its body raises or the commit
  fails. So every theorem about an arbitrary world covers every pattern of failures.

  Theories, by source file.
  \<^item> Foundations: Prelude (strings, dictionaries, exceptions, actions), PyText (\<open>strip\<close>, \<open>fullmatch\<close>, \<open>int\<close>), Sha256
    (\<open>hashlib\<close>), CsvReader (\<open>csv.reader\<close> in strict mode), the pieces of the standard library the code uses.
  \<^item> \<open>services/csv_validation.py\<close>: Utf8 (\<open>ChunkIteratorIO\<close> and decoding), CsvRecords (\<open>_iter_logical_records\<close>),
    CsvIssues (\<open>_bounded_raw_data\<close>), CsvRows (\<open>_validate_header\<close>, \<open>_validate_row\<close>), CsvValidation (\<open>_parse_record\<close>,
    \<open>validate_csv_stream\<close>). CsvOutcome is its specification: a function from the text of a file to
    rows, issues and summary. CsvProperties holds its properties.
  \<^item> \<open>models.py\<close>: Database (rows, tables, \<open>constraints_ok\<close>, sessions); Sessions has the reasoning about them:
    the locales \<open>effect\<close> and \<open>table_effect\<close> lift a relation on tables from statements to transactions.
  \<^item> \<open>services/apply_report.py\<close>: Catalog (the upserts of warehouses and products, one locale, two
    interpretations), ApplyReport (classification, counters, stock statements, the steps and \<open>apply\<close>). StockSnapshot
    is the specification: the stock as a map from warehouse code and SKU, updated as a snapshot of the report's
    warehouses. ApplyProperties has the refinement, ApplyClaims the properties.
  \<^item> \<open>services/report_processing.py\<close>: ReportProcessing (batch writer, validator, processor, cycle). ProcessingEffects and
    ProcessingCycle say what a cycle can do to the tables however it ends, ValidationRun what a returned
    validation has done, ReadyReports that a report is complete only without duplicate pairs, FailedCycles
    what a failed cycle leaves, CalmCycle and CalmRun that everything returns once nothing fails any more;
    ProcessingClaims has the properties.
  \<^item> \<open>services/storage.py\<close>: Storage (the adapter, over a client given by its operations), StorageContract (the contract of the
    boto3 client and of an uploaded file as locales \<open>s3_store\<close>, \<open>byte_source\<close>, \<open>s3_upload\<close> and \<open>s3_service\<close>, with a store
    in memory that satisfies it), Outside (a cycle changes no object).
  \<^item> \<open>services/reports.py\<close>: Reports (a download returns the report and its generator of chunks), Registration.
    \<open>services/read_api.py\<close>: Pages (sorting and pages, locale
    \<open>listing_order\<close>), ReadApi, ReadApiClaims.
  \<^item> \<open>errors.py\<close>, \<open>schemas.py\<close>, \<open>api/errors.py\<close>, \<open>api/reports.py\<close>, \<open>api/inventory.py\<close>, \<open>api/health.py\<close>: Http,
    with HttpClaims and DownloadClaims.
  \<^item> \<open>config.py\<close>: Config. \<open>worker.py\<close>: Worker, WorkerClaims. \<open>alembic/versions\<close> and the declarations of
    \<open>models.py\<close>: Schema, SchemaClaims.
  \<^item> The service: System (the step relation \<open>service_step\<close> of requests, the streaming of downloads and cycles, and
    its invariant), ServiceClaims, ImportClaims.

  What is shown.
  \<^item> The service: after any requests and cycles with any failures, every report's original is in the store with
    the recorded size and checksum, and reports only move along their life cycle (\<open>service_keeps_originals\<close>). There
    is one way to lose an original, which the theorem names (\<open>lost_registration\<close>): a registration whose commit takes
    effect without acknowledgement deletes the object of the report it has created
    (\<open>unacknowledged_registration\<close> is a run of it). The verdict on a report is that of the uploaded bytes
    (\<open>verdict_of_upload\<close>); a good file is validated and applied by the next two cycles if nothing fails any more,
    whatever has failed before (\<open>import_completes\<close>); a download sends the upload, or an initial piece of it if a read
    of the body fails or the client leaves (\<open>download_returns_upload\<close>).
  \<^item> CSV validation: the outcome does not depend on chunks and reads, each record gets one verdict, records are
    those of a reference splitter and bounded, raw data is bounded, tables written as CSV are read back.
  \<^item> Application: it refines the snapshot, is atomic, counts exactly, and returns when nothing fails.
  \<^item> Cycles: the invariants hold whatever fails, completion means application, failures are recorded, validation
    touches one report only, reports are taken in order. A cycle that fails to apply has applied nothing, unless
    a commit took effect without acknowledgement (\<open>lost_acknowledgement\<close>).
  \<^item> Storage and registration: uploads store what was sent, failed registrations leave nothing behind if commits
    are acknowledged.
  \<^item> Interfaces: the worker ends exactly when a signal arrives, pages are complete, answers are those of the
    documented errors, settings fit the validator, file names and headers are safe, and the migrations arrive at
    the models' schema and undo it, on any database whose relations are not named like those of the application
    (tables, indexes and keys share one namespace).

  Termination and bounds. Loops over data are structural or have a measure: the upload loop the room left
  under the limit, the adapter's \<open>readinto\<close> the bytes left. \<open>read_blocks\<close> has fuel, and the number of
  bytes left is proved enough. The worker's loop is a \<open>partial_function\<close>: that it ends is
  proved from a signal, that it does not from none. Database columns have 64 bits, \<open>POSTGRES_BIGINT_MAX\<close>; properties
  that need it assume at most so many balances.

  Assumed. Of the client: that objects change only by the operations on them, that a completed upload is
  the concatenation of its parts in order, that a successful read returns the object (locale \<open>s3_upload\<close>), and
  that a delete that fails leaves the object or has removed it (locale \<open>s3_service\<close>). Of registrations: that a new
  object key, which contains a \<open>uuid4\<close>, is not that of an existing report. Of the naming of check constraints in
  migrations: that it keeps the names of a table apart. Only where a statement says so: acknowledged commits
  (\<open>acknowledged\<close>), or that nothing fails from now on (\<open>calm\<close>, and \<open>serving\<close> for the store). The database's collation and
  \<open>lower\<close> are parameters.

  Not modelled: concurrent workers and requests (each operation runs on its own; the lock is granted or
  not by the environment); exhaustion of identity sequences, and the values that failed inserts consume; the order of the
  identities of duplicate errors; sequences, views and other schemas, with which the tables of the application share
  names at most (Schema); the server's framing of a streamed response, which cuts the connection when less than the
  announced length was sent; log lines and measured durations; the lengths of waits and polling intervals; the set-up in \<open>db.py\<close>,
  \<open>logging.py\<close>, \<open>main.py\<close>, \<open>dependencies.py\<close> and \<open>alembic/env.py\<close>, which construct and connect library objects; the
  framework's routing, parsing and serialisation.
\<close>

end
